(* ===== verification/Prelude.thy ===== *)
theory Prelude
  imports Main "HOL-Library.Word" "HOL-Library.Monad_Syntax"
begin

text \<open>
  What the components share: the scalar types of the simulator, the way an
  aborting or undefined operation of the C++ code is modelled, the indexed
  accesses to \<^verbatim>\<open>std::vector\<close> and \<^verbatim>\<open>std::deque\<close>, and generic lemmas on them.

  A C++ operation that may fail an \<^verbatim>\<open>assert\<close>, call \<^verbatim>\<open>panic\<close> or have undefined
  behaviour (an index out of range, a null or wild pointer, a division by zero,
  \<^verbatim>\<open>pop_back\<close> of an empty deque) returns an \<open>option\<close>: \<open>None\<close> is the trap and
  \<open>Some\<close> the value of a run without one. Operations are composed in the option
  monad, so a trap anywhere makes the whole operation a trap. Debug output
  (\<^verbatim>\<open>DPRINTF\<close>, \<^verbatim>\<open>printf\<close>) has no counterpart.
\<close>

unbundle bit_operations_syntax

type_synonym Addr = "64 word"
type_synonym InstSeqNum = nat \<comment> \<open>\<^verbatim>\<open>uint64_t\<close>; the modelled code only compares sequence numbers\<close>
type_synonym ThreadID = nat

named_theorems trap_simps \<open>unfolding of the trapping primitives\<close>

section \<open>Trapping primitives\<close>

definition assertion :: "bool \<Rightarrow> unit option" where
  "assertion b = (if b then Some () else None)"

definition vec_get :: "'a list \<Rightarrow> nat \<Rightarrow> 'a option" where
  "vec_get xs i = (if i < length xs then Some (xs ! i) else None)"

definition vec_set :: "'a list \<Rightarrow> nat \<Rightarrow> 'a \<Rightarrow> 'a list option" where
  "vec_set xs i v = (if i < length xs then Some (xs[i := v]) else None)"

definition pop_back :: "'a list \<Rightarrow> 'a list option" where
  "pop_back xs = (if xs = [] then None else Some (butlast xs))"

lemmas trap_defs [trap_simps] = assertion_def vec_get_def vec_set_def pop_back_def

lemma assertion_Some [simp]: "assertion b = Some u \<longleftrightarrow> b"
  by (simp add: assertion_def)

lemma assertion_None [simp]: "assertion b = None \<longleftrightarrow> \<not> b"
  by (simp add: assertion_def)

lemma assertion_True [simp]: "assertion True = Some ()"
  by (simp add: assertion_def)

lemma vec_get_in [simp]: "i < length xs \<Longrightarrow> vec_get xs i = Some (xs ! i)"
  by (simp add: vec_get_def)

lemma vec_set_in [simp]: "i < length xs \<Longrightarrow> vec_set xs i v = Some (xs[i := v])"
  by (simp add: vec_set_def)

lemma vec_get_Some_iff: "vec_get xs i = Some v \<longleftrightarrow> i < length xs \<and> v = xs ! i"
  by (auto simp: vec_get_def)

lemma vec_set_Some_iff: "vec_set xs i v = Some ys \<longleftrightarrow> i < length xs \<and> ys = xs[i := v]"
  by (auto simp: vec_set_def)

lemma pop_back_Some_iff: "pop_back xs = Some ys \<longleftrightarrow> xs \<noteq> [] \<and> ys = butlast xs"
  by (auto simp: pop_back_def)

lemma list_all_update:
  "list_all P xs \<Longrightarrow> P v \<Longrightarrow> list_all P (xs[i := v])"
  by (auto simp: list_all_iff dest!: subsetD [OF set_update_subset_insert])

lemma list_all_nth: "list_all P xs \<Longrightarrow> i < length xs \<Longrightarrow> P (xs ! i)"
  by (simp add: list_all_length)

lemma nth_upd_in: "j < length xs \<Longrightarrow> xs[i := v] ! j = (if i = j then v else xs ! j)"
  by (cases "i < length xs") (auto simp: nth_list_update list_update_beyond)

section \<open>Loops over a pair of parallel deques\<close>

text \<open>
  The predictors keep a deque of entries beside a deque of sequence numbers and
  drop from both while the number at one end satisfies a test. Reading the end of
  an empty second deque is a trap.
\<close>

fun pop_while :: "('b \<Rightarrow> bool) \<Rightarrow> 'a list \<Rightarrow> 'b list \<Rightarrow> ('a list \<times> 'b list) option" where
  "pop_while P [] ss = Some ([], ss)"
| "pop_while P (h # hs) [] = None"
| "pop_while P (h # hs) (s # ss) =
     (if P s then pop_while P hs ss else Some (h # hs, s # ss))"

lemma pop_while_dropWhile:
  "length hs = length ss \<Longrightarrow>
   pop_while P hs ss = Some (drop (length (takeWhile P ss)) hs, dropWhile P ss)"
  by (induction P hs ss rule: pop_while.induct) auto

text \<open>
  A linear search for a sequence number: \<open>n\<close> iterations remain, \<open>i\<close> is the loop
  index; the result is the index at which the loop stopped and the found flag.
\<close>

fun find_sn :: "nat \<Rightarrow> InstSeqNum list \<Rightarrow> InstSeqNum \<Rightarrow> nat \<Rightarrow> (nat \<times> bool) option" where
  "find_sn 0 sns sn i = Some (i, False)"
| "find_sn (Suc n) sns sn i = do {
     s \<leftarrow> vec_get sns i;
     if s = sn then Some (i, True) else find_sn n sns sn (Suc i)
   }"

lemma find_sn_spec:
  assumes "length sns = i + n"
  shows "find_sn n sns sn i =
    (let k = length (takeWhile (\<lambda>s. s \<noteq> sn) (drop i sns))
     in Some (i + k, sn \<in> set (drop i sns)))"
  using assms
proof (induction n sns sn i rule: find_sn.induct)
  case (1 sns sn i)
  then show ?case by simp
next
  case (2 n sns sn i)
  then have i: "i < length sns" by simp
  then have d: "drop i sns = sns ! i # drop (Suc i) sns"
    by (simp add: Cons_nth_drop_Suc)
  show ?case
  proof (cases "sns ! i = sn")
    case True
    with i d show ?thesis by simp
  next
    case False
    with 2 i have "find_sn n sns sn (Suc i) =
      (let k = length (takeWhile (\<lambda>s. s \<noteq> sn) (drop (Suc i) sns))
       in Some (Suc i + k, sn \<in> set (drop (Suc i) sns)))"
      by simp
    with False i d show ?thesis by (simp add: Let_def)
  qed
qed

corollary find_sn_found:
  assumes "sn \<in> set sns"
  obtains k where "find_sn (length sns) sns sn 0 = Some (k, True)"
    and "k < length sns" and "sns ! k = sn" and "sn \<notin> set (take k sns)"
proof -
  let ?k = "length (takeWhile (\<lambda>s. s \<noteq> sn) sns)"
  have "?k < length sns"
    using assms by (metis (mono_tags, lifting) length_takeWhile_le le_neq_implies_less
        takeWhile_eq_all_conv takeWhile_eq_take take_all_iff order_refl)
  moreover from this have "sns ! ?k = sn"
    using nth_length_takeWhile by blast
  moreover have "find_sn (length sns) sns sn 0 = Some (?k, True)"
    using find_sn_spec [of sns 0 "length sns" sn] assms by (simp add: Let_def)
  moreover have "sn \<notin> set (take ?k sns)"
    by (metis (mono_tags, lifting) set_takeWhileD takeWhile_eq_take)
  ultimately show ?thesis using that by blast
qed

lemma find_sn_not_found:
  assumes "sn \<notin> set sns"
  shows "find_sn (length sns) sns sn 0 = Some (length sns, False)"
proof -
  have "length (takeWhile (\<lambda>s. s \<noteq> sn) sns) = length sns"
    using assms by (metis (mono_tags, lifting) takeWhile_eq_all_conv)
  then show ?thesis
    using find_sn_spec [of sns 0 "length sns" sn] assms by (simp add: Let_def)
qed

section \<open>Loops over a list\<close>

text \<open>
  A \<^verbatim>\<open>for\<close> loop over a range or a container whose body may trap, as a fold in the
  option monad.
\<close>

fun foldM :: "('s \<Rightarrow> 'a \<Rightarrow> 's option) \<Rightarrow> 's \<Rightarrow> 'a list \<Rightarrow> 's option" where
  "foldM f s [] = Some s"
| "foldM f s (x # xs) = do { s' \<leftarrow> f s x; foldM f s' xs }"

lemma foldM_append: "foldM f s (xs @ ys) = foldM f s xs \<bind> (\<lambda>s'. foldM f s' ys)"
  by (induction xs arbitrary: s) auto

lemma foldM_invariant:
  assumes "I s" "\<And>s x. I s \<Longrightarrow> x \<in> set xs \<Longrightarrow> \<exists>s'. f s x = Some s' \<and> I s'"
  shows "\<exists>s'. foldM f s xs = Some s' \<and> I s'"
  using assms
proof (induction xs arbitrary: s)
  case (Cons x xs)
  obtain s1 where "f s x = Some s1" "I s1" using Cons.prems by (metis list.set_intros(1))
  moreover have "\<exists>s'. foldM f s1 xs = Some s' \<and> I s'"
    using \<open>I s1\<close> Cons.prems(2) by (intro Cons.IH) auto
  ultimately show ?case by simp
qed simp

lemma foldM_preserves:
  assumes "foldM f s xs = Some s'" "I s" "\<And>s x s'. I s \<Longrightarrow> x \<in> set xs \<Longrightarrow> f s x = Some s' \<Longrightarrow> I s'"
  shows "I s'"
  using assms
proof (induction xs arbitrary: s)
  case (Cons x xs)
  obtain s1 where s1: "f s x = Some s1" "foldM f s1 xs = Some s'"
    using Cons.prems(1) by (auto simp: bind_eq_Some_conv)
  show ?case
    by (rule Cons.IH [OF s1(2)]) (use Cons.prems s1(1) in auto)
qed simp

lemma foldM_cong: "(\<And>s x. x \<in> set xs \<Longrightarrow> f s x = g s x) \<Longrightarrow> foldM f s xs = foldM g s xs"
  by (induction xs arbitrary: s) (auto intro!: Option.bind_cong)

end
