(* ===== verification/LocPred_Base.thy ===== *)
theory LocPred_Base
  imports Prelude
begin

text \<open>
  The types of \<^verbatim>\<open>src/cpu/o3/locPred.hh\<close> and the base class of the location
  predictors: the predictor kinds, the cache levels with the order of the C++
  enumeration, the fold of the three-level hierarchy onto two levels, and the
  index computation every table-based predictor shares. The last section states
  the protocol between the load/store queue and a predictor, which the contracts
  of the concrete predictors refer to.
\<close>

section \<open>Predictor kinds and cache levels\<close>

datatype LocPred_t =
    Static | Greedy | Hysteresis | Local | Loop | Tournament_2Way | Tournament_3Way
  | Random | Perfect | NonePred \<comment> \<open>\<^verbatim>\<open>None\<close> in the source\<close>

datatype CacheLevel_t =
    Cache_L1 | Cache_L2 | Cache_L3 | DRAM | Cache_L1c | Perfect_Level | PerfectUnsafe_Level

text \<open>The integer value of an enumerator; comparisons of levels compare these.\<close>

fun level_num :: "CacheLevel_t \<Rightarrow> nat" where
  "level_num Cache_L1 = 0"
| "level_num Cache_L2 = 1"
| "level_num Cache_L3 = 2"
| "level_num DRAM = 3"
| "level_num Cache_L1c = 4"
| "level_num Perfect_Level = 5"
| "level_num PerfectUnsafe_Level = 6"

lemma level_num_inj: "level_num a = level_num b \<Longrightarrow> a = b"
  by (cases a; cases b) auto

instantiation CacheLevel_t :: linorder
begin

definition less_eq_CacheLevel_t :: "CacheLevel_t \<Rightarrow> CacheLevel_t \<Rightarrow> bool" where
  "less_eq_CacheLevel_t a b \<longleftrightarrow> level_num a \<le> level_num b"

definition less_CacheLevel_t :: "CacheLevel_t \<Rightarrow> CacheLevel_t \<Rightarrow> bool" where
  "less_CacheLevel_t a b \<longleftrightarrow> level_num a < level_num b"

instance
  by standard (auto simp: less_eq_CacheLevel_t_def less_CacheLevel_t_def dest: level_num_inj)

end

lemmas level_order_defs = less_eq_CacheLevel_t_def less_CacheLevel_t_def

definition foldCacheLevelForTwoLevelSDO :: "CacheLevel_t \<Rightarrow> CacheLevel_t" where
  "foldCacheLevelForTwoLevelSDO level = (if level = Cache_L3 then Cache_L2 else level)"

text \<open>The conversion of a level to \<^verbatim>\<open>bool\<close>.\<close>

definition level_bool :: "CacheLevel_t \<Rightarrow> bool" where
  "level_bool l \<longleftrightarrow> level_num l \<noteq> 0"

fun string_to_pred_type :: "string \<Rightarrow> LocPred_t" where
  "string_to_pred_type pred_str =
     (if pred_str = ''static'' then Static
      else if pred_str = ''greedy'' then Greedy
      else if pred_str = ''hysteresis'' then Hysteresis
      else if pred_str = ''local'' then Local
      else if pred_str = ''loop'' then Loop
      else if pred_str = ''tournament_2way'' then Tournament_2Way
      else if pred_str = ''tournament_3way'' then Tournament_3Way
      else if pred_str = ''random'' then Random
      else if pred_str = ''perfect'' then Perfect
      else NonePred)"

section \<open>Two classes of levels\<close>

text \<open>
  The levels a load may actually be served from, and the levels a prediction may
  name once the legacy third level has been folded away (the two perfect levels
  stand for the level found at run time).
\<close>

definition real_level :: "CacheLevel_t \<Rightarrow> bool" where
  "real_level l \<longleftrightarrow> l \<in> {Cache_L1, Cache_L2, Cache_L3, DRAM}"

definition folded_level :: "CacheLevel_t \<Rightarrow> bool" where
  "folded_level l \<longleftrightarrow> l \<in> {Cache_L1, Cache_L2, DRAM}"

definition issuable_level :: "CacheLevel_t \<Rightarrow> bool" where
  "issuable_level l \<longleftrightarrow> l \<in> {Cache_L1, Cache_L2, DRAM, Perfect_Level, PerfectUnsafe_Level}"

lemmas level_class_defs = real_level_def folded_level_def issuable_level_def

lemma fold_real_level [simp]: "real_level l \<Longrightarrow> folded_level (foldCacheLevelForTwoLevelSDO l)"
  by (auto simp: foldCacheLevelForTwoLevelSDO_def level_class_defs)

lemma fold_folded_level [simp]: "folded_level l \<Longrightarrow> foldCacheLevelForTwoLevelSDO l = l"
  by (auto simp: foldCacheLevelForTwoLevelSDO_def level_class_defs)

lemma fold_issuable_level [simp]: "issuable_level l \<Longrightarrow> foldCacheLevelForTwoLevelSDO l = l"
  by (auto simp: foldCacheLevelForTwoLevelSDO_def level_class_defs)

lemma fold_idem [simp]:
  "foldCacheLevelForTwoLevelSDO (foldCacheLevelForTwoLevelSDO l) = foldCacheLevelForTwoLevelSDO l"
  by (simp add: foldCacheLevelForTwoLevelSDO_def)

lemma folded_issuable: "folded_level l \<Longrightarrow> issuable_level l"
  by (auto simp: level_class_defs)

lemma folded_level_num: "folded_level l \<Longrightarrow> level_num l \<le> 3"
  by (auto simp: level_class_defs)

lemma folded_DRAM [simp]: "folded_level DRAM" and folded_L1 [simp]: "folded_level Cache_L1"
  and folded_L2 [simp]: "folded_level Cache_L2"
  by (simp_all add: folded_level_def)

lemma folded_max: "folded_level a \<Longrightarrow> folded_level b \<Longrightarrow> folded_level (max a b)"
  by (simp add: max_def)

section \<open>The base class\<close>

record LocPred_BaseType =
  predictorSize :: "64 word"
  indexMask :: "32 word"
  pred_type :: LocPred_t

definition default_pred_size :: "64 word" where
  "default_pred_size = 8192"

definition default_history_length :: nat where
  "default_history_length = 4"

definition default_conf_length :: nat where
  "default_conf_length = 4"

definition mk_base :: "LocPred_t \<Rightarrow> 64 word \<Rightarrow> LocPred_BaseType" where
  "mk_base t pred_size =
     \<lparr>predictorSize = pred_size, indexMask = ucast (pred_size - 1), pred_type = t\<rparr>"

definition getLocalIndex :: "'a LocPred_BaseType_scheme \<Rightarrow> Addr \<Rightarrow> nat" where
  "getLocalIndex b load_addr = unat (ucast (load_addr AND ucast (indexMask b)) :: 32 word)"

definition getPredType :: "'a LocPred_BaseType_scheme \<Rightarrow> LocPred_t" where
  "getPredType b = pred_type b"

definition wf_base :: "'a LocPred_BaseType_scheme \<Rightarrow> bool" where
  "wf_base b \<longleftrightarrow> predictorSize b \<noteq> 0 \<and> predictorSize b \<le> 4294967296 \<and>
     indexMask b = ucast (predictorSize b - 1)"

lemma unat_ucast_and_le:
  fixes a :: "64 word" and m :: "32 word"
  shows "unat (ucast (a AND ucast m) :: 32 word) \<le> unat m"
proof -
  have "ucast (a AND ucast m) = (ucast a :: 32 word) AND m"
    by (rule bit_word_eqI) (auto simp: bit_simps)
  then show ?thesis
    by (simp add: word_and_le1 word_le_nat_alt [symmetric])
qed

lemma getLocalIndex_bound:
  assumes "wf_base b"
  shows "getLocalIndex b pc < unat (predictorSize b)"
proof -
  let ?s = "predictorSize b"
  have s: "0 < unat ?s" "unat ?s \<le> 2 ^ 32"
    using assms by (auto simp: wf_base_def unat_gt_0 word_le_nat_alt)
  have "unat (?s - 1) = unat ?s - 1"
    using s(1) by (simp add: unat_minus_one unat_gt_0)
  moreover from this have "unat (ucast (?s - 1) :: 32 word) = unat ?s - 1"
    using s by (simp add: unsigned_ucast_eq take_bit_nat_eq_self_iff)
  ultimately show ?thesis
    using s(1) unat_ucast_and_le [of pc "indexMask b"] assms
    by (simp add: getLocalIndex_def wf_base_def)
qed

lemma wf_mk_base: "pred_size \<noteq> 0 \<Longrightarrow> pred_size \<le> 4294967296 \<Longrightarrow> wf_base (mk_base t pred_size)"
  by (simp add: wf_base_def mk_base_def)

section \<open>The protocol of the load/store queue\<close>

text \<open>
  The load/store queue prepares an entry for each load in program order, predicts
  and updates for loads that are in flight, commits loads oldest first and squashes
  every load younger than a sequence number. The protocol state is the list of
  loads in flight, youngest first, as pairs of program counter and sequence number,
  and the sequence number of the last committed load.
\<close>

type_synonym flight = "(Addr \<times> InstSeqNum) list"

definition flight_ok :: "flight \<Rightarrow> InstSeqNum \<Rightarrow> bool" where
  "flight_ok F c \<longleftrightarrow> sorted_wrt (\<lambda>x y. snd y < snd x) F \<and> list_all (\<lambda>x. c < snd x) F"

definition squash_flight :: "InstSeqNum \<Rightarrow> flight \<Rightarrow> flight" where
  "squash_flight sq F = filter (\<lambda>x. snd x \<le> sq) F"

text \<open>
  The in-flight loads that share table entry \<open>i\<close>, and what the deque of sequence
  numbers of that entry looks like: the loads in flight followed by at least \<open>hl\<close>
  older numbers.
\<close>

definition mask_index :: "32 word \<Rightarrow> Addr \<Rightarrow> nat" where
  "mask_index m load_addr = unat (ucast (load_addr AND ucast m) :: 32 word)"

lemma getLocalIndex_mask: "getLocalIndex b = mask_index (indexMask b)"
  by (simp add: fun_eq_iff getLocalIndex_def mask_index_def)

definition column :: "32 word \<Rightarrow> flight \<Rightarrow> nat \<Rightarrow> InstSeqNum list" where
  "column m F i = map snd (filter (\<lambda>x. mask_index m (fst x) = i) F)"

definition column_ok ::
  "32 word \<Rightarrow> flight \<Rightarrow> InstSeqNum \<Rightarrow> nat \<Rightarrow> nat \<Rightarrow> InstSeqNum list \<Rightarrow> bool" where
  "column_ok m F c hl i sns \<longleftrightarrow>
     (let n = length (column m F i)
      in take n sns = column m F i \<and> n + hl \<le> length sns \<and> list_all (\<lambda>s. s \<le> c) (drop n sns))"

lemma column_ok_iff:
  "column_ok m F c hl i sns \<longleftrightarrow>
     (\<exists>ret. sns = column m F i @ ret \<and> hl \<le> length ret \<and> (\<forall>s\<in>set ret. s \<le> c))"
proof
  let ?n = "length (column m F i)"
  assume ok: "column_ok m F c hl i sns"
  then have "sns = column m F i @ drop ?n sns"
    using append_take_drop_id [of ?n sns] by (simp add: column_ok_def Let_def)
  with ok show "\<exists>ret. sns = column m F i @ ret \<and> hl \<le> length ret \<and> (\<forall>s\<in>set ret. s \<le> c)"
    by (intro exI [of _ "drop ?n sns"]) (auto simp: column_ok_def Let_def list_all_iff)
qed (auto simp: column_ok_def Let_def list_all_iff)

lemma column_Cons:
  "column m ((pc, sn) # F) i = (if mask_index m pc = i then sn # column m F i else column m F i)"
  by (simp add: column_def)

lemma column_append:
  "column m (F @ [(pc, sn)]) i =
     (if mask_index m pc = i then column m F i @ [sn] else column m F i)"
  by (simp add: column_def)

lemma column_mem: "(pc, sn) \<in> set F \<Longrightarrow> sn \<in> set (column m F (mask_index m pc))"
  by (force simp: column_def)

lemma column_le: "\<forall>y\<in>set F. snd y \<le> q \<Longrightarrow> s \<in> set (column m F i) \<Longrightarrow> s \<le> q"
  by (auto simp: column_def)

lemma column_ok_prepare:
  "column_ok m F c hl i sns \<Longrightarrow>
   column_ok m ((pc, sn) # F) c hl i (if i = mask_index m pc then sn # sns else sns)"
  by (auto simp: column_ok_iff column_Cons)

lemma column_ok_commit_keep:
  assumes "column_ok m (F @ [(pc, sn)]) c hl i sns" "c \<le> sn"
  shows "column_ok m F sn hl i sns"
  using assms by (fastforce simp: column_ok_iff column_append split: if_splits)

lemma column_ok_commit_pop:
  assumes "column_ok m (F @ [(pc, sn)]) c hl (mask_index m pc) sns" "c \<le> sn"
  shows "sns \<noteq> [] \<and> column_ok m F sn hl (mask_index m pc) (butlast sns)"
proof -
  let ?i = "mask_index m pc"
  obtain ret where ret: "sns = column m F ?i @ sn # ret" "hl \<le> length ret" "\<forall>s\<in>set ret. s \<le> c"
    using assms(1) by (auto simp: column_ok_iff column_append)
  have "butlast sns = column m F ?i @ butlast (sn # ret)"
    by (simp add: ret(1) butlast_append)
  moreover have "\<forall>s\<in>set (butlast (sn # ret)). s \<le> sn"
    using ret(3) assms(2) by (fastforce dest: in_set_butlastD split: if_splits)
  ultimately show ?thesis
    using ret by (auto simp: column_ok_iff)
qed

lemma column_ok_squash:
  assumes "column_ok m F c hl i sns" "flight_ok F c" "c \<le> sq"
  shows "column_ok m (squash_flight sq F) c hl i (dropWhile (\<lambda>s. sq < s) sns)"
proof -
  obtain ret where ret: "sns = column m F i @ ret" "hl \<le> length ret" "\<forall>s\<in>set ret. s \<le> c"
    using assms(1) by (auto simp: column_ok_iff)
  have sorted: "sorted_wrt (\<lambda>x y. snd y < snd x) F"
    using assms(2) by (simp add: flight_ok_def)
  have "dropWhile (\<lambda>s. sq < s) (column m F i @ ret) = column m (squash_flight sq F) i @ ret"
    using sorted
  proof (induction F)
    case Nil
    have "dropWhile (\<lambda>s. sq < s) ret = ret"
      using ret(3) assms(3) by (cases ret) (auto simp: not_less)
    then show ?case by (simp add: column_def squash_flight_def)
  next
    case (Cons x F)
    show ?case
    proof (cases "sq < snd x")
      case True
      then show ?thesis using Cons by (auto simp: column_def squash_flight_def)
    next
      case False
      then have "squash_flight sq (x # F) = x # F"
        using Cons.prems by (fastforce simp: squash_flight_def intro!: filter_True)
      moreover have "dropWhile (\<lambda>s. sq < s) (column m (x # F) i @ ret) = column m (x # F) i @ ret"
      proof -
        have "\<forall>y\<in>set (x # F). snd y \<le> sq"
          using Cons.prems False by fastforce
        then have "\<not> sq < s" if "s \<in> set (column m (x # F) i @ ret)" for s
          using that ret(3) assms(3) column_le [of "x # F" sq s m i] by fastforce
        then show ?thesis
          by (metis dropWhile_eq_self_iff list.set_sel(1))
      qed
      ultimately show ?thesis by simp
    qed
  qed
  with ret show ?thesis by (auto simp: column_ok_iff)
qed

lemma column_ok_find:
  assumes "column_ok m F c hl (mask_index m pc) sns" "(pc, sn) \<in> set F"
  obtains k where "find_sn (length sns) sns sn 0 = Some (k, True)" "k + hl < length sns"
    "sns ! k = sn"
proof -
  let ?i = "mask_index m pc"
  obtain ret where ret: "sns = column m F ?i @ ret" "hl \<le> length ret"
    using assms(1) by (auto simp: column_ok_iff)
  have mem: "sn \<in> set (column m F ?i)"
    using assms(2) by (rule column_mem)
  with ret have "sn \<in> set sns" by simp
  then obtain k where k: "find_sn (length sns) sns sn 0 = Some (k, True)" "sns ! k = sn"
    "k < length sns" "sn \<notin> set (take k sns)"
    by (rule find_sn_found)
  have "k < length (column m F ?i)"
  proof (rule ccontr)
    assume "\<not> k < length (column m F ?i)"
    then have "set (column m F ?i) \<subseteq> set (take k sns)"
      by (simp add: ret(1))
    with mem k(4) show False by blast
  qed
  with that k ret show ?thesis by simp
qed

lemma flight_ok_prepare:
  "flight_ok F c \<Longrightarrow> \<forall>x\<in>set F. snd x < sn \<Longrightarrow> c < sn \<Longrightarrow> flight_ok ((pc, sn) # F) c"
  by (auto simp: flight_ok_def)

lemma flight_ok_commit: "flight_ok (F @ [(pc, sn)]) c \<Longrightarrow> flight_ok F sn \<and> c \<le> sn"
  by (auto simp: flight_ok_def sorted_wrt_append list_all_iff)

lemma flight_ok_squash: "flight_ok F c \<Longrightarrow> flight_ok (squash_flight sq F) c"
  by (auto simp: flight_ok_def squash_flight_def list_all_iff intro: sorted_wrt_filter)

end
