(* ===== verification/LocPred_Simple.thy ===== *)
theory LocPred_Simple
  imports LocPred_Base
begin

text \<open>
  The predictors without a per-load history: \<^verbatim>\<open>LocPred_random\<close>,
  \<^verbatim>\<open>LocPred_perfect\<close>, \<^verbatim>\<open>LocPred_static\<close> (\<^verbatim>\<open>locPred.hh\<close>) and
  \<^verbatim>\<open>LocPred_greedy\<close>, \<^verbatim>\<open>LocPred_hysteresis\<close> (\<^verbatim>\<open>locPred.cc\<close>), with their
  well-formedness, its preservation, and what they predict as a function of the
  levels they have been trained with.
\<close>

section \<open>Random, perfect and static prediction\<close>

text \<open>\<^verbatim>\<open>rand()\<close> is an argument: the value drawn.\<close>

definition random_predict :: "nat \<Rightarrow> CacheLevel_t \<times> LocPred_t" where
  "random_predict r =
     ((let k = r mod 4
       in if k = 0 then Cache_L1
          else if k = 1 then Cache_L2
          else if k = 2 then foldCacheLevelForTwoLevelSDO Cache_L3
          else if k = 3 then DRAM
          else Cache_L2), Random)"

record LocPred_perfect = LocPred_BaseType +
  is_safe :: bool

definition mk_perfect :: "bool \<Rightarrow> LocPred_perfect" where
  "mk_perfect safe = LocPred_BaseType.extend (mk_base Perfect default_pred_size) \<lparr>is_safe = safe\<rparr>"

definition perfect_predict :: "LocPred_perfect \<Rightarrow> CacheLevel_t \<times> LocPred_t" where
  "perfect_predict p = (if is_safe p then Perfect_Level else PerfectUnsafe_Level, Perfect)"

record LocPred_static = LocPred_BaseType +
  prediction :: CacheLevel_t

definition mk_static :: "CacheLevel_t \<Rightarrow> LocPred_static" where
  "mk_static pred_level = LocPred_BaseType.extend (mk_base Static default_pred_size)
     \<lparr>prediction = foldCacheLevelForTwoLevelSDO pred_level\<rparr>"

definition mk_static_default :: LocPred_static where
  "mk_static_default = LocPred_BaseType.extend (mk_base Static default_pred_size)
     \<lparr>prediction = Cache_L2\<rparr>"

definition static_predict :: "LocPred_static \<Rightarrow> CacheLevel_t \<times> LocPred_t" where
  "static_predict p = (prediction p, Static)"

section \<open>Greedy prediction\<close>

record LocPred_greedy = LocPred_BaseType +
  gr_historyLength :: nat
  gr_history :: "CacheLevel_t list list"

definition mk_greedy :: "64 word \<Rightarrow> nat \<Rightarrow> LocPred_greedy" where
  "mk_greedy pred_size history_len = LocPred_BaseType.extend (mk_base Greedy pred_size)
     \<lparr>gr_historyLength = history_len,
      gr_history = replicate (unat pred_size) (replicate history_len DRAM)\<rparr>"

text \<open>\<^verbatim>\<open>std::max_element\<close>, dereferenced: on an empty range that is a trap.\<close>

fun max_element :: "CacheLevel_t list \<Rightarrow> CacheLevel_t option" where
  "max_element [] = None"
| "max_element (x # xs) = Some (foldl (\<lambda>m y. if m < y then y else m) x xs)"

definition greedy_predict :: "LocPred_greedy \<Rightarrow> Addr \<Rightarrow> (CacheLevel_t \<times> LocPred_t) option" where
  "greedy_predict g load_PC = do {
     h \<leftarrow> vec_get (gr_history g) (getLocalIndex g load_PC);
     m \<leftarrow> max_element h;
     Some (foldCacheLevelForTwoLevelSDO m, Greedy)
   }"

text \<open>The loop that moves every element one place down, with \<open>n\<close> iterations to go.\<close>

fun shift_loop :: "nat \<Rightarrow> nat \<Rightarrow> CacheLevel_t list \<Rightarrow> CacheLevel_t list option" where
  "shift_loop 0 i h = Some h"
| "shift_loop (Suc n) i h = do {
     v \<leftarrow> vec_get h (Suc i);
     h' \<leftarrow> vec_set h i v;
     shift_loop n (Suc i) h'
   }"

definition greedy_update ::
  "LocPred_greedy \<Rightarrow> Addr \<Rightarrow> CacheLevel_t \<Rightarrow> (int \<times> LocPred_greedy) option" where
  "greedy_update g load_PC level = do {
     let actual_level = foldCacheLevelForTwoLevelSDO level;
     let pred_entry_idx = getLocalIndex g load_PC;
     h \<leftarrow> vec_get (gr_history g) pred_entry_idx;
     \<comment> \<open>\<^verbatim>\<open>size()-1\<close> wraps for an empty history and the first access is out of range\<close>
     assertion (h \<noteq> []);
     h' \<leftarrow> shift_loop (length h - 1) 0 h;
     h'' \<leftarrow> vec_set h' (length h - 1) actual_level;
     hist \<leftarrow> vec_set (gr_history g) pred_entry_idx h'';
     Some (0, g\<lparr>gr_history := hist\<rparr>)
   }"

definition wf_greedy :: "LocPred_greedy \<Rightarrow> bool" where
  "wf_greedy g \<longleftrightarrow> wf_base g \<and> 0 < gr_historyLength g \<and>
     length (gr_history g) = unat (predictorSize g) \<and>
     list_all (\<lambda>h. length h = gr_historyLength g \<and> list_all folded_level h) (gr_history g)"

section \<open>Hysteresis prediction\<close>

record LocPred_hysteresis = LocPred_BaseType +
  lastLevel1 :: "CacheLevel_t list"
  lastLevel2 :: "CacheLevel_t list"

definition mk_hysteresis :: "64 word \<Rightarrow> LocPred_hysteresis" where
  "mk_hysteresis pred_size = LocPred_BaseType.extend (mk_base Hysteresis pred_size)
     \<lparr>lastLevel1 = replicate (unat pred_size) DRAM, lastLevel2 = replicate (unat pred_size) DRAM\<rparr>"

definition hysteresis_predict ::
  "LocPred_hysteresis \<Rightarrow> Addr \<Rightarrow> (CacheLevel_t \<times> LocPred_t) option" where
  "hysteresis_predict p load_PC = do {
     let pred_entry_idx = getLocalIndex p load_PC;
     level1 \<leftarrow> vec_get (lastLevel1 p) pred_entry_idx;
     level2 \<leftarrow> vec_get (lastLevel2 p) pred_entry_idx;
     let pred = (if level1 = Cache_L1c \<or> level2 = Cache_L1c then Cache_L1
                 else if level1 > level2 then level1 else level2);
     Some (foldCacheLevelForTwoLevelSDO pred, Hysteresis)
   }"

definition hysteresis_update ::
  "LocPred_hysteresis \<Rightarrow> Addr \<Rightarrow> CacheLevel_t \<Rightarrow> (int \<times> LocPred_hysteresis) option" where
  "hysteresis_update p load_PC level = do {
     let actual_level = foldCacheLevelForTwoLevelSDO level;
     let pred_entry_idx = getLocalIndex p load_PC;
     ll1 \<leftarrow> vec_get (lastLevel1 p) pred_entry_idx;
     ll2 \<leftarrow> vec_get (lastLevel2 p) pred_entry_idx;
     if actual_level \<noteq> Cache_L1 \<or> (ll2 \<noteq> Cache_L1c \<and> ll1 \<noteq> Cache_L1) then do {
       l2 \<leftarrow> vec_set (lastLevel2 p) pred_entry_idx ll1;
       l1 \<leftarrow> vec_set (lastLevel1 p) pred_entry_idx actual_level;
       Some (0, p\<lparr>lastLevel1 := l1, lastLevel2 := l2\<rparr>)
     } else do {
       l1 \<leftarrow> vec_set (lastLevel1 p) pred_entry_idx Cache_L1c;
       Some (0, p\<lparr>lastLevel1 := l1\<rparr>)
     }
   }"

definition hyst_level :: "CacheLevel_t \<Rightarrow> bool" where
  "hyst_level l \<longleftrightarrow> folded_level l \<or> l = Cache_L1c"

definition wf_hysteresis :: "LocPred_hysteresis \<Rightarrow> bool" where
  "wf_hysteresis p \<longleftrightarrow> wf_base p \<and>
     length (lastLevel1 p) = unat (predictorSize p) \<and>
     length (lastLevel2 p) = unat (predictorSize p) \<and>
     list_all hyst_level (lastLevel1 p) \<and> list_all hyst_level (lastLevel2 p)"

section \<open>Lemmas on greedy prediction\<close>

lemma foldl_max: "foldl (\<lambda>m y. if m < y then y else m) x xs = foldl max (x :: CacheLevel_t) xs"
proof -
  have "(\<lambda>m y. if m < y then y else m) = (max :: CacheLevel_t \<Rightarrow> _)"
    by (auto simp: max_def fun_eq_iff not_le)
  then show ?thesis by simp
qed

lemma foldl_max_Max: "foldl max x xs = Max (insert (x :: CacheLevel_t) (set xs))"
proof (induction xs arbitrary: x)
  case (Cons y ys)
  then show ?case by (cases "ys = []") (simp_all add: max.assoc)
qed simp

lemma max_element_Max: "xs \<noteq> [] \<Longrightarrow> max_element xs = Some (Max (set xs))"
  by (cases xs) (simp_all add: foldl_max foldl_max_Max)

lemma Max_folded: "xs \<noteq> [] \<Longrightarrow> list_all folded_level xs \<Longrightarrow> folded_level (Max (set xs))"
  by (metis List.finite_set Max_in list_all_iff set_empty)

lemma shift_loop_spec:
  "length h = Suc (i + n) \<Longrightarrow> shift_loop n i h = Some (take i h @ drop (Suc i) h @ [last h])"
proof (induction n i h rule: shift_loop.induct)
  case (1 i h)
  then have "h \<noteq> []" and "i = length h - 1" by auto
  then show ?case using append_butlast_last_id [of h] by (simp add: butlast_conv_take)
next
  case (2 n i h)
  let ?h = "h[i := h ! Suc i]"
  have len: "Suc i < length h" using "2.prems" by simp
  have "shift_loop n (Suc i) ?h = Some (take (Suc i) ?h @ drop (Suc (Suc i)) ?h @ [last ?h])"
    using "2.IH" [of "h ! Suc i" ?h] "2.prems" len by simp
  moreover have "last ?h = last h"
    using len by (subst last_list_update) auto
  moreover have "take (Suc i) ?h = take i h @ [h ! Suc i]"
    using len by (simp add: take_Suc_conv_app_nth take_update_cancel)
  moreover have "drop (Suc i) h = h ! Suc i # drop (Suc (Suc i)) h"
    using len by (simp add: Cons_nth_drop_Suc)
  ultimately show ?case using len by simp
qed

lemma shift_spec:
  assumes "h \<noteq> []"
  shows "\<exists>h'. shift_loop (length h - 1) 0 h = Some h' \<and> length h' = length h \<and>
     h'[length h - 1 := l] = tl h @ [l]"
proof -
  have "shift_loop (length h - 1) 0 h = Some (tl h @ [last h])"
    using shift_loop_spec [of h 0 "length h - 1"] assms by (simp add: drop_Suc)
  then show ?thesis
    using assms by (intro exI [of _ "tl h @ [last h]"]) (auto simp: list_update_append)
qed

text \<open>One update at an index the vectors cover, as an equation.\<close>

lemma greedy_update_eq:
  assumes "wf_greedy g"
  shows "greedy_update g pc l =
    (let i = getLocalIndex g pc
     in Some (0, g\<lparr>gr_history := (gr_history g)
         [i := tl (gr_history g ! i) @ [foldCacheLevelForTwoLevelSDO l]]\<rparr>))"
proof -
  let ?i = "getLocalIndex g pc"
  have i: "?i < length (gr_history g)"
    using assms getLocalIndex_bound [of g pc] by (simp add: wf_greedy_def)
  then have ne: "gr_history g ! ?i \<noteq> []"
    using assms list_all_nth [OF _ i] by (fastforce simp: wf_greedy_def)
  then obtain h' where h': "shift_loop (length (gr_history g ! ?i) - 1) 0 (gr_history g ! ?i) = Some h'"
    "length h' = length (gr_history g ! ?i)"
    "h'[length (gr_history g ! ?i) - 1 := foldCacheLevelForTwoLevelSDO l] =
       tl (gr_history g ! ?i) @ [foldCacheLevelForTwoLevelSDO l]"
    using shift_spec by blast
  then have "length (gr_history g ! ?i) - 1 < length h'"
    using ne by (cases "gr_history g ! ?i") auto
  with i ne h' show ?thesis
    by (simp add: greedy_update_def Let_def)
qed

lemma greedy_update_wf:
  assumes "wf_greedy g" "real_level l" "greedy_update g pc l = Some (u, g')"
  shows "wf_greedy g' \<and> u = 0"
proof -
  let ?i = "getLocalIndex g pc"
  have i: "?i < length (gr_history g)"
    using assms(1) getLocalIndex_bound [of g pc] by (simp add: wf_greedy_def)
  have col: "length (gr_history g ! ?i) = gr_historyLength g" "list_all folded_level (gr_history g ! ?i)"
    using assms(1) list_all_nth [OF _ i] by (fastforce simp: wf_greedy_def)+
  have "list_all (\<lambda>h. length h = gr_historyLength g \<and> list_all folded_level h)
     ((gr_history g)[?i := tl (gr_history g ! ?i) @ [foldCacheLevelForTwoLevelSDO l]])"
    using assms(1,2) col by (intro list_all_update)
      (auto simp: wf_greedy_def list_all_iff dest: list.set_sel(2) [rotated])
  then show ?thesis
    using assms(1,3) by (auto simp: greedy_update_eq wf_greedy_def wf_base_def Let_def)
qed

lemma greedy_predict_wf:
  assumes "wf_greedy g"
  shows "greedy_predict g pc = Some (Max (set (gr_history g ! getLocalIndex g pc)), Greedy)"
    and "folded_level (Max (set (gr_history g ! getLocalIndex g pc)))"
proof -
  let ?h = "gr_history g ! getLocalIndex g pc"
  have i: "getLocalIndex g pc < length (gr_history g)"
    using assms getLocalIndex_bound [of g pc] by (simp add: wf_greedy_def)
  then have h: "?h \<noteq> []" "list_all folded_level ?h"
    using assms list_all_nth [OF _ i] by (fastforce simp: wf_greedy_def)+
  then show "folded_level (Max (set ?h))" by (rule Max_folded)
  with h i show "greedy_predict g pc = Some (Max (set ?h), Greedy)"
    by (simp add: greedy_predict_def max_element_Max)
qed

lemma wf_mk_greedy:
  "pred_size \<noteq> 0 \<Longrightarrow> pred_size \<le> 4294967296 \<Longrightarrow> 0 < n \<Longrightarrow> wf_greedy (mk_greedy pred_size n)"
  by (auto simp: wf_greedy_def mk_greedy_def wf_base_def mk_base_def LocPred_BaseType.defs
      list_all_iff)

section \<open>Lemmas on hysteresis prediction\<close>

lemma hysteresis_predict_wf:
  assumes "wf_hysteresis p"
  shows "\<exists>l. hysteresis_predict p pc = Some (l, Hysteresis) \<and> folded_level l"
proof -
  let ?i = "getLocalIndex p pc"
  have i: "?i < length (lastLevel1 p)" "?i < length (lastLevel2 p)"
    using assms getLocalIndex_bound [of p pc] by (simp_all add: wf_hysteresis_def)
  have "hyst_level (lastLevel1 p ! ?i)" "hyst_level (lastLevel2 p ! ?i)"
    using assms i by (auto simp: wf_hysteresis_def list_all_length)
  with i show ?thesis
    by (auto simp: hysteresis_predict_def Let_def hyst_level_def)
qed

lemma hysteresis_update_wf:
  assumes "wf_hysteresis p" "real_level l"
  shows "\<exists>p'. hysteresis_update p pc l = Some (0, p') \<and> wf_hysteresis p'"
proof -
  let ?i = "getLocalIndex p pc"
  have i: "?i < length (lastLevel1 p)" "?i < length (lastLevel2 p)"
    using assms getLocalIndex_bound [of p pc] by (simp_all add: wf_hysteresis_def)
  have ok: "hyst_level (lastLevel1 p ! ?i)" "hyst_level (foldCacheLevelForTwoLevelSDO l)"
    "hyst_level Cache_L1c"
    using assms i by (auto simp: wf_hysteresis_def list_all_length hyst_level_def)
  show ?thesis
    using assms(1) i ok
    by (auto simp: hysteresis_update_def Let_def wf_hysteresis_def wf_base_def intro!: list_all_update)
qed

lemma wf_mk_hysteresis:
  "pred_size \<noteq> 0 \<Longrightarrow> pred_size \<le> 4294967296 \<Longrightarrow> wf_hysteresis (mk_hysteresis pred_size)"
  by (auto simp: wf_hysteresis_def mk_hysteresis_def wf_base_def mk_base_def LocPred_BaseType.defs
      list_all_iff hyst_level_def)

section \<open>What greedy prediction computes\<close>

text \<open>
  A training run, and the specification of the history of one table entry: the
  last \<open>n\<close> folded levels of the loads that map to it, preceded by \<^verbatim>\<open>DRAM\<close> as long
  as fewer than \<open>n\<close> have been seen.
\<close>

fun greedy_run :: "LocPred_greedy \<Rightarrow> (Addr \<times> CacheLevel_t) list \<Rightarrow> LocPred_greedy option" where
  "greedy_run g [] = Some g"
| "greedy_run g ((pc, l) # tr) = do { (_, g') \<leftarrow> greedy_update g pc l; greedy_run g' tr }"

definition lastn :: "nat \<Rightarrow> 'a list \<Rightarrow> 'a list" where
  "lastn n xs = drop (length xs - n) xs"

definition levels_at :: "'a LocPred_BaseType_scheme \<Rightarrow> (Addr \<times> CacheLevel_t) list \<Rightarrow> nat \<Rightarrow> CacheLevel_t list" where
  "levels_at b tr i =
     map (\<lambda>x. foldCacheLevelForTwoLevelSDO (snd x)) (filter (\<lambda>x. getLocalIndex b (fst x) = i) tr)"

lemma lastn_snoc: "length h = n \<Longrightarrow> 0 < n \<Longrightarrow> lastn n (h @ l # ls) = lastn n (tl h @ l # ls)"
  by (cases h) (auto simp: lastn_def Suc_diff_le)

lemma greedy_run_spec:
  assumes "wf_greedy g" "\<forall>x\<in>set tr. real_level (snd x)"
  shows "\<exists>g'. greedy_run g tr = Some g' \<and> wf_greedy g' \<and> indexMask g' = indexMask g \<and>
     (\<forall>i < length (gr_history g).
        gr_history g' ! i = lastn (gr_historyLength g) (gr_history g ! i @ levels_at g tr i))"
  using assms
proof (induction tr arbitrary: g)
  case Nil
  then show ?case by (auto simp: levels_at_def lastn_def wf_greedy_def list_all_length)
next
  case (Cons x tr)
  obtain pc l where x: "x = (pc, l)" by (cases x)
  let ?k = "getLocalIndex g pc" and ?l = "foldCacheLevelForTwoLevelSDO l"
  let ?g = "g\<lparr>gr_history := (gr_history g)[?k := tl (gr_history g ! ?k) @ [?l]]\<rparr>"
  have upd: "greedy_update g pc l = Some (0, ?g)"
    using Cons.prems(1) by (simp add: greedy_update_eq Let_def)
  moreover have "wf_greedy ?g"
    using greedy_update_wf [OF Cons.prems(1) _ upd] Cons.prems(2) x by simp
  ultimately obtain g' where g': "greedy_run ?g tr = Some g'" "wf_greedy g'" "indexMask g' = indexMask g"
    "\<forall>i < length (gr_history g). gr_history g' ! i =
        lastn (gr_historyLength g) (gr_history ?g ! i @ levels_at g tr i)"
    using Cons.IH [of ?g] Cons.prems(2) by (auto simp: levels_at_def getLocalIndex_def)
  have "gr_history g' ! i = lastn (gr_historyLength g) (gr_history g ! i @ levels_at g (x # tr) i)"
    if i: "i < length (gr_history g)" for i
    using g'(4) i x Cons.prems(1)
    by (cases "i = ?k") (auto simp: levels_at_def wf_greedy_def list_all_length lastn_snoc)
  with g' upd x show ?case by auto
qed

text \<open>
  (C15) Greedy prediction is the pessimistic maximum of the recent past: after any
  training run of a fresh predictor, the level predicted for a program counter is
  the highest (slowest) of the last \<open>n\<close> levels of the loads sharing its table
  entry, where untrained positions count as \<^verbatim>\<open>DRAM\<close>; the run does not trap.
\<close>

theorem greedy_predicts_max_recent:
  assumes "pred_size \<noteq> 0" "pred_size \<le> 4294967296" "0 < n"
    and "\<forall>x\<in>set tr. real_level (snd x)"
  shows "\<exists>g. greedy_run (mk_greedy pred_size n) tr = Some g \<and>
    greedy_predict g pc =
      Some (Max (set (lastn n (replicate n DRAM @
              levels_at (mk_greedy pred_size n) tr (getLocalIndex (mk_greedy pred_size n) pc)))), Greedy)"
proof -
  let ?g = "mk_greedy pred_size n"
  have wf: "wf_greedy ?g" using assms by (intro wf_mk_greedy)
  then obtain g' where g': "greedy_run ?g tr = Some g'" "wf_greedy g'" "indexMask g' = indexMask ?g"
    "\<forall>i < length (gr_history ?g).
        gr_history g' ! i = lastn (gr_historyLength ?g) (gr_history ?g ! i @ levels_at ?g tr i)"
    using greedy_run_spec assms(4) by blast
  have "getLocalIndex ?g pc < length (gr_history ?g)"
    using wf getLocalIndex_bound [of ?g pc] by (simp add: wf_greedy_def)
  moreover have "getLocalIndex g' pc = getLocalIndex ?g pc"
    using g'(3) by (simp add: getLocalIndex_def)
  ultimately show ?thesis
    using g' greedy_predict_wf(1) [OF g'(2), of pc]
    by (auto simp: mk_greedy_def LocPred_BaseType.defs)
qed

theorem greedy_predicts_max_recent_witness:
  "\<exists>g. greedy_run (mk_greedy 2 2) [(0, Cache_L1), (1, DRAM), (0, Cache_L3)] = Some g \<and>
    greedy_predict g 0 = Some (Cache_L2, Greedy)"
proof -
  have "Max (set (lastn 2 (replicate 2 DRAM @ levels_at (mk_greedy 2 2)
      [(0, Cache_L1), (1, DRAM), (0, Cache_L3)] (getLocalIndex (mk_greedy 2 2) 0)))) = Cache_L2"
    by (simp add: lastn_def levels_at_def getLocalIndex_def mk_greedy_def LocPred_BaseType.defs
        mk_base_def foldCacheLevelForTwoLevelSDO_def numeral_2_eq_2 max_def level_order_defs)
  then show ?thesis
    using greedy_predicts_max_recent [of 2 2 "[(0, Cache_L1), (1, DRAM), (0, Cache_L3)]" 0]
    by (auto simp: real_level_def)
qed

section \<open>What hysteresis prediction computes\<close>

fun hysteresis_run :: "LocPred_hysteresis \<Rightarrow> Addr \<Rightarrow> CacheLevel_t list \<Rightarrow> LocPred_hysteresis option" where
  "hysteresis_run p pc [] = Some p"
| "hysteresis_run p pc (l # ls) = do { (_, p') \<leftarrow> hysteresis_update p pc l; hysteresis_run p' pc ls }"

lemma getLocalIndex_hysteresis [simp]:
  "getLocalIndex (p\<lparr>lastLevel1 := x\<rparr>) pc = getLocalIndex p pc"
  "getLocalIndex (p\<lparr>lastLevel2 := y\<rparr>) pc = getLocalIndex p pc"
  by (simp_all add: getLocalIndex_def)

lemma wf_hysteresis_index:
  "wf_hysteresis p \<Longrightarrow> getLocalIndex p pc < length (lastLevel1 p) \<and> getLocalIndex p pc < length (lastLevel2 p)"
  using getLocalIndex_bound [of p pc] by (simp add: wf_hysteresis_def)

text \<open>
  One table entry as an automaton on the pair of its two levels; the vectors
  implement it at the index of the load.
\<close>

fun hyst_entry :: "CacheLevel_t \<times> CacheLevel_t \<Rightarrow> CacheLevel_t \<Rightarrow> CacheLevel_t \<times> CacheLevel_t" where
  "hyst_entry (ll1, ll2) a =
     (if a \<noteq> Cache_L1 \<or> (ll2 \<noteq> Cache_L1c \<and> ll1 \<noteq> Cache_L1) then (a, ll1) else (Cache_L1c, ll2))"

fun hyst_out :: "CacheLevel_t \<times> CacheLevel_t \<Rightarrow> CacheLevel_t" where
  "hyst_out (ll1, ll2) = (if ll1 = Cache_L1c \<or> ll2 = Cache_L1c then Cache_L1 else max ll1 ll2)"

abbreviation hyst_at :: "LocPred_hysteresis \<Rightarrow> Addr \<Rightarrow> CacheLevel_t \<times> CacheLevel_t" where
  "hyst_at p pc \<equiv> (lastLevel1 p ! getLocalIndex p pc, lastLevel2 p ! getLocalIndex p pc)"

lemma hysteresis_update_entry:
  assumes "wf_hysteresis p" "real_level l"
  shows "\<exists>p'. hysteresis_update p pc l = Some (0, p') \<and> wf_hysteresis p' \<and>
     hyst_at p' pc = hyst_entry (hyst_at p pc) (foldCacheLevelForTwoLevelSDO l)"
proof -
  obtain p' where p': "hysteresis_update p pc l = Some (0, p')" "wf_hysteresis p'"
    using hysteresis_update_wf [OF assms] by blast
  have "hyst_at p' pc = hyst_entry (hyst_at p pc) (foldCacheLevelForTwoLevelSDO l)"
    using p'(1) wf_hysteresis_index [OF assms(1), of pc]
    by (auto simp: hysteresis_update_def Let_def split: if_splits)
  with p' show ?thesis by blast
qed

lemma hysteresis_run_entry:
  assumes "wf_hysteresis p" "\<forall>l\<in>set ls. real_level l"
  shows "\<exists>p'. hysteresis_run p pc ls = Some p' \<and> wf_hysteresis p' \<and>
     hyst_at p' pc = foldl hyst_entry (hyst_at p pc) (map foldCacheLevelForTwoLevelSDO ls)"
  using assms
proof (induction ls arbitrary: p)
  case (Cons l ls)
  then obtain p1 where p1: "hysteresis_update p pc l = Some (0, p1)" "wf_hysteresis p1"
    "hyst_at p1 pc = hyst_entry (hyst_at p pc) (foldCacheLevelForTwoLevelSDO l)"
    using hysteresis_update_entry [of p l pc] by auto
  then obtain p2 where "hysteresis_run p1 pc ls = Some p2" "wf_hysteresis p2"
    "hyst_at p2 pc = foldl hyst_entry (hyst_at p1 pc) (map foldCacheLevelForTwoLevelSDO ls)"
    using Cons.IH [of p1] Cons.prems(2) by auto
  with p1 show ?case by auto
qed auto

lemma hysteresis_predict_entry:
  assumes "wf_hysteresis p"
  shows "hysteresis_predict p pc = Some (hyst_out (hyst_at p pc), Hysteresis)"
proof -
  note idx = wf_hysteresis_index [OF assms, of pc]
  then have "hyst_level (lastLevel1 p ! getLocalIndex p pc)" "hyst_level (lastLevel2 p ! getLocalIndex p pc)"
    using assms by (auto simp: wf_hysteresis_def list_all_length)
  with idx show ?thesis
    by (auto simp: hysteresis_predict_def Let_def max_def not_le hyst_level_def)
qed

text \<open>
  (C16) Two consecutive outcomes determine a hysteresis prediction that is not in
  doubt: after two loads served from the private cache it predicts the private
  cache, after two loads served from below it predicts the lower of the two levels,
  whatever the table entry held before.
\<close>

theorem hysteresis_two_outcomes:
  assumes "wf_hysteresis p" "real_level a" "real_level b" "a = Cache_L1 \<longleftrightarrow> b = Cache_L1"
  shows "do { p' \<leftarrow> hysteresis_run p pc [a, b]; hysteresis_predict p' pc } =
     Some (max (foldCacheLevelForTwoLevelSDO a) (foldCacheLevelForTwoLevelSDO b), Hysteresis)"
proof -
  let ?a = "foldCacheLevelForTwoLevelSDO a" and ?b = "foldCacheLevelForTwoLevelSDO b"
  obtain p' where p': "hysteresis_run p pc [a, b] = Some p'" "wf_hysteresis p'"
    "hyst_at p' pc = hyst_entry (hyst_entry (hyst_at p pc) ?a) ?b"
    using hysteresis_run_entry [OF assms(1), of "[a, b]" pc] assms(2,3) by auto
  have "?a \<noteq> Cache_L1c" "?b \<noteq> Cache_L1c" "?a = Cache_L1 \<longleftrightarrow> ?b = Cache_L1"
    using assms(2-4) by (auto simp: real_level_def foldCacheLevelForTwoLevelSDO_def)
  then have "hyst_out (hyst_entry (hyst_entry (hyst_at p pc) ?a) ?b) = max ?a ?b"
    by (auto simp: max.commute)
  with p' show ?thesis by (simp del: hysteresis_run.simps add: hysteresis_predict_entry)
qed

theorem hysteresis_two_outcomes_witness:
  "do { p' \<leftarrow> hysteresis_run (mk_hysteresis 4) 3 [Cache_L2, DRAM]; hysteresis_predict p' 3 } =
     Some (DRAM, Hysteresis)"
proof -
  have "max (foldCacheLevelForTwoLevelSDO Cache_L2) (foldCacheLevelForTwoLevelSDO DRAM) = DRAM"
    by (simp add: foldCacheLevelForTwoLevelSDO_def max_def level_order_defs)
  then show ?thesis
    using hysteresis_two_outcomes [of "mk_hysteresis 4" Cache_L2 DRAM 3] wf_mk_hysteresis [of 4]
    by (simp add: real_level_def del: hysteresis_run.simps)
qed


end
