(* ===== verification/LocPred_History.thy ===== *)
theory LocPred_History
  imports LocPred_Base
begin

text \<open>
  The two predictors of \<^verbatim>\<open>locPred.cc\<close> that keep a deque of entries per table
  index, one per in-flight load and some older ones: \<^verbatim>\<open>LocPred_local\<close> (a two-level
  predictor: recent levels select a prediction) and \<^verbatim>\<open>LocPred_loop\<close> (the period
  of non-private accesses). The front of a deque is the head of the list. Deque
  lengths and the counts derived from them are below \<^verbatim>\<open>2^32\<close>, so they are \<open>nat\<close>.
\<close>

section \<open>The squash loop over all table entries\<close>

fun squash_table ::
  "InstSeqNum \<Rightarrow> nat \<Rightarrow> nat \<Rightarrow> 'a list list \<Rightarrow> InstSeqNum list list \<Rightarrow>
   ('a list list \<times> InstSeqNum list list) option" where
  "squash_table sq 0 i H S = Some (H, S)"
| "squash_table sq (Suc n) i H S = do {
     h \<leftarrow> vec_get H i;
     s \<leftarrow> vec_get S i;
     (h', s') \<leftarrow> pop_while (\<lambda>x. x > sq) h s;
     H' \<leftarrow> vec_set H i h';
     S' \<leftarrow> vec_set S i s';
     squash_table sq n (Suc i) H' S'
   }"

section \<open>The local predictor\<close>

record LocPred_local = LocPred_BaseType +
  lo_historyLength :: nat
  lo_history :: "CacheLevel_t list list"
  lo_history_sn :: "InstSeqNum list list"
  prediction_table :: "CacheLevel_t list list"

text \<open>\<^verbatim>\<open>1 << (2*historyLength)\<close> is a shift of an \<^verbatim>\<open>int\<close>.\<close>

definition mk_local :: "64 word \<Rightarrow> nat \<Rightarrow> LocPred_local option" where
  "mk_local pred_size history_len = do {
     assertion (2 * history_len < 31);
     Some (LocPred_BaseType.extend (mk_base Local pred_size)
       \<lparr>lo_historyLength = history_len,
        lo_history = replicate (unat pred_size) (replicate history_len DRAM),
        lo_history_sn = replicate (unat pred_size) (replicate history_len 0),
        prediction_table = replicate (unat pred_size) (replicate (2 ^ (2 * history_len)) DRAM)\<rparr>)
   }"

definition local_prepare :: "LocPred_local \<Rightarrow> Addr \<Rightarrow> InstSeqNum \<Rightarrow> LocPred_local option" where
  "local_prepare p load_PC load_sn = do {
     let pred_entry_idx = getLocalIndex p load_PC;
     h \<leftarrow> vec_get (lo_history p) pred_entry_idx;
     H \<leftarrow> vec_set (lo_history p) pred_entry_idx (Cache_L1 # h);
     s \<leftarrow> vec_get (lo_history_sn p) pred_entry_idx;
     S \<leftarrow> vec_set (lo_history_sn p) pred_entry_idx (load_sn # s);
     Some (p\<lparr>lo_history := H, lo_history_sn := S\<rparr>)
   }"

text \<open>
  The loop that packs the \<open>n\<close> levels from position \<open>i\<close> on into a table index, two
  bits each. With \<^verbatim>\<open>historyLength\<close> at most 15 the \<^verbatim>\<open>unsigned\<close> sum does not wrap.
\<close>

fun table_index :: "nat \<Rightarrow> nat \<Rightarrow> CacheLevel_t list \<Rightarrow> nat \<Rightarrow> nat option" where
  "table_index 0 i h acc = Some acc"
| "table_index (Suc n) i h acc = do {
     v \<leftarrow> vec_get h i;
     table_index n (Suc i) h (acc * 4 + level_num v)
   }"

definition local_predict ::
  "LocPred_local \<Rightarrow> Addr \<Rightarrow> InstSeqNum \<Rightarrow> (CacheLevel_t \<times> LocPred_t \<times> LocPred_local) option" where
  "local_predict p load_PC load_sn = do {
     let pred_entry_idx = getLocalIndex p load_PC;
     h \<leftarrow> vec_get (lo_history p) pred_entry_idx;
     s \<leftarrow> vec_get (lo_history_sn p) pred_entry_idx;
     (history_idx, history_idx_valid) \<leftarrow> find_sn (length h) s load_sn 0;
     assertion history_idx_valid;
     prediction_table_idx \<leftarrow> table_index (lo_historyLength p) (history_idx + 1) h 0;
     t \<leftarrow> vec_get (prediction_table p) pred_entry_idx;
     v \<leftarrow> vec_get t prediction_table_idx;
     let pred = foldCacheLevelForTwoLevelSDO v;
     h' \<leftarrow> vec_set h history_idx pred;
     H \<leftarrow> vec_set (lo_history p) pred_entry_idx h';
     Some (pred, Local, p\<lparr>lo_history := H\<rparr>)
   }"

definition local_update ::
  "LocPred_local \<Rightarrow> Addr \<Rightarrow> InstSeqNum \<Rightarrow> CacheLevel_t \<Rightarrow> (int \<times> LocPred_local) option" where
  "local_update p load_PC load_sn level = do {
     let actual_level = foldCacheLevelForTwoLevelSDO level;
     let pred_entry_idx = getLocalIndex p load_PC;
     h \<leftarrow> vec_get (lo_history p) pred_entry_idx;
     s \<leftarrow> vec_get (lo_history_sn p) pred_entry_idx;
     (history_idx, history_idx_valid) \<leftarrow> find_sn (length h) s load_sn 0;
     if \<not> history_idx_valid then Some (0, p)
     else do {
       prediction_table_idx \<leftarrow> table_index (lo_historyLength p) (history_idx + 1) h 0;
       h' \<leftarrow> vec_set h history_idx actual_level;
       H \<leftarrow> vec_set (lo_history p) pred_entry_idx h';
       t \<leftarrow> vec_get (prediction_table p) pred_entry_idx;
       t' \<leftarrow> vec_set t prediction_table_idx actual_level;
       T \<leftarrow> vec_set (prediction_table p) pred_entry_idx t';
       Some (1, p\<lparr>lo_history := H, prediction_table := T\<rparr>)
     }
   }"

definition local_commit :: "LocPred_local \<Rightarrow> Addr \<Rightarrow> int \<Rightarrow> LocPred_local option" where
  "local_commit p load_PC update_on_commit =
     (if update_on_commit \<noteq> 0 then do {
        let pred_entry_idx = getLocalIndex p load_PC;
        h \<leftarrow> vec_get (lo_history p) pred_entry_idx;
        h' \<leftarrow> pop_back h;
        H \<leftarrow> vec_set (lo_history p) pred_entry_idx h';
        s \<leftarrow> vec_get (lo_history_sn p) pred_entry_idx;
        s' \<leftarrow> pop_back s;
        S \<leftarrow> vec_set (lo_history_sn p) pred_entry_idx s';
        Some (p\<lparr>lo_history := H, lo_history_sn := S\<rparr>)
      } else Some p)"

definition local_squash :: "LocPred_local \<Rightarrow> InstSeqNum \<Rightarrow> LocPred_local option" where
  "local_squash p squashed_sn = do {
     (H, S) \<leftarrow> squash_table squashed_sn (unat (predictorSize p)) 0 (lo_history p) (lo_history_sn p);
     Some (p\<lparr>lo_history := H, lo_history_sn := S\<rparr>)
   }"

section \<open>The loop predictor\<close>

record LocPred_loop = LocPred_BaseType +
  direction_history :: "bool list list"
  direction_history_sn :: "InstSeqNum list list"
  loop_count_table :: "nat list"
  new_loop_count_table :: "nat list"
  pred_level_table :: "CacheLevel_t list"
  new_pred_level_table :: "CacheLevel_t list"

definition mk_loop :: "64 word \<Rightarrow> LocPred_loop" where
  "mk_loop pred_size = LocPred_BaseType.extend (mk_base Loop pred_size)
     \<lparr>direction_history = replicate (unat pred_size) [True],
      direction_history_sn = replicate (unat pred_size) [0],
      loop_count_table = replicate (unat pred_size) 1,
      new_loop_count_table = replicate (unat pred_size) 0,
      pred_level_table = replicate (unat pred_size) Cache_L1,
      new_pred_level_table = replicate (unat pred_size) Cache_L1\<rparr>"

definition loop_prepare :: "LocPred_loop \<Rightarrow> Addr \<Rightarrow> InstSeqNum \<Rightarrow> LocPred_loop option" where
  "loop_prepare p load_PC load_sn = do {
     let pred_entry_idx = getLocalIndex p load_PC;
     h \<leftarrow> vec_get (direction_history p) pred_entry_idx;
     H \<leftarrow> vec_set (direction_history p) pred_entry_idx (level_bool Cache_L1 # h);
     s \<leftarrow> vec_get (direction_history_sn p) pred_entry_idx;
     S \<leftarrow> vec_set (direction_history_sn p) pred_entry_idx (load_sn # s);
     Some (p\<lparr>direction_history := H, direction_history_sn := S\<rparr>)
   }"

text \<open>The loop that looks for the next taken entry; \<open>n\<close> positions are left to inspect.\<close>

fun loop_len :: "nat \<Rightarrow> bool list \<Rightarrow> nat \<Rightarrow> nat \<Rightarrow> nat option" where
  "loop_len 0 h history_idx curr_loop_len = Some curr_loop_len"
| "loop_len (Suc n) h history_idx curr_loop_len = do {
     d \<leftarrow> vec_get h (history_idx + curr_loop_len);
     if d then Some curr_loop_len else loop_len n h history_idx (Suc curr_loop_len)
   }"

definition loop_predict ::
  "LocPred_loop \<Rightarrow> Addr \<Rightarrow> InstSeqNum \<Rightarrow> (CacheLevel_t \<times> LocPred_t \<times> LocPred_loop) option" where
  "loop_predict p load_PC load_sn = do {
     let pred_entry_idx = getLocalIndex p load_PC;
     h \<leftarrow> vec_get (direction_history p) pred_entry_idx;
     s \<leftarrow> vec_get (direction_history_sn p) pred_entry_idx;
     (history_idx, history_idx_valid) \<leftarrow> find_sn (length h) s load_sn 0;
     assertion history_idx_valid;
     curr_loop_len \<leftarrow> loop_len (length h - (history_idx + 1)) h history_idx 1;
     loop_count \<leftarrow> vec_get (loop_count_table p) pred_entry_idx;
     assertion (loop_count \<noteq> 0); \<comment> \<open>\<^verbatim>\<open>%\<close> by zero\<close>
     pred \<leftarrow> (if curr_loop_len mod loop_count = 0 then do {
                l \<leftarrow> vec_get (pred_level_table p) pred_entry_idx;
                Some (foldCacheLevelForTwoLevelSDO l)
              } else Some Cache_L1);
     h' \<leftarrow> vec_set h history_idx (level_bool pred);
     H \<leftarrow> vec_set (direction_history p) pred_entry_idx h';
     Some (pred, Loop, p\<lparr>direction_history := H\<rparr>)
   }"

text \<open>The update of one current/candidate pair of tables: a new value must be seen twice.\<close>

definition confirm :: "'a \<Rightarrow> 'a \<times> 'a \<Rightarrow> 'a \<times> 'a" where
  "confirm v cn = (if fst cn \<noteq> v then if snd cn = v then (v, snd cn) else (fst cn, v) else cn)"

definition loop_update ::
  "LocPred_loop \<Rightarrow> Addr \<Rightarrow> InstSeqNum \<Rightarrow> CacheLevel_t \<Rightarrow> (int \<times> LocPred_loop) option" where
  "loop_update p load_PC load_sn level = do {
     let actual_level = foldCacheLevelForTwoLevelSDO level;
     let pred_entry_idx = getLocalIndex p load_PC;
     h \<leftarrow> vec_get (direction_history p) pred_entry_idx;
     s \<leftarrow> vec_get (direction_history_sn p) pred_entry_idx;
     (history_idx, history_idx_valid) \<leftarrow> find_sn (length h) s load_sn 0;
     if \<not> history_idx_valid then Some (0, p)
     else do {
       curr_loop_len \<leftarrow> loop_len (length h - (history_idx + 1)) h history_idx 1;
       let actual_direction = (actual_level \<noteq> Cache_L1);
       h' \<leftarrow> vec_set h history_idx actual_direction;
       H \<leftarrow> vec_set (direction_history p) pred_entry_idx h';
       let p1 = p\<lparr>direction_history := H\<rparr>;
       if actual_direction then do {
         c \<leftarrow> vec_get (loop_count_table p) pred_entry_idx;
         nc \<leftarrow> vec_get (new_loop_count_table p) pred_entry_idx;
         C \<leftarrow> vec_set (loop_count_table p) pred_entry_idx (fst (confirm curr_loop_len (c, nc)));
         NC \<leftarrow> vec_set (new_loop_count_table p) pred_entry_idx (snd (confirm curr_loop_len (c, nc)));
         l \<leftarrow> vec_get (pred_level_table p) pred_entry_idx;
         nl \<leftarrow> vec_get (new_pred_level_table p) pred_entry_idx;
         L \<leftarrow> vec_set (pred_level_table p) pred_entry_idx (fst (confirm actual_level (l, nl)));
         NL \<leftarrow> vec_set (new_pred_level_table p) pred_entry_idx (snd (confirm actual_level (l, nl)));
         Some (1, p1\<lparr>loop_count_table := C, new_loop_count_table := NC,
                      pred_level_table := L, new_pred_level_table := NL\<rparr>)
       } else Some (0, p1)
     }
   }"

text \<open>\<^verbatim>\<open>commit\<close> drops from the back; the loop runs on the reversed deques.\<close>

definition loop_commit :: "LocPred_loop \<Rightarrow> Addr \<Rightarrow> InstSeqNum \<Rightarrow> int \<Rightarrow> LocPred_loop option" where
  "loop_commit p load_PC load_sn update_on_commit =
     (if update_on_commit \<noteq> 0 then do {
        let pred_entry_idx = getLocalIndex p load_PC;
        h \<leftarrow> vec_get (direction_history p) pred_entry_idx;
        s \<leftarrow> vec_get (direction_history_sn p) pred_entry_idx;
        (h', s') \<leftarrow> pop_while (\<lambda>x. x < load_sn) (rev h) (rev s);
        H \<leftarrow> vec_set (direction_history p) pred_entry_idx (rev h');
        S \<leftarrow> vec_set (direction_history_sn p) pred_entry_idx (rev s');
        Some (p\<lparr>direction_history := H, direction_history_sn := S\<rparr>)
      } else Some p)"

definition loop_squash :: "LocPred_loop \<Rightarrow> InstSeqNum \<Rightarrow> LocPred_loop option" where
  "loop_squash p squashed_sn = do {
     (H, S) \<leftarrow> squash_table squashed_sn (unat (predictorSize p)) 0
                (direction_history p) (direction_history_sn p);
     Some (p\<lparr>direction_history := H, direction_history_sn := S\<rparr>)
   }"

section \<open>The invariant of a pair of deque tables\<close>

definition hist_inv ::
  "32 word \<Rightarrow> nat \<Rightarrow> flight \<Rightarrow> InstSeqNum \<Rightarrow> nat \<Rightarrow> ('a \<Rightarrow> bool) \<Rightarrow> 'a list list \<Rightarrow> InstSeqNum list list \<Rightarrow> bool" where
  "hist_inv m N F c hl P H S \<longleftrightarrow> length H = N \<and> length S = N \<and>
     list_all (\<lambda>i. length (H ! i) = length (S ! i) \<and> column_ok m F c hl i (S ! i) \<and> list_all P (H ! i)) [0..<N]"

lemma hist_inv_iff:
  "hist_inv m N F c hl P H S \<longleftrightarrow> length H = N \<and> length S = N \<and>
     (\<forall>i<N. length (H ! i) = length (S ! i) \<and> column_ok m F c hl i (S ! i) \<and> list_all P (H ! i))"
  by (auto simp: hist_inv_def list_all_iff)

lemma hist_invD:
  assumes "hist_inv m N F c hl P H S" "i < N"
  shows "i < length H" "i < length S" "length (H ! i) = length (S ! i)"
    "column_ok m F c hl i (S ! i)" "list_all P (H ! i)"
  using assms by (auto simp: hist_inv_iff)

lemma hist_inv_push:
  assumes "hist_inv m N F c hl P H S" "P v"
  shows "hist_inv m N ((pc, sn) # F) c hl P (H[mask_index m pc := v # H ! mask_index m pc])
    (S[mask_index m pc := sn # S ! mask_index m pc])"
proof -
  have "column_ok m ((pc, sn) # F) c hl i (S[mask_index m pc := sn # S ! mask_index m pc] ! i)"
    if "i < N" for i
    using assms that column_ok_prepare [of m F c hl i "S ! i" pc sn]
    by (auto simp: hist_inv_iff nth_upd_in)
  then show ?thesis
    using assms by (auto simp: hist_inv_iff nth_upd_in)
qed

lemma hist_inv_set:
  assumes "hist_inv m N F c hl P H S" "P v"
  shows "hist_inv m N F c hl P (H[i := (H ! i)[k := v]]) S"
  using assms by (auto simp: hist_inv_iff nth_upd_in intro!: list_all_update)

lemma hist_inv_keep:
  assumes "hist_inv m N (F @ [(pc, sn)]) c hl P H S" "c \<le> sn"
  shows "hist_inv m N F sn hl P H S"
  using assms by (auto simp: hist_inv_iff intro: column_ok_commit_keep)

text \<open>Replacing the deques of one index, when the other indices keep their columns.\<close>

lemma hist_inv_replace:
  assumes "hist_inv m N (F @ [(pc, sn)]) c hl P H S" "c \<le> sn"
    and "i = mask_index m pc" "length h = length s" "column_ok m F sn hl i s" "list_all P h"
  shows "hist_inv m N F sn hl P (H[i := h]) (S[i := s])"
  using hist_inv_keep [OF assms(1,2)] assms(3-6) by (auto simp: hist_inv_iff nth_upd_in)

lemma hist_inv_pop:
  assumes "hist_inv m N (F @ [(pc, sn)]) c hl P H S" "c \<le> sn" "mask_index m pc < N"
  shows "H ! mask_index m pc \<noteq> []" "S ! mask_index m pc \<noteq> []"
    "hist_inv m N F sn hl P (H[mask_index m pc := butlast (H ! mask_index m pc)])
      (S[mask_index m pc := butlast (S ! mask_index m pc)])"
proof -
  note inv = hist_invD [OF assms(1,3)]
  have ok: "S ! mask_index m pc \<noteq> []" "column_ok m F sn hl (mask_index m pc) (butlast (S ! mask_index m pc))"
    using column_ok_commit_pop [OF inv(4) assms(2)] by auto
  then show "S ! mask_index m pc \<noteq> []" "H ! mask_index m pc \<noteq> []"
    using inv(3) by auto
  show "hist_inv m N F sn hl P (H[mask_index m pc := butlast (H ! mask_index m pc)])
      (S[mask_index m pc := butlast (S ! mask_index m pc)])"
    using inv ok by (intro hist_inv_replace [OF assms(1,2)])
      (auto simp: list_all_iff dest: in_set_butlastD)
qed

lemma column_trim:
  assumes "column_ok m (F @ [(pc, sn)]) c 0 (mask_index m pc) s" "c < sn"
  shows "dropWhile (\<lambda>x. x < sn) (rev s) = sn # rev (column m F (mask_index m pc))"
    and "length (takeWhile (\<lambda>x. x < sn) (rev s)) = length s - Suc (length (column m F (mask_index m pc)))"
proof -
  let ?col = "column m F (mask_index m pc)"
  obtain ret where ret: "s = ?col @ sn # ret" "\<forall>x\<in>set ret. x \<le> c"
    using assms(1) by (auto simp: column_ok_iff column_append)
  have small: "x < sn" if "x \<in> set (rev ret)" for x
    using ret(2) assms(2) that by auto
  show "dropWhile (\<lambda>x. x < sn) (rev s) = sn # rev ?col"
    using dropWhile_append2 [of "rev ret" "\<lambda>x. x < sn" "sn # rev ?col"] small by (simp add: ret(1))
  show "length (takeWhile (\<lambda>x. x < sn) (rev s)) = length s - Suc (length ?col)"
    using takeWhile_append2 [of "rev ret" "\<lambda>x. x < sn" "sn # rev ?col"] small by (simp add: ret(1))
qed

lemma hist_inv_trim:
  assumes "hist_inv m N (F @ [(pc, sn)]) c 0 P H S" "c < sn" "mask_index m pc < N"
  shows "\<exists>h s. pop_while (\<lambda>x. x < sn) (rev (H ! mask_index m pc)) (rev (S ! mask_index m pc)) = Some (h, s) \<and>
     hist_inv m N F sn 0 P (H[mask_index m pc := rev h]) (S[mask_index m pc := rev s])"
proof -
  let ?i = "mask_index m pc"
  note inv = hist_invD [OF assms(1,3)]
  let ?h = "drop (length (takeWhile (\<lambda>x. x < sn) (rev (S ! ?i)))) (rev (H ! ?i))"
  let ?s = "dropWhile (\<lambda>x. x < sn) (rev (S ! ?i))"
  have pop: "pop_while (\<lambda>x. x < sn) (rev (H ! ?i)) (rev (S ! ?i)) = Some (?h, ?s)"
    using inv(3) by (intro pop_while_dropWhile) simp
  have "column_ok m F sn 0 ?i (rev ?s)"
    using column_trim(1) [OF inv(4) assms(2)] by (auto simp: column_ok_iff)
  moreover have "length (rev ?h) = length (rev ?s)"
    using inv(3) by (simp add: dropWhile_eq_drop)
  moreover have "list_all P (rev ?h)"
    using inv(5) by (auto simp: list_all_iff dest: in_set_dropD)
  ultimately have "hist_inv m N F sn 0 P (H[?i := rev ?h]) (S[?i := rev ?s])"
    using assms(2) by (intro hist_inv_replace [OF assms(1)]) auto
  with pop show ?thesis by blast
qed

lemma squash_table_spec:
  assumes "length H = i + n" "length S = i + n" "\<forall>j. i \<le> j \<and> j < i + n \<longrightarrow> length (H ! j) = length (S ! j)"
  shows "\<exists>H' S'. squash_table sq n i H S = Some (H', S') \<and> length H' = length H \<and> length S' = length S \<and>
     (\<forall>j<i + n. H' ! j = (if j < i then H ! j else drop (length (takeWhile (\<lambda>x. x > sq) (S ! j))) (H ! j)) \<and>
                S' ! j = (if j < i then S ! j else dropWhile (\<lambda>x. x > sq) (S ! j)))"
  using assms
proof (induction n arbitrary: i H S)
  case (Suc n)
  let ?h = "drop (length (takeWhile (\<lambda>x. x > sq) (S ! i))) (H ! i)"
  let ?s = "dropWhile (\<lambda>x. x > sq) (S ! i)"
  have i: "i < length H" "i < length S" "length (H ! i) = length (S ! i)"
    using Suc.prems by auto
  obtain H' S' where HS: "squash_table sq n (Suc i) (H[i := ?h]) (S[i := ?s]) = Some (H', S')"
    "length H' = length H" "length S' = length S"
    "\<forall>j<Suc i + n. H' ! j = (if j < Suc i then H[i := ?h] ! j
         else drop (length (takeWhile (\<lambda>x. x > sq) (S[i := ?s] ! j))) (H[i := ?h] ! j)) \<and>
       S' ! j = (if j < Suc i then S[i := ?s] ! j else dropWhile (\<lambda>x. x > sq) (S[i := ?s] ! j))"
    using Suc.IH [of "H[i := ?h]" "Suc i" "S[i := ?s]"] Suc.prems by auto
  have "squash_table sq (Suc n) i H S = Some (H', S')"
    using i HS(1) by (simp add: pop_while_dropWhile)
  moreover have "\<forall>j<i + Suc n.
     H' ! j = (if j < i then H ! j else drop (length (takeWhile (\<lambda>x. x > sq) (S ! j))) (H ! j)) \<and>
     S' ! j = (if j < i then S ! j else dropWhile (\<lambda>x. x > sq) (S ! j))"
    using HS(4) i by (auto simp: nth_upd_in less_Suc_eq)
  ultimately show ?case using HS by blast
qed auto

lemma hist_inv_squash:
  assumes "hist_inv m N F c hl P H S" "flight_ok F c" "c \<le> sq"
  shows "\<exists>H' S'. squash_table sq N 0 H S = Some (H', S') \<and>
     hist_inv m N (squash_flight sq F) c hl P H' S'"
proof -
  obtain H' S' where HS: "squash_table sq N 0 H S = Some (H', S')" "length H' = length H" "length S' = length S"
    "\<forall>j<N. H' ! j = drop (length (takeWhile (\<lambda>x. x > sq) (S ! j))) (H ! j) \<and>
           S' ! j = dropWhile (\<lambda>x. x > sq) (S ! j)"
    using squash_table_spec [of H 0 N S sq] assms(1) by (auto simp: hist_inv_iff)
  have "hist_inv m N (squash_flight sq F) c hl P H' S'"
    using assms HS by (auto simp: hist_inv_iff dropWhile_eq_drop list_all_iff
        dest: in_set_dropD intro: column_ok_squash [unfolded dropWhile_eq_drop])
  with HS(1) show ?thesis by blast
qed

section \<open>The contract of the local predictor\<close>

definition local_inv :: "LocPred_local \<Rightarrow> flight \<Rightarrow> InstSeqNum \<Rightarrow> bool" where
  "local_inv p F c \<longleftrightarrow> wf_base p \<and>
     hist_inv (indexMask p) (unat (predictorSize p)) F c (lo_historyLength p) folded_level
       (lo_history p) (lo_history_sn p) \<and>
     length (prediction_table p) = unat (predictorSize p) \<and>
     list_all (\<lambda>t. length t = 4 ^ lo_historyLength p \<and> list_all folded_level t) (prediction_table p)"

lemma table_index_bound:
  assumes "i + n \<le> length h" "list_all folded_level h"
  shows "\<exists>k. table_index n i h acc = Some k \<and> k < (acc + 1) * 4 ^ n"
  using assms
proof (induction n i h acc rule: table_index.induct)
  case (2 n i h acc)
  have i: "i < length h" using 2 by simp
  then have "level_num (h ! i) \<le> 3"
    using "2.prems"(2) by (simp add: list_all_nth folded_level_num)
  then have "acc * 4 + level_num (h ! i) + 1 \<le> (acc + 1) * 4" by simp
  then have "(acc * 4 + level_num (h ! i) + 1) * 4 ^ n \<le> (acc + 1) * 4 * 4 ^ n"
    by (rule mult_le_mono1)
  moreover obtain k where k: "table_index n (Suc i) h (acc * 4 + level_num (h ! i)) = Some k"
    "k < (acc * 4 + level_num (h ! i) + 1) * 4 ^ n"
    using 2 i by auto
  ultimately have "k < (acc + 1) * 4 ^ Suc n"
    by (simp only: power_Suc mult.assoc less_le_trans)
  with i k(1) show ?case by simp
qed simp

lemma local_inv_index:
  "local_inv p F c \<Longrightarrow> mask_index (indexMask p) pc < unat (predictorSize p)"
  using getLocalIndex_bound [of p pc] by (simp add: local_inv_def getLocalIndex_mask)

lemma local_invD:
  assumes "local_inv p F c"
  shows "hist_inv (indexMask p) (unat (predictorSize p)) F c (lo_historyLength p) folded_level
       (lo_history p) (lo_history_sn p)"
    "length (prediction_table p) = unat (predictorSize p)"
    "list_all (\<lambda>t. length t = 4 ^ lo_historyLength p \<and> list_all folded_level t) (prediction_table p)"
    "wf_base p"
  using assms by (auto simp: local_inv_def)

lemma local_prepare_ok:
  assumes "local_inv p F c"
  shows "\<exists>p'. local_prepare p pc sn = Some p' \<and> local_inv p' ((pc, sn) # F) c"
proof -
  note inv = local_inv_index [OF assms, of pc] local_invD [OF assms]
  then have "mask_index (indexMask p) pc < length (lo_history p)"
    "mask_index (indexMask p) pc < length (lo_history_sn p)"
    by (simp_all add: hist_inv_iff)
  with inv hist_inv_push [OF inv(2), of Cache_L1 pc sn] show ?thesis
    by (simp add: local_prepare_def Let_def getLocalIndex_mask local_inv_def wf_base_def)
qed

text \<open>What \<^verbatim>\<open>predict\<close> and \<^verbatim>\<open>update\<close> find for a load in flight.\<close>

lemma local_find:
  assumes "local_inv p F c" "(pc, sn) \<in> set F"
  obtains k w where
    "find_sn (length (lo_history p ! mask_index (indexMask p) pc))
       (lo_history_sn p ! mask_index (indexMask p) pc) sn 0 = Some (k, True)"
    "k + lo_historyLength p < length (lo_history p ! mask_index (indexMask p) pc)"
    "table_index (lo_historyLength p) (k + 1) (lo_history p ! mask_index (indexMask p) pc) 0 = Some w"
    "w < 4 ^ lo_historyLength p"
    "w < length (prediction_table p ! mask_index (indexMask p) pc)"
    "folded_level (prediction_table p ! mask_index (indexMask p) pc ! w)"
proof -
  let ?i = "mask_index (indexMask p) pc"
  note inv = local_inv_index [OF assms(1), of pc] local_invD [OF assms(1)]
  note col = hist_invD [OF inv(2,1)]
  obtain k where k: "find_sn (length (lo_history_sn p ! ?i)) (lo_history_sn p ! ?i) sn 0 = Some (k, True)"
    "k + lo_historyLength p < length (lo_history_sn p ! ?i)"
    using column_ok_find [OF col(4) assms(2)] by blast
  obtain w where w: "table_index (lo_historyLength p) (k + 1) (lo_history p ! ?i) 0 = Some w"
    "w < 4 ^ lo_historyLength p"
    using table_index_bound [of "k + 1" "lo_historyLength p" "lo_history p ! ?i" 0] k(2) col(3,5) by auto
  have "length (prediction_table p ! ?i) = 4 ^ lo_historyLength p"
    "list_all folded_level (prediction_table p ! ?i)"
    using list_all_nth [OF inv(4), of ?i] inv(1,3) by auto
  with that k w col(3) show ?thesis by (simp add: list_all_nth)
qed

lemma local_predict_ok:
  assumes "local_inv p F c" "(pc, sn) \<in> set F"
  shows "\<exists>l p'. local_predict p pc sn = Some (l, Local, p') \<and> folded_level l \<and> local_inv p' F c"
proof -
  let ?i = "mask_index (indexMask p) pc"
  note inv = local_inv_index [OF assms(1), of pc] local_invD [OF assms(1)]
  note col = hist_invD [OF inv(2,1)]
  obtain k w where kw: "find_sn (length (lo_history p ! ?i)) (lo_history_sn p ! ?i) sn 0 = Some (k, True)"
    "k + lo_historyLength p < length (lo_history p ! ?i)"
    "table_index (lo_historyLength p) (k + 1) (lo_history p ! ?i) 0 = Some w"
    "w < length (prediction_table p ! ?i)" "folded_level (prediction_table p ! ?i ! w)"
    using local_find [OF assms] by metis
  then show ?thesis
    using inv col hist_inv_set [OF inv(2) kw(5), of ?i k]
    by (auto simp: local_predict_def Let_def getLocalIndex_mask local_inv_def wf_base_def)
qed

lemma local_update_ok:
  assumes "local_inv p F c" "(pc, sn) \<in> set F" "real_level l"
  shows "\<exists>p'. local_update p pc sn l = Some (1, p') \<and> local_inv p' F c"
proof -
  let ?i = "mask_index (indexMask p) pc" and ?l = "foldCacheLevelForTwoLevelSDO l"
  note inv = local_inv_index [OF assms(1), of pc] local_invD [OF assms(1)]
  note col = hist_invD [OF inv(2,1)]
  have fl: "folded_level ?l" using assms(3) by simp
  obtain k w where kw: "find_sn (length (lo_history p ! ?i)) (lo_history_sn p ! ?i) sn 0 = Some (k, True)"
    "k + lo_historyLength p < length (lo_history p ! ?i)"
    "table_index (lo_historyLength p) (k + 1) (lo_history p ! ?i) 0 = Some w"
    "w < length (prediction_table p ! ?i)"
    using local_find [OF assms(1,2)] by metis
  have "list_all (\<lambda>t. length t = 4 ^ lo_historyLength p \<and> list_all folded_level t)
     ((prediction_table p)[?i := (prediction_table p ! ?i)[w := ?l]])"
    using inv(1,3,4) fl by (intro list_all_update) (auto simp: list_all_length nth_upd_in)
  then show ?thesis
    using inv col kw hist_inv_set [OF inv(2) fl, of ?i k]
    by (auto simp: local_update_def Let_def getLocalIndex_mask local_inv_def wf_base_def)
qed

lemma local_commit_ok:
  assumes "local_inv p (F @ [(pc, sn)]) c" "c \<le> sn"
  shows "\<exists>p'. local_commit p pc u = Some p' \<and> local_inv p' F sn"
proof (cases "u = 0")
  case True
  then show ?thesis
    using local_invD [OF assms(1)] hist_inv_keep [OF _ assms(2)] by (auto simp: local_commit_def local_inv_def)
next
  case False
  note inv = local_inv_index [OF assms(1), of pc] local_invD [OF assms(1)]
  note col = hist_invD [OF inv(2,1)] and pop = hist_inv_pop [OF inv(2) assms(2) inv(1)]
  from False inv col pop show ?thesis
    by (simp add: local_commit_def Let_def getLocalIndex_mask local_inv_def wf_base_def pop_back_def)
qed

lemma local_squash_ok:
  assumes "local_inv p F c" "flight_ok F c" "c \<le> sq"
  shows "\<exists>p'. local_squash p sq = Some p' \<and> local_inv p' (squash_flight sq F) c"
  using local_invD [OF assms(1)] hist_inv_squash [OF _ assms(2,3)]
  by (fastforce simp: local_squash_def local_inv_def wf_base_def)

lemma mk_local_ok:
  assumes "pred_size \<noteq> 0" "pred_size \<le> 4294967296" "2 * n < 31"
  shows "\<exists>p. mk_local pred_size n = Some p \<and> local_inv p [] c"
  using assms
  by (auto simp: mk_local_def local_inv_def mk_base_def wf_base_def LocPred_BaseType.defs
      hist_inv_iff column_ok_iff column_def list_all_iff power_mult)

section \<open>The contract of the loop predictor\<close>

definition loop_inv :: "LocPred_loop \<Rightarrow> flight \<Rightarrow> InstSeqNum \<Rightarrow> bool" where
  "loop_inv p F c \<longleftrightarrow> wf_base p \<and>
     hist_inv (indexMask p) (unat (predictorSize p)) F c 0 (\<lambda>_. True)
       (direction_history p) (direction_history_sn p) \<and>
     length (loop_count_table p) = unat (predictorSize p) \<and>
     length (new_loop_count_table p) = unat (predictorSize p) \<and>
     length (pred_level_table p) = unat (predictorSize p) \<and>
     length (new_pred_level_table p) = unat (predictorSize p) \<and>
     list_all (\<lambda>n. 0 < n) (loop_count_table p) \<and> list_all folded_level (pred_level_table p)"

lemma loop_inv_index: "loop_inv p F c \<Longrightarrow> mask_index (indexMask p) pc < unat (predictorSize p)"
  using getLocalIndex_bound [of p pc] by (simp add: loop_inv_def getLocalIndex_mask)

lemma loop_invD:
  assumes "loop_inv p F c"
  shows "hist_inv (indexMask p) (unat (predictorSize p)) F c 0 (\<lambda>_. True)
       (direction_history p) (direction_history_sn p)"
    "length (loop_count_table p) = unat (predictorSize p)"
    "length (new_loop_count_table p) = unat (predictorSize p)"
    "length (pred_level_table p) = unat (predictorSize p)"
    "length (new_pred_level_table p) = unat (predictorSize p)"
    "list_all (\<lambda>n. 0 < n) (loop_count_table p)" "list_all folded_level (pred_level_table p)"
    "wf_base p"
  using assms by (auto simp: loop_inv_def)

lemma loop_len_bound:
  "idx + len + n \<le> length h \<Longrightarrow> \<exists>k. loop_len n h idx len = Some k \<and> len \<le> k \<and> k \<le> len + n"
proof (induction n h idx len rule: loop_len.induct)
  case (2 n h idx len)
  show ?case
  proof (cases "h ! (idx + len)")
    case False
    with 2 obtain k where "loop_len n h idx (Suc len) = Some k" "Suc len \<le> k" "k \<le> Suc len + n"
      by auto
    with False "2.prems" show ?thesis by auto
  qed (use "2.prems" in auto)
qed simp

lemma loop_find:
  assumes "loop_inv p F c" "(pc, sn) \<in> set F"
  obtains k n where
    "find_sn (length (direction_history p ! mask_index (indexMask p) pc))
       (direction_history_sn p ! mask_index (indexMask p) pc) sn 0 = Some (k, True)"
    "k < length (direction_history p ! mask_index (indexMask p) pc)"
    "loop_len (length (direction_history p ! mask_index (indexMask p) pc) - (k + 1))
       (direction_history p ! mask_index (indexMask p) pc) k 1 = Some n" "0 < n"
proof -
  let ?i = "mask_index (indexMask p) pc"
  note inv = loop_inv_index [OF assms(1), of pc] loop_invD [OF assms(1)]
  note col = hist_invD [OF inv(2,1)]
  obtain k where k: "find_sn (length (direction_history_sn p ! ?i)) (direction_history_sn p ! ?i) sn 0 = Some (k, True)"
    "k < length (direction_history_sn p ! ?i)"
    using column_ok_find [OF col(4) assms(2)] by (metis add.right_neutral)
  moreover have "k + 1 + (length (direction_history p ! ?i) - (k + 1)) \<le> length (direction_history p ! ?i)"
    using k(2) col(3) by simp
  from loop_len_bound [OF this] obtain n where
    "loop_len (length (direction_history p ! ?i) - (k + 1)) (direction_history p ! ?i) k 1 = Some n" "1 \<le> n"
    by blast
  ultimately show ?thesis using that col(3) by simp
qed

lemma loop_prepare_ok:
  assumes "loop_inv p F c"
  shows "\<exists>p'. loop_prepare p pc sn = Some p' \<and> loop_inv p' ((pc, sn) # F) c"
proof -
  note inv = loop_inv_index [OF assms, of pc] loop_invD [OF assms]
  then have "mask_index (indexMask p) pc < length (direction_history p)"
    "mask_index (indexMask p) pc < length (direction_history_sn p)"
    by (simp_all add: hist_inv_iff)
  with inv hist_inv_push [OF inv(2) TrueI, where v = "level_bool Cache_L1" and pc = pc and sn = sn] show ?thesis
    by (simp add: loop_prepare_def Let_def getLocalIndex_mask loop_inv_def wf_base_def)
qed

lemma loop_predict_ok:
  assumes "loop_inv p F c" "(pc, sn) \<in> set F"
  shows "\<exists>l p'. loop_predict p pc sn = Some (l, Loop, p') \<and> folded_level l \<and> loop_inv p' F c"
proof -
  let ?i = "mask_index (indexMask p) pc"
  note inv = loop_inv_index [OF assms(1), of pc] loop_invD [OF assms(1)]
  note col = hist_invD [OF inv(2,1)]
  obtain k n where kn: "find_sn (length (direction_history p ! ?i)) (direction_history_sn p ! ?i) sn 0 = Some (k, True)"
    "k < length (direction_history p ! ?i)"
    "loop_len (length (direction_history p ! ?i) - (k + 1)) (direction_history p ! ?i) k 1 = Some n"
    using loop_find [OF assms] by metis
  have tab: "loop_count_table p ! ?i \<noteq> 0" "folded_level (pred_level_table p ! ?i)"
    using inv by (auto simp: list_all_length)
  define l where "l = (if n mod loop_count_table p ! ?i = 0 then pred_level_table p ! ?i else Cache_L1)"
  have "folded_level l" using tab by (simp add: l_def)
  moreover have "loop_predict p pc sn =
      Some (l, Loop, p\<lparr>direction_history := (direction_history p)
        [?i := (direction_history p ! ?i)[k := level_bool l]]\<rparr>)"
    using inv col kn tab by (auto simp: loop_predict_def Let_def getLocalIndex_mask l_def)
  ultimately show ?thesis
    using inv hist_inv_set [OF inv(2) TrueI, where v = "level_bool l" and i = ?i and k = k] by (auto simp: loop_inv_def wf_base_def)
qed

lemma confirm_fst: "fst (confirm v cn) \<in> {fst cn, v}"
  by (auto simp: confirm_def)

lemma loop_update_ok:
  assumes "loop_inv p F c" "(pc, sn) \<in> set F" "real_level l"
  shows "\<exists>u p'. loop_update p pc sn l = Some (u, p') \<and> u \<in> {0, 1} \<and> loop_inv p' F c"
proof -
  let ?i = "mask_index (indexMask p) pc" and ?l = "foldCacheLevelForTwoLevelSDO l"
  note inv = loop_inv_index [OF assms(1), of pc] loop_invD [OF assms(1)]
  note col = hist_invD [OF inv(2,1)]
  obtain k n where kn: "find_sn (length (direction_history p ! ?i)) (direction_history_sn p ! ?i) sn 0 = Some (k, True)"
    "k < length (direction_history p ! ?i)"
    "loop_len (length (direction_history p ! ?i) - (k + 1)) (direction_history p ! ?i) k 1 = Some n" "0 < n"
    using loop_find [OF assms(1,2)] by metis
  have "0 < fst (confirm n (loop_count_table p ! ?i, nc))"
    "folded_level (fst (confirm ?l (pred_level_table p ! ?i, nl)))" for nc nl
    using inv(1,3,5,7,8) kn(4) assms(3) confirm_fst [of n "(loop_count_table p ! ?i, nc)"]
      confirm_fst [of ?l "(pred_level_table p ! ?i, nl)"]
    by (auto simp: list_all_length)
  then show ?thesis
    using inv col kn hist_inv_set [OF inv(2) TrueI, where i = ?i and k = k]
    by (auto simp: loop_update_def Let_def getLocalIndex_mask loop_inv_def wf_base_def intro!: list_all_update)
qed

lemma loop_commit_ok:
  assumes "loop_inv p (F @ [(pc, sn)]) c" "c < sn"
  shows "\<exists>p'. loop_commit p pc sn u = Some p' \<and> loop_inv p' F sn"
proof (cases "u = 0")
  case True
  then show ?thesis
    using loop_invD [OF assms(1)] hist_inv_keep [OF _ less_imp_le [OF assms(2)]]
    by (auto simp: loop_commit_def loop_inv_def)
next
  case False
  note inv = loop_inv_index [OF assms(1), of pc] loop_invD [OF assms(1)]
  note col = hist_invD [OF inv(2,1)] and trim = hist_inv_trim [OF inv(2) assms(2) inv(1)]
  from False inv col trim show ?thesis
    by (auto simp: loop_commit_def Let_def getLocalIndex_mask loop_inv_def wf_base_def)
qed

lemma loop_squash_ok:
  assumes "loop_inv p F c" "flight_ok F c" "c \<le> sq"
  shows "\<exists>p'. loop_squash p sq = Some p' \<and> loop_inv p' (squash_flight sq F) c"
  using loop_invD [OF assms(1)] hist_inv_squash [OF _ assms(2,3)]
  by (fastforce simp: loop_squash_def loop_inv_def wf_base_def)

lemma mk_loop_ok:
  "pred_size \<noteq> 0 \<Longrightarrow> pred_size \<le> 4294967296 \<Longrightarrow> loop_inv (mk_loop pred_size) [] c"
  by (auto simp: mk_loop_def loop_inv_def mk_base_def wf_base_def LocPred_BaseType.defs
      hist_inv_iff column_ok_iff column_def list_all_iff)

section \<open>What the two predictors learn\<close>

text \<open>The window of levels that selects the prediction of a load.\<close>

definition local_window :: "LocPred_local \<Rightarrow> Addr \<Rightarrow> InstSeqNum \<Rightarrow> nat option" where
  "local_window p load_PC load_sn = do {
     h \<leftarrow> vec_get (lo_history p) (getLocalIndex p load_PC);
     s \<leftarrow> vec_get (lo_history_sn p) (getLocalIndex p load_PC);
     (k, valid) \<leftarrow> find_sn (length h) s load_sn 0;
     assertion valid;
     table_index (lo_historyLength p) (k + 1) h 0
   }"



end
