(* ===== verification/LocPred.thy ===== *)
theory LocPred
  imports LocPred_Simple LocPred_History
begin

text \<open>
  The class hierarchy of the location predictors as a whole: a pointer to a
  \<^verbatim>\<open>LocPred_BaseType\<close> is a value of the recursive type \<open>loc_pred\<close>, the virtual
  methods dispatch on its constructor, and the two tournament predictors call the
  methods of their components through it. The interface the load/store queue
  relies on is the locale \<open>location_predictor\<close>, interpreted on these definitions.
\<close>

section \<open>Objects\<close>

record LocPred_tournament_2Way = LocPred_BaseType +
  t2_pred1_conf :: "int list"
  t2_pred2_conf :: "int list"
  t2_conf_max :: int

record LocPred_tournament_3Way = LocPred_BaseType +
  t3_pred1_conf :: "int list"
  t3_pred2_conf :: "int list"
  t3_pred3_conf :: "int list"
  t3_conf_max :: int

text \<open>\<open>P_wild\<close> is the value of a pointer member that no constructor initialises.\<close>

datatype loc_pred =
    P_random LocPred_BaseType
  | P_perfect LocPred_perfect
  | P_static LocPred_static
  | P_greedy LocPred_greedy
  | P_hysteresis LocPred_hysteresis
  | P_local LocPred_local
  | P_loop LocPred_loop
  | P_tournament_2Way LocPred_tournament_2Way loc_pred loc_pred
  | P_tournament_3Way LocPred_tournament_3Way loc_pred loc_pred loc_pred
  | P_wild

fun obj_pred_type :: "loc_pred \<Rightarrow> LocPred_t option" where
  "obj_pred_type (P_random b) = Some (getPredType b)"
| "obj_pred_type (P_perfect p) = Some (getPredType p)"
| "obj_pred_type (P_static p) = Some (getPredType p)"
| "obj_pred_type (P_greedy p) = Some (getPredType p)"
| "obj_pred_type (P_hysteresis p) = Some (getPredType p)"
| "obj_pred_type (P_local p) = Some (getPredType p)"
| "obj_pred_type (P_loop p) = Some (getPredType p)"
| "obj_pred_type (P_tournament_2Way t p1 p2) = Some (getPredType t)"
| "obj_pred_type (P_tournament_3Way t p1 p2 p3) = Some (getPredType t)"
| "obj_pred_type P_wild = None"

section \<open>Construction\<close>

text \<open>
  \<^verbatim>\<open>1 << (conf_bit-1)\<close> and \<^verbatim>\<open>1 << conf_bit\<close> are shifts of an \<^verbatim>\<open>int\<close>. The
  constructors of the two-way tournament that take no component types assert false.
\<close>

definition mk_tournament_2Way_base :: "64 word \<Rightarrow> nat \<Rightarrow> LocPred_tournament_2Way option" where
  "mk_tournament_2Way_base pred_size conf_bit = do {
     assertion (0 < conf_bit \<and> conf_bit < 31);
     Some (LocPred_BaseType.extend (mk_base Tournament_2Way pred_size)
       \<lparr>t2_pred1_conf = replicate (unat pred_size) (2 ^ (conf_bit - 1)),
        t2_pred2_conf = replicate (unat pred_size) (2 ^ (conf_bit - 1)),
        t2_conf_max = 2 ^ conf_bit\<rparr>)
   }"

definition mk_tournament_2Way_untyped :: "64 word \<Rightarrow> nat \<Rightarrow> loc_pred option" where
  "mk_tournament_2Way_untyped pred_size conf_bit = do {
     t \<leftarrow> mk_tournament_2Way_base pred_size conf_bit;
     assertion False;
     Some (P_tournament_2Way t P_wild P_wild)
   }"

definition mk_tournament_3Way_base :: "64 word \<Rightarrow> nat \<Rightarrow> LocPred_tournament_3Way option" where
  "mk_tournament_3Way_base pred_size conf_bit = do {
     assertion (0 < conf_bit \<and> conf_bit < 31);
     Some (LocPred_BaseType.extend (mk_base Tournament_3Way pred_size)
       \<lparr>t3_pred1_conf = replicate (unat pred_size) (2 ^ (conf_bit - 1)),
        t3_pred2_conf = replicate (unat pred_size) (2 ^ (conf_bit - 1)),
        t3_pred3_conf = replicate (unat pred_size) (2 ^ (conf_bit - 1)),
        t3_conf_max = 2 ^ conf_bit\<rparr>)
   }"

definition mk_tournament_3Way_untyped :: "64 word \<Rightarrow> nat \<Rightarrow> loc_pred option" where
  "mk_tournament_3Way_untyped pred_size conf_bit = do {
     t \<leftarrow> mk_tournament_3Way_base pred_size conf_bit;
     Some (P_tournament_3Way t P_wild P_wild P_wild)
   }"

fun pred_type_to_pred :: "LocPred_t \<Rightarrow> loc_pred option" where
  "pred_type_to_pred Static = Some (P_static mk_static_default)"
| "pred_type_to_pred Greedy = Some (P_greedy (mk_greedy default_pred_size default_history_length))"
| "pred_type_to_pred Hysteresis = Some (P_hysteresis (mk_hysteresis default_pred_size))"
| "pred_type_to_pred Local = map_option P_local (mk_local default_pred_size default_history_length)"
| "pred_type_to_pred Loop = Some (P_loop (mk_loop default_pred_size))"
| "pred_type_to_pred Tournament_2Way = mk_tournament_2Way_untyped default_pred_size default_conf_length"
| "pred_type_to_pred Tournament_3Way = mk_tournament_3Way_untyped default_pred_size default_conf_length"
| "pred_type_to_pred Random = Some (P_random (mk_base Random default_pred_size))"
| "pred_type_to_pred Perfect = Some (P_perfect (mk_perfect False))"
| "pred_type_to_pred NonePred = None" \<comment> \<open>\<^verbatim>\<open>assert(0)\<close>\<close>

definition mk_tournament_2Way :: "LocPred_t \<Rightarrow> LocPred_t \<Rightarrow> 64 word \<Rightarrow> nat \<Rightarrow> loc_pred option" where
  "mk_tournament_2Way pred1_type pred2_type pred_size conf_bit = do {
     t \<leftarrow> mk_tournament_2Way_base pred_size conf_bit;
     p1 \<leftarrow> pred_type_to_pred pred1_type;
     p2 \<leftarrow> pred_type_to_pred pred2_type;
     Some (P_tournament_2Way t p1 p2)
   }"

definition mk_tournament_3Way :: "LocPred_t \<Rightarrow> LocPred_t \<Rightarrow> LocPred_t \<Rightarrow> 64 word \<Rightarrow> nat \<Rightarrow> loc_pred option" where
  "mk_tournament_3Way pred1_type pred2_type pred3_type pred_size conf_bit = do {
     t \<leftarrow> mk_tournament_3Way_base pred_size conf_bit;
     p1 \<leftarrow> pred_type_to_pred pred1_type;
     p2 \<leftarrow> pred_type_to_pred pred2_type;
     p3 \<leftarrow> pred_type_to_pred pred3_type;
     Some (P_tournament_3Way t p1 p2 p3)
   }"

text \<open>
  The part of the constructor of \<^verbatim>\<open>FullO3CPU\<close> that chooses the predictor from the
  parameters \<^verbatim>\<open>pred_type\<close>, \<^verbatim>\<open>pred_option\<close> and the component types; \<^verbatim>\<open>exit(1)\<close> and
  \<^verbatim>\<open>assert(0)\<close> are traps. Its result is the predictor, the recorded type and the
  two flags that delay loads predicted at the lower levels (\<open>None\<close> where the code
  leaves them alone).
\<close>

definition delay_flags :: "int \<Rightarrow> (bool \<times> bool) option" where
  "delay_flags pred_opt =
     (let delay_on_DRAM_pred = (pred_opt = 1 \<or> pred_opt = 2);
          delay_on_LLC_pred = (pred_opt = 2)
      in Some (delay_on_DRAM_pred, delay_on_LLC_pred))"

definition configure_predictor ::
  "string \<Rightarrow> int \<Rightarrow> string \<Rightarrow> string \<Rightarrow> string \<Rightarrow>
   (loc_pred \<times> LocPred_t \<times> (bool \<times> bool) option) option" where
  "configure_predictor pred_type_name pred_opt sub1 sub2 sub3 =
     (if pred_type_name = ''static'' then do {
        static_level \<leftarrow> (if pred_opt = 0 then Some Cache_L1
                        else if pred_opt = 1 then Some Cache_L2
                        else if pred_opt = 2 then Some Cache_L2
                        else if pred_opt = 3 then Some DRAM
                        else None);
        Some (P_static (mk_static static_level), Static, None)
      }
      else if pred_type_name = ''perfect'' then
        Some (P_perfect (mk_perfect (pred_opt = 0)), Perfect, None)
      else if pred_type_name = ''random'' then
        Some (P_random (mk_base Random default_pred_size), Random, delay_flags pred_opt)
      else if pred_type_name = ''greedy'' then
        Some (P_greedy (mk_greedy 8192 default_history_length), Greedy, delay_flags pred_opt)
      else if pred_type_name = ''hysteresis'' then
        Some (P_hysteresis (mk_hysteresis 8192), Hysteresis, delay_flags pred_opt)
      else if pred_type_name = ''local'' then do {
        p \<leftarrow> mk_local 8192 default_history_length;
        Some (P_local p, Local, delay_flags pred_opt)
      }
      else if pred_type_name = ''loop'' then
        Some (P_loop (mk_loop 8192), Loop, delay_flags pred_opt)
      else if pred_type_name = ''tournament_2way'' then do {
        p \<leftarrow> mk_tournament_2Way (string_to_pred_type sub1) (string_to_pred_type sub2) 4096 default_conf_length;
        Some (p, Tournament_2Way, delay_flags pred_opt)
      }
      else if pred_type_name = ''tournament_3way'' then do {
        p \<leftarrow> mk_tournament_3Way (string_to_pred_type sub1) (string_to_pred_type sub2)
               (string_to_pred_type sub3) 4096 default_conf_length;
        Some (p, Tournament_3Way, delay_flags pred_opt)
      }
      else None)"

section \<open>The virtual methods\<close>

fun prepare :: "loc_pred \<Rightarrow> Addr \<Rightarrow> InstSeqNum \<Rightarrow> loc_pred option" where
  "prepare (P_random b) pc sn = Some (P_random b)"
| "prepare (P_perfect p) pc sn = Some (P_perfect p)"
| "prepare (P_static p) pc sn = Some (P_static p)"
| "prepare (P_greedy p) pc sn = Some (P_greedy p)"
| "prepare (P_hysteresis p) pc sn = Some (P_hysteresis p)"
| "prepare (P_local p) pc sn = map_option P_local (local_prepare p pc sn)"
| "prepare (P_loop p) pc sn = map_option P_loop (loop_prepare p pc sn)"
| "prepare (P_tournament_2Way t p1 p2) pc sn = do {
     p1' \<leftarrow> prepare p1 pc sn;
     p2' \<leftarrow> prepare p2 pc sn;
     Some (P_tournament_2Way t p1' p2')
   }"
| "prepare (P_tournament_3Way t p1 p2 p3) pc sn = do {
     p1' \<leftarrow> prepare p1 pc sn;
     p2' \<leftarrow> prepare p2 pc sn;
     p3' \<leftarrow> prepare p3 pc sn;
     Some (P_tournament_3Way t p1' p2' p3')
   }"
| "prepare P_wild pc sn = None"

text \<open>
  \<^verbatim>\<open>rand()\<close> is the parameter \<open>rnd\<close>: from a generator state it yields the drawn
  value and the next state. \<open>predict\<close> returns the level, the value of the output
  argument \<^verbatim>\<open>chosen_pred\<close>, the object and the generator state.
\<close>

fun predict ::
  "('g \<Rightarrow> nat \<times> 'g) \<Rightarrow> 'g \<Rightarrow> loc_pred \<Rightarrow> Addr \<Rightarrow> InstSeqNum \<Rightarrow>
   (CacheLevel_t \<times> LocPred_t \<times> loc_pred \<times> 'g) option" where
  "predict rnd g (P_random b) pc sn =
     (let (r, g') = rnd g; (l, c) = random_predict r in Some (l, c, P_random b, g'))"
| "predict rnd g (P_perfect p) pc sn =
     (let (l, c) = perfect_predict p in Some (l, c, P_perfect p, g))"
| "predict rnd g (P_static p) pc sn =
     (let (l, c) = static_predict p in Some (l, c, P_static p, g))"
| "predict rnd g (P_greedy p) pc sn = do {
     (l, c) \<leftarrow> greedy_predict p pc; Some (l, c, P_greedy p, g) }"
| "predict rnd g (P_hysteresis p) pc sn = do {
     (l, c) \<leftarrow> hysteresis_predict p pc; Some (l, c, P_hysteresis p, g) }"
| "predict rnd g (P_local p) pc sn = do {
     (l, c, p') \<leftarrow> local_predict p pc sn; Some (l, c, P_local p', g) }"
| "predict rnd g (P_loop p) pc sn = do {
     (l, c, p') \<leftarrow> loop_predict p pc sn; Some (l, c, P_loop p', g) }"
| "predict rnd g (P_tournament_2Way t p1 p2) pc sn = do {
     (l1, _, p1', g1) \<leftarrow> predict rnd g p1 pc sn;
     let pred1_prediction = foldCacheLevelForTwoLevelSDO l1;
     (l2, _, p2', g2) \<leftarrow> predict rnd g1 p2 pc sn;
     let pred2_prediction = foldCacheLevelForTwoLevelSDO l2;
     let pred_entry_idx = getLocalIndex t pc;
     conf1 \<leftarrow> vec_get (t2_pred1_conf t) pred_entry_idx;
     conf2 \<leftarrow> vec_get (t2_pred2_conf t) pred_entry_idx;
     if conf1 \<ge> conf2 then do {
       chosen_pred \<leftarrow> obj_pred_type p1';
       Some (foldCacheLevelForTwoLevelSDO pred1_prediction, chosen_pred, P_tournament_2Way t p1' p2', g2)
     } else do {
       chosen_pred \<leftarrow> obj_pred_type p2';
       Some (foldCacheLevelForTwoLevelSDO pred2_prediction, chosen_pred, P_tournament_2Way t p1' p2', g2)
     }
   }"
| "predict rnd g (P_tournament_3Way t p1 p2 p3) pc sn = do {
     (l1, _, p1', g1) \<leftarrow> predict rnd g p1 pc sn;
     let pred1_prediction = foldCacheLevelForTwoLevelSDO l1;
     (l2, _, p2', g2) \<leftarrow> predict rnd g1 p2 pc sn;
     let pred2_prediction = foldCacheLevelForTwoLevelSDO l2;
     (l3, _, p3', g3) \<leftarrow> predict rnd g2 p3 pc sn;
     let pred3_prediction = foldCacheLevelForTwoLevelSDO l3;
     let pred_entry_idx = getLocalIndex t pc;
     conf1 \<leftarrow> vec_get (t3_pred1_conf t) pred_entry_idx;
     conf2 \<leftarrow> vec_get (t3_pred2_conf t) pred_entry_idx;
     conf3 \<leftarrow> vec_get (t3_pred3_conf t) pred_entry_idx;
     if conf1 \<ge> conf2 \<and> conf1 \<ge> conf3 then do {
       chosen_pred \<leftarrow> obj_pred_type p1';
       Some (foldCacheLevelForTwoLevelSDO pred1_prediction, chosen_pred, P_tournament_3Way t p1' p2' p3', g3)
     } else if conf2 \<ge> conf1 \<and> conf2 \<ge> conf3 then do {
       chosen_pred \<leftarrow> obj_pred_type p2';
       Some (foldCacheLevelForTwoLevelSDO pred2_prediction, chosen_pred, P_tournament_3Way t p1' p2' p3', g3)
     } else do {
       chosen_pred \<leftarrow> obj_pred_type p3';
       Some (foldCacheLevelForTwoLevelSDO pred3_prediction, chosen_pred, P_tournament_3Way t p1' p2' p3', g3)
     }
   }"
| "predict rnd g P_wild pc sn = None"

text \<open>The saturating confidence counters.\<close>

definition conf_step :: "bool \<Rightarrow> int \<Rightarrow> int \<Rightarrow> int" where
  "conf_step hit conf_max v =
     (if hit then if v < conf_max then v + 1 else v else if v > 0 then v - 1 else v)"

text \<open>
  The components are updated after they have predicted; a prediction keeps the
  shape of the object, so the recursion is well-founded.
\<close>

fun depth :: "loc_pred \<Rightarrow> nat" where
  "depth (P_tournament_2Way t p1 p2) = Suc (depth p1 + depth p2)"
| "depth (P_tournament_3Way t p1 p2 p3) = Suc (depth p1 + depth p2 + depth p3)"
| "depth _ = 0"

lemma predict_depth: "predict rnd g p pc sn = Some (l, c, p', g') \<Longrightarrow> depth p' = depth p"
proof (induction rnd g p pc sn arbitrary: l c p' g' rule: predict.induct)
  case (8 rnd g t p1 p2 pc sn)
  then show ?case by (fastforce simp: Let_def bind_eq_Some_conv split: if_splits)
next
  case (9 rnd g t p1 p2 p3 pc sn)
  from "9.prems" obtain p1' p2' p3' g1 g2 g3 l1 c1 l2 c2 l3 c3 where
    "predict rnd g p1 pc sn = Some (l1, c1, p1', g1)"
    "predict rnd g1 p2 pc sn = Some (l2, c2, p2', g2)"
    "predict rnd g2 p3 pc sn = Some (l3, c3, p3', g3)"
    "p' = P_tournament_3Way t p1' p2' p3'"
    by (auto simp: Let_def bind_eq_Some_conv split: if_splits)
  with "9.IH" show ?case by simp
qed (auto simp: Let_def bind_eq_Some_conv split: prod.splits)

function update ::
  "('g \<Rightarrow> nat \<times> 'g) \<Rightarrow> 'g \<Rightarrow> loc_pred \<Rightarrow> Addr \<Rightarrow> InstSeqNum \<Rightarrow> CacheLevel_t \<Rightarrow>
   (int \<times> loc_pred \<times> 'g) option" where
  "update rnd g (P_random b) pc sn l = Some (0, P_random b, g)"
| "update rnd g (P_perfect p) pc sn l = Some (0, P_perfect p, g)"
| "update rnd g (P_static p) pc sn l = Some (0, P_static p, g)"
| "update rnd g (P_greedy p) pc sn l = do {
     (u, p') \<leftarrow> greedy_update p pc l; Some (u, P_greedy p', g) }"
| "update rnd g (P_hysteresis p) pc sn l = do {
     (u, p') \<leftarrow> hysteresis_update p pc l; Some (u, P_hysteresis p', g) }"
| "update rnd g (P_local p) pc sn l = do {
     (u, p') \<leftarrow> local_update p pc sn l; Some (u, P_local p', g) }"
| "update rnd g (P_loop p) pc sn l = do {
     (u, p') \<leftarrow> loop_update p pc sn l; Some (u, P_loop p', g) }"
| "update rnd g (P_tournament_2Way t p1 p2) pc sn l = do {
     let actual_level = foldCacheLevelForTwoLevelSDO l;
     (l1, _, p1', g1) \<leftarrow> predict rnd g p1 pc sn;
     let pred1_prediction = foldCacheLevelForTwoLevelSDO l1;
     (l2, _, p2', g2) \<leftarrow> predict rnd g1 p2 pc sn;
     let pred2_prediction = foldCacheLevelForTwoLevelSDO l2;
     (u1, p1'', g3) \<leftarrow> update rnd g2 p1' pc sn actual_level;
     (u2, p2'', g4) \<leftarrow> update rnd g3 p2' pc sn actual_level;
     let pred_entry_idx = getLocalIndex t pc;
     c1 \<leftarrow> vec_get (t2_pred1_conf t) pred_entry_idx;
     C1 \<leftarrow> vec_set (t2_pred1_conf t) pred_entry_idx
             (conf_step (pred1_prediction = actual_level) (t2_conf_max t) c1);
     c2 \<leftarrow> vec_get (t2_pred2_conf t) pred_entry_idx;
     C2 \<leftarrow> vec_set (t2_pred2_conf t) pred_entry_idx
             (conf_step (pred2_prediction = actual_level) (t2_conf_max t) c2);
     Some (push_bit 1 u2 + u1, P_tournament_2Way (t\<lparr>t2_pred1_conf := C1, t2_pred2_conf := C2\<rparr>) p1'' p2'', g4)
   }"
| "update rnd g (P_tournament_3Way t p1 p2 p3) pc sn l = do {
     let actual_level = foldCacheLevelForTwoLevelSDO l;
     (l1, _, p1', g1) \<leftarrow> predict rnd g p1 pc sn;
     let pred1_prediction = foldCacheLevelForTwoLevelSDO l1;
     (l2, _, p2', g2) \<leftarrow> predict rnd g1 p2 pc sn;
     let pred2_prediction = foldCacheLevelForTwoLevelSDO l2;
     (l3, _, p3', g3) \<leftarrow> predict rnd g2 p3 pc sn;
     let pred3_prediction = foldCacheLevelForTwoLevelSDO l3;
     (u1, p1'', g4) \<leftarrow> update rnd g3 p1' pc sn actual_level;
     (u2, p2'', g5) \<leftarrow> update rnd g4 p2' pc sn actual_level;
     (u3, p3'', g6) \<leftarrow> update rnd g5 p3' pc sn actual_level;
     let pred_entry_idx = getLocalIndex t pc;
     c1 \<leftarrow> vec_get (t3_pred1_conf t) pred_entry_idx;
     C1 \<leftarrow> vec_set (t3_pred1_conf t) pred_entry_idx
             (conf_step (pred1_prediction = actual_level) (t3_conf_max t) c1);
     c2 \<leftarrow> vec_get (t3_pred2_conf t) pred_entry_idx;
     C2 \<leftarrow> vec_set (t3_pred2_conf t) pred_entry_idx
             (conf_step (pred2_prediction = actual_level) (t3_conf_max t) c2);
     c3 \<leftarrow> vec_get (t3_pred3_conf t) pred_entry_idx;
     C3 \<leftarrow> vec_set (t3_pred3_conf t) pred_entry_idx
             (conf_step (pred3_prediction = actual_level) (t3_conf_max t) c3);
     Some (push_bit 2 u3 + push_bit 1 u2 + u1,
       P_tournament_3Way (t\<lparr>t3_pred1_conf := C1, t3_pred2_conf := C2, t3_pred3_conf := C3\<rparr>) p1'' p2'' p3'', g6)
   }"
| "update rnd g P_wild pc sn l = None"
  by pat_completeness auto
termination
  by (relation "measure (\<lambda>(rnd, g, p, pc, sn, l). depth p)") (auto dest: predict_depth)

fun commit :: "loc_pred \<Rightarrow> Addr \<Rightarrow> InstSeqNum \<Rightarrow> int \<Rightarrow> loc_pred option" where
  "commit (P_local p) pc sn u = map_option P_local (local_commit p pc u)"
| "commit (P_loop p) pc sn u = map_option P_loop (loop_commit p pc sn u)"
| "commit (P_tournament_2Way t p1 p2) pc sn u = do {
     let pred1_update_on_commit = u AND 1;
     let pred2_update_on_commit = drop_bit 1 u AND 1;
     p1' \<leftarrow> commit p1 pc sn pred1_update_on_commit;
     p2' \<leftarrow> commit p2 pc sn pred2_update_on_commit;
     Some (P_tournament_2Way t p1' p2')
   }"
| "commit (P_tournament_3Way t p1 p2 p3) pc sn u = do {
     let pred1_update_on_commit = u AND 1;
     let pred2_update_on_commit = drop_bit 1 u AND 1;
     let pred3_update_on_commit = drop_bit 2 u AND 1;
     p1' \<leftarrow> commit p1 pc sn pred1_update_on_commit;
     p2' \<leftarrow> commit p2 pc sn pred2_update_on_commit;
     p3' \<leftarrow> commit p3 pc sn pred3_update_on_commit;
     Some (P_tournament_3Way t p1' p2' p3')
   }"
| "commit P_wild pc sn u = None"
| "commit p pc sn u = Some p"

fun squash :: "loc_pred \<Rightarrow> InstSeqNum \<Rightarrow> loc_pred option" where
  "squash (P_local p) sq = map_option P_local (local_squash p sq)"
| "squash (P_loop p) sq = map_option P_loop (loop_squash p sq)"
| "squash (P_tournament_2Way t p1 p2) sq = do {
     p1' \<leftarrow> squash p1 sq;
     p2' \<leftarrow> squash p2 sq;
     Some (P_tournament_2Way t p1' p2')
   }"
| "squash (P_tournament_3Way t p1 p2 p3) sq = do {
     p1' \<leftarrow> squash p1 sq;
     p2' \<leftarrow> squash p2 sq;
     p3' \<leftarrow> squash p3 sq;
     Some (P_tournament_3Way t p1' p2' p3')
   }"
| "squash P_wild sq = None"
| "squash p sq = Some p"

section \<open>The invariant\<close>

definition conf_ok :: "nat \<Rightarrow> int \<Rightarrow> int list \<Rightarrow> bool" where
  "conf_ok N mx cs \<longleftrightarrow> length cs = N \<and> list_all (\<lambda>c. 0 \<le> c \<and> c \<le> mx) cs"

definition wf_t2 :: "LocPred_tournament_2Way \<Rightarrow> bool" where
  "wf_t2 t \<longleftrightarrow> wf_base t \<and>
     conf_ok (unat (predictorSize t)) (t2_conf_max t) (t2_pred1_conf t) \<and>
     conf_ok (unat (predictorSize t)) (t2_conf_max t) (t2_pred2_conf t)"

definition wf_t3 :: "LocPred_tournament_3Way \<Rightarrow> bool" where
  "wf_t3 t \<longleftrightarrow> wf_base t \<and>
     conf_ok (unat (predictorSize t)) (t3_conf_max t) (t3_pred1_conf t) \<and>
     conf_ok (unat (predictorSize t)) (t3_conf_max t) (t3_pred2_conf t) \<and>
     conf_ok (unat (predictorSize t)) (t3_conf_max t) (t3_pred3_conf t)"

fun loc_inv :: "loc_pred \<Rightarrow> flight \<Rightarrow> InstSeqNum \<Rightarrow> bool" where
  "loc_inv (P_random b) F c \<longleftrightarrow> True"
| "loc_inv (P_perfect p) F c \<longleftrightarrow> True"
| "loc_inv (P_static p) F c \<longleftrightarrow> folded_level (prediction p)"
| "loc_inv (P_greedy p) F c \<longleftrightarrow> wf_greedy p"
| "loc_inv (P_hysteresis p) F c \<longleftrightarrow> wf_hysteresis p"
| "loc_inv (P_local p) F c \<longleftrightarrow> local_inv p F c"
| "loc_inv (P_loop p) F c \<longleftrightarrow> loop_inv p F c"
| "loc_inv (P_tournament_2Way t p1 p2) F c \<longleftrightarrow> wf_t2 t \<and> loc_inv p1 F c \<and> loc_inv p2 F c"
| "loc_inv (P_tournament_3Way t p1 p2 p3) F c \<longleftrightarrow>
     wf_t3 t \<and> loc_inv p1 F c \<and> loc_inv p2 F c \<and> loc_inv p3 F c"
| "loc_inv P_wild F c \<longleftrightarrow> False"

lemma loc_inv_type: "loc_inv p F c \<Longrightarrow> \<exists>t. obj_pred_type p = Some t"
  by (cases p) auto

lemma random_predict_level: "folded_level (fst (random_predict r))"
  by (simp add: random_predict_def Let_def foldCacheLevelForTwoLevelSDO_def)

lemma conf_ok_step: "conf_ok N mx cs \<Longrightarrow> i < N \<Longrightarrow> conf_ok N mx (cs[i := conf_step b mx (cs ! i)])"
  by (auto simp: conf_ok_def conf_step_def list_all_length nth_upd_in)

lemma wf_t2_index: "wf_t2 t \<Longrightarrow> getLocalIndex t pc < unat (predictorSize t)"
  and wf_t3_index: "wf_t3 t' \<Longrightarrow> getLocalIndex t' pc < unat (predictorSize t')"
  by (simp_all add: wf_t2_def wf_t3_def getLocalIndex_bound)

lemma prepare_ok:
  "loc_inv p F c \<Longrightarrow> \<exists>p'. prepare p pc sn = Some p' \<and> loc_inv p' ((pc, sn) # F) c"
proof (induction p pc sn rule: prepare.induct)
  case (6 p pc sn)
  then show ?case using local_prepare_ok by fastforce
next
  case (7 p pc sn)
  then show ?case using loop_prepare_ok by fastforce
qed fastforce+

lemma predict_ok:
  assumes "loc_inv p F c" "(pc, sn) \<in> set F"
  shows "\<exists>l ct p' g'. predict rnd g p pc sn = Some (l, ct, p', g') \<and> issuable_level l \<and> loc_inv p' F c"
  using assms(1)
proof (induction p arbitrary: g)
  case (P_random b)
  then show ?case
    using folded_issuable [OF random_predict_level]
    by (auto simp: Let_def split: prod.splits) (metis fst_conv)
next
  case (P_perfect p)
  then show ?case by (auto simp: perfect_predict_def issuable_level_def)
next
  case (P_static p)
  then show ?case by (auto simp: static_predict_def intro: folded_issuable)
next
  case (P_greedy p)
  then show ?case using greedy_predict_wf [of p pc] by (auto intro: folded_issuable)
next
  case (P_hysteresis p)
  then show ?case using hysteresis_predict_wf [of p pc] by (auto intro: folded_issuable)
next
  case (P_local p)
  then show ?case using local_predict_ok [OF _ assms(2), of p c] by (auto intro: folded_issuable)
next
  case (P_loop p)
  then show ?case using loop_predict_ok [OF _ assms(2), of p c] by (auto intro: folded_issuable)
next
  case (P_tournament_2Way t p1 p2)
  obtain l1 c1 p1' g1 where 1: "predict rnd g p1 pc sn = Some (l1, c1, p1', g1)"
    "issuable_level l1" "loc_inv p1' F c" using P_tournament_2Way by fastforce
  obtain l2 c2 p2' g2 where 2: "predict rnd g1 p2 pc sn = Some (l2, c2, p2', g2)"
    "issuable_level l2" "loc_inv p2' F c" using P_tournament_2Way by fastforce
  show ?case
    using 1 2 P_tournament_2Way.prems wf_t2_index [of t pc] loc_inv_type [OF 1(3)] loc_inv_type [OF 2(3)]
    by (auto simp: Let_def wf_t2_def conf_ok_def)
next
  case (P_tournament_3Way t p1 p2 p3)
  obtain l1 c1 p1' g1 where 1: "predict rnd g p1 pc sn = Some (l1, c1, p1', g1)"
    "issuable_level l1" "loc_inv p1' F c" using P_tournament_3Way by fastforce
  obtain l2 c2 p2' g2 where 2: "predict rnd g1 p2 pc sn = Some (l2, c2, p2', g2)"
    "issuable_level l2" "loc_inv p2' F c" using P_tournament_3Way by fastforce
  obtain l3 c3 p3' g3 where 3: "predict rnd g2 p3 pc sn = Some (l3, c3, p3', g3)"
    "issuable_level l3" "loc_inv p3' F c" using P_tournament_3Way by fastforce
  show ?case
    using 1 2 3 P_tournament_3Way.prems wf_t3_index [of t pc] loc_inv_type [OF 1(3)]
      loc_inv_type [OF 2(3)] loc_inv_type [OF 3(3)]
    by (auto simp: Let_def wf_t3_def conf_ok_def)
qed simp

lemma commit_ok:
  assumes "loc_inv p (F @ [(pc, sn)]) c" "c < sn"
  shows "\<exists>p'. commit p pc sn u = Some p' \<and> loc_inv p' F sn"
  using assms
proof (induction p pc sn u rule: commit.induct)
  case (1 p pc sn u)
  then show ?case using local_commit_ok [of p F pc sn c u] by auto
next
  case (2 p pc sn u)
  then show ?case using loop_commit_ok [of p F pc sn c u] by auto
qed (fastforce simp: Let_def)+

lemma squash_ok:
  assumes "loc_inv p F c" "flight_ok F c" "c \<le> sq"
  shows "\<exists>p'. squash p sq = Some p' \<and> loc_inv p' (squash_flight sq F) c"
  using assms
proof (induction p sq rule: squash.induct)
  case (1 p sq)
  then show ?case using local_squash_ok [of p F c sq] by auto
next
  case (2 p sq)
  then show ?case using loop_squash_ok [of p F c sq] by auto
qed (fastforce simp: Let_def)+

lemma real_level_fold: "real_level l \<Longrightarrow> real_level (foldCacheLevelForTwoLevelSDO l)"
  by (auto simp: real_level_def foldCacheLevelForTwoLevelSDO_def)

lemma update_t2_ok:
  assumes "wf_t2 t" "predict rnd g p1 pc sn = Some (l1, c1, p1', g1)"
    "predict rnd g1 p2 pc sn = Some (l2, c2, p2', g2)"
    "update rnd g2 p1' pc sn (foldCacheLevelForTwoLevelSDO l) = Some (u1, p1'', g3)"
    "update rnd g3 p2' pc sn (foldCacheLevelForTwoLevelSDO l) = Some (u2, p2'', g4)"
  shows "\<exists>t'. update rnd g (P_tournament_2Way t p1 p2) pc sn l =
     Some (push_bit 1 u2 + u1, P_tournament_2Way t' p1'' p2'', g4) \<and> wf_t2 t'"
proof -
  have "getLocalIndex t pc < length (t2_pred1_conf t)" "getLocalIndex t pc < length (t2_pred2_conf t)"
    using wf_t2_index [OF assms(1)] assms(1) by (auto simp: wf_t2_def conf_ok_def)
  with assms wf_t2_index [OF assms(1), of pc] show ?thesis
    by (simp add: Let_def) (simp add: wf_t2_def wf_base_def conf_ok_step)
qed

lemma update_t3_ok:
  assumes "wf_t3 t" "predict rnd g p1 pc sn = Some (l1, c1, p1', g1)"
    "predict rnd g1 p2 pc sn = Some (l2, c2, p2', g2)"
    "predict rnd g2 p3 pc sn = Some (l3, c3, p3', g3)"
    "update rnd g3 p1' pc sn (foldCacheLevelForTwoLevelSDO l) = Some (u1, p1'', g4)"
    "update rnd g4 p2' pc sn (foldCacheLevelForTwoLevelSDO l) = Some (u2, p2'', g5)"
    "update rnd g5 p3' pc sn (foldCacheLevelForTwoLevelSDO l) = Some (u3, p3'', g6)"
  shows "\<exists>t'. update rnd g (P_tournament_3Way t p1 p2 p3) pc sn l =
     Some (push_bit 2 u3 + push_bit 1 u2 + u1, P_tournament_3Way t' p1'' p2'' p3'', g6) \<and> wf_t3 t'"
proof -
  have "getLocalIndex t pc < length (t3_pred1_conf t)" "getLocalIndex t pc < length (t3_pred2_conf t)"
    "getLocalIndex t pc < length (t3_pred3_conf t)"
    using wf_t3_index [OF assms(1)] assms(1) by (auto simp: wf_t3_def conf_ok_def)
  with assms wf_t3_index [OF assms(1), of pc] show ?thesis
    by (simp add: Let_def) (simp add: wf_t3_def wf_base_def conf_ok_step)
qed

definition update_post :: "nat \<Rightarrow> flight \<Rightarrow> InstSeqNum \<Rightarrow> (int \<times> loc_pred \<times> 'g) option \<Rightarrow> bool" where
  "update_post d F c r \<longleftrightarrow>
     (\<exists>u p' g'. r = Some (u, p', g') \<and> 0 \<le> u \<and> (d = 0 \<longrightarrow> u \<le> 1) \<and> loc_inv p' F c)"

lemma update_leaf_ok:
  assumes "loc_inv p F c" "(pc, sn) \<in> set F" "real_level l" "depth p = 0"
  shows "update_post (depth p) F c (update rnd g p pc sn l)"
proof (cases p)
  case (P_greedy q)
  then obtain q' where "greedy_update q pc l = Some (0, q')"
    using assms(1) by (auto simp: greedy_update_eq Let_def)
  with P_greedy assms greedy_update_wf [of q l pc 0 q'] show ?thesis by (auto simp: update_post_def)
next
  case (P_hysteresis q)
  then show ?thesis using assms hysteresis_update_wf [of q l pc] by (auto simp: update_post_def)
next
  case (P_local q)
  then show ?thesis using assms local_update_ok [of q F c pc sn l] by (auto simp: update_post_def)
next
  case (P_loop q)
  then show ?thesis using assms loop_update_ok [of q F c pc sn l] by (auto simp: update_post_def)
qed (use assms in \<open>auto simp: update_post_def\<close>)

lemma update_ok:
  assumes "loc_inv p F c" "(pc, sn) \<in> set F" "real_level l"
  shows "update_post (depth p) F c (update rnd g p pc sn l)"
  using assms
proof (induction "depth p" arbitrary: p l g rule: less_induct)
  case less
  note fl = real_level_fold [OF less.prems(3)]
  note leaf = update_leaf_ok [OF less.prems, of rnd g]
  show ?case
  proof (cases p)
    case (P_tournament_2Way t p1 p2)
    have wf: "wf_t2 t" "loc_inv p1 F c" "loc_inv p2 F c"
      using less.prems(1) P_tournament_2Way by auto
    obtain l1 c1 p1' g1 where 1: "predict rnd g p1 pc sn = Some (l1, c1, p1', g1)" "loc_inv p1' F c"
      using predict_ok [OF wf(2) less.prems(2)] by metis
    obtain l2 c2 p2' g2 where 2: "predict rnd g1 p2 pc sn = Some (l2, c2, p2', g2)" "loc_inv p2' F c"
      using predict_ok [OF wf(3) less.prems(2)] by metis
    have lt: "depth p1' < depth p" "depth p2' < depth p"
      using predict_depth [OF 1(1)] predict_depth [OF 2(1)] P_tournament_2Way by auto
    obtain u1 p1'' g3 where 3: "update rnd g2 p1' pc sn (foldCacheLevelForTwoLevelSDO l) = Some (u1, p1'', g3)"
      "0 \<le> u1" "loc_inv p1'' F c"
      using less.hyps [OF lt(1) 1(2) less.prems(2) fl, of g2] by (auto simp: update_post_def)
    obtain u2 p2'' g4 where 4: "update rnd g3 p2' pc sn (foldCacheLevelForTwoLevelSDO l) = Some (u2, p2'', g4)"
      "0 \<le> u2" "loc_inv p2'' F c"
      using less.hyps [OF lt(2) 2(2) less.prems(2) fl, of g3] by (auto simp: update_post_def)
    show ?thesis
      using update_t2_ok [OF wf(1) 1(1) 2(1) 3(1) 4(1)] 3 4 P_tournament_2Way
      by (auto simp del: update.simps simp: update_post_def)
  next
    case (P_tournament_3Way t p1 p2 p3)
    have wf: "wf_t3 t" "loc_inv p1 F c" "loc_inv p2 F c" "loc_inv p3 F c"
      using less.prems(1) P_tournament_3Way by auto
    obtain l1 c1 p1' g1 where 1: "predict rnd g p1 pc sn = Some (l1, c1, p1', g1)" "loc_inv p1' F c"
      using predict_ok [OF wf(2) less.prems(2)] by metis
    obtain l2 c2 p2' g2 where 2: "predict rnd g1 p2 pc sn = Some (l2, c2, p2', g2)" "loc_inv p2' F c"
      using predict_ok [OF wf(3) less.prems(2)] by metis
    obtain l3 c3 p3' g3 where 3: "predict rnd g2 p3 pc sn = Some (l3, c3, p3', g3)" "loc_inv p3' F c"
      using predict_ok [OF wf(4) less.prems(2)] by metis
    have lt: "depth p1' < depth p" "depth p2' < depth p" "depth p3' < depth p"
      using predict_depth [OF 1(1)] predict_depth [OF 2(1)] predict_depth [OF 3(1)] P_tournament_3Way
      by auto
    obtain u1 p1'' g4 where 4: "update rnd g3 p1' pc sn (foldCacheLevelForTwoLevelSDO l) = Some (u1, p1'', g4)"
      "0 \<le> u1" "loc_inv p1'' F c"
      using less.hyps [OF lt(1) 1(2) less.prems(2) fl, of g3] by (auto simp: update_post_def)
    obtain u2 p2'' g5 where 5: "update rnd g4 p2' pc sn (foldCacheLevelForTwoLevelSDO l) = Some (u2, p2'', g5)"
      "0 \<le> u2" "loc_inv p2'' F c"
      using less.hyps [OF lt(2) 2(2) less.prems(2) fl, of g4] by (auto simp: update_post_def)
    obtain u3 p3'' g6 where 6: "update rnd g5 p3' pc sn (foldCacheLevelForTwoLevelSDO l) = Some (u3, p3'', g6)"
      "0 \<le> u3" "loc_inv p3'' F c"
      using less.hyps [OF lt(3) 3(2) less.prems(2) fl, of g5] by (auto simp: update_post_def)
    show ?thesis
      using update_t3_ok [OF wf(1) 1(1) 2(1) 3(1) 4(1) 5(1) 6(1)] 4 5 6 P_tournament_3Way
      by (auto simp del: update.simps simp: update_post_def)
  qed (use leaf in \<open>simp_all del: update.simps\<close>)
qed

end
