(* ===== verification/LocPred_Protocol.thy ===== *)
theory LocPred_Protocol
  imports LocPred
begin

text \<open>
  The use the load/store queue and the commit stage make of a location predictor:
  \<^verbatim>\<open>prepare\<close> when a load enters the load queue, \<^verbatim>\<open>predict\<close> and \<^verbatim>\<open>update\<close> while it is in
  flight, \<^verbatim>\<open>commit\<close> when it retires and \<^verbatim>\<open>squash\<close> when younger loads are thrown away.
  The locale \<open>location_predictor\<close> states what a predictor promises for that use; it
  is interpreted on the class hierarchy of \<^verbatim>\<open>locPred.cc\<close>.
\<close>

section \<open>Events and legal sequences of events\<close>

datatype lsq_event =
    Insert_load Addr InstSeqNum
  | Predict_load Addr InstSeqNum
  | Update_load Addr InstSeqNum CacheLevel_t
  | Commit_load Addr InstSeqNum int
  | Squash_loads InstSeqNum

fun legal_event :: "flight \<Rightarrow> InstSeqNum \<Rightarrow> lsq_event \<Rightarrow> bool" where
  "legal_event F c (Insert_load pc sn) \<longleftrightarrow> list_all (\<lambda>x. snd x < sn) F \<and> c < sn"
| "legal_event F c (Predict_load pc sn) \<longleftrightarrow> (pc, sn) \<in> set F"
| "legal_event F c (Update_load pc sn l) \<longleftrightarrow> (pc, sn) \<in> set F \<and> real_level l"
| "legal_event F c (Commit_load pc sn u) \<longleftrightarrow> F \<noteq> [] \<and> last F = (pc, sn)"
| "legal_event F c (Squash_loads sq) \<longleftrightarrow> c \<le> sq"

fun next_flight :: "flight \<Rightarrow> InstSeqNum \<Rightarrow> lsq_event \<Rightarrow> flight \<times> InstSeqNum" where
  "next_flight F c (Insert_load pc sn) = ((pc, sn) # F, c)"
| "next_flight F c (Commit_load pc sn u) = (butlast F, sn)"
| "next_flight F c (Squash_loads sq) = (squash_flight sq F, c)"
| "next_flight F c _ = (F, c)"

fun legal_run :: "flight \<Rightarrow> InstSeqNum \<Rightarrow> lsq_event list \<Rightarrow> bool" where
  "legal_run F c [] \<longleftrightarrow> True"
| "legal_run F c (e # es) \<longleftrightarrow>
     legal_event F c e \<and> (let (F', c') = next_flight F c e in legal_run F' c' es)"

fun flight_after :: "flight \<Rightarrow> InstSeqNum \<Rightarrow> lsq_event list \<Rightarrow> flight \<times> InstSeqNum" where
  "flight_after F c [] = (F, c)"
| "flight_after F c (e # es) = (let (F', c') = next_flight F c e in flight_after F' c' es)"

lemma next_flight_ok:
  "flight_ok F c \<Longrightarrow> legal_event F c e \<Longrightarrow> next_flight F c e = (F', c') \<Longrightarrow> flight_ok F' c'"
proof (cases e)
  case (Commit_load pc sn u)
  assume "flight_ok F c" "legal_event F c e" "next_flight F c e = (F', c')"
  moreover from this have "F = butlast F @ [(pc, sn)]"
    using Commit_load by (metis append_butlast_last_id legal_event.simps(4))
  ultimately show ?thesis using Commit_load flight_ok_commit by fastforce
qed (auto simp: list_all_iff intro: flight_ok_prepare flight_ok_squash)

section \<open>A predictor driven by events\<close>

record ('p, 'g) predictor_ops =
  op_prepare :: "'p \<Rightarrow> Addr \<Rightarrow> InstSeqNum \<Rightarrow> 'p option"
  op_predict :: "'g \<Rightarrow> 'p \<Rightarrow> Addr \<Rightarrow> InstSeqNum \<Rightarrow> (CacheLevel_t \<times> LocPred_t \<times> 'p \<times> 'g) option"
  op_update :: "'g \<Rightarrow> 'p \<Rightarrow> Addr \<Rightarrow> InstSeqNum \<Rightarrow> CacheLevel_t \<Rightarrow> (int \<times> 'p \<times> 'g) option"
  op_commit :: "'p \<Rightarrow> Addr \<Rightarrow> InstSeqNum \<Rightarrow> int \<Rightarrow> 'p option"
  op_squash :: "'p \<Rightarrow> InstSeqNum \<Rightarrow> 'p option"

text \<open>One event; the result lists the predictions made.\<close>

fun do_event ::
  "('p, 'g) predictor_ops \<Rightarrow> 'p \<times> 'g \<Rightarrow> lsq_event \<Rightarrow> (CacheLevel_t list \<times> 'p \<times> 'g) option" where
  "do_event ops (p, g) (Insert_load pc sn) = do {
     p' \<leftarrow> op_prepare ops p pc sn; Some ([], p', g) }"
| "do_event ops (p, g) (Predict_load pc sn) = do {
     (l, _, p', g') \<leftarrow> op_predict ops g p pc sn; Some ([l], p', g') }"
| "do_event ops (p, g) (Update_load pc sn l) = do {
     (_, p', g') \<leftarrow> op_update ops g p pc sn l; Some ([], p', g') }"
| "do_event ops (p, g) (Commit_load pc sn u) = do {
     p' \<leftarrow> op_commit ops p pc sn u; Some ([], p', g) }"
| "do_event ops (p, g) (Squash_loads sq) = do {
     p' \<leftarrow> op_squash ops p sq; Some ([], p', g) }"

fun run_events ::
  "('p, 'g) predictor_ops \<Rightarrow> 'p \<times> 'g \<Rightarrow> lsq_event list \<Rightarrow> (CacheLevel_t list \<times> 'p \<times> 'g) option" where
  "run_events ops s [] = Some ([], s)"
| "run_events ops s (e # es) = do {
     (ls, s') \<leftarrow> do_event ops s e;
     (ls', s'') \<leftarrow> run_events ops s' es;
     Some (ls @ ls', s'')
   }"

locale location_predictor =
  fixes ops :: "('p, 'g) predictor_ops"
    and inv :: "'p \<Rightarrow> flight \<Rightarrow> InstSeqNum \<Rightarrow> bool"
  assumes prepare_law: "inv p F c \<Longrightarrow> \<exists>p'. op_prepare ops p pc sn = Some p' \<and> inv p' ((pc, sn) # F) c"
    and predict_law: "inv p F c \<Longrightarrow> (pc, sn) \<in> set F \<Longrightarrow>
      \<exists>l t p' g'. op_predict ops g p pc sn = Some (l, t, p', g') \<and> issuable_level l \<and> inv p' F c"
    and update_law: "inv p F c \<Longrightarrow> (pc, sn) \<in> set F \<Longrightarrow> real_level l \<Longrightarrow>
      \<exists>u p' g'. op_update ops g p pc sn l = Some (u, p', g') \<and> inv p' F c"
    and commit_law: "inv p (F @ [(pc, sn)]) c \<Longrightarrow> c < sn \<Longrightarrow>
      \<exists>p'. op_commit ops p pc sn u = Some p' \<and> inv p' F sn"
    and squash_law: "inv p F c \<Longrightarrow> flight_ok F c \<Longrightarrow> c \<le> sq \<Longrightarrow>
      \<exists>p'. op_squash ops p sq = Some p' \<and> inv p' (squash_flight sq F) c"
begin

lemma event_ok:
  assumes "inv p F c" "flight_ok F c" "legal_event F c e" "next_flight F c e = (F', c')"
  shows "\<exists>ls p' g'. do_event ops (p, g) e = Some (ls, p', g') \<and> list_all issuable_level ls \<and> inv p' F' c'"
proof (cases e)
  case (Insert_load pc sn)
  with assms prepare_law [OF assms(1), of pc sn] show ?thesis by auto
next
  case (Predict_load pc sn)
  with assms predict_law [OF assms(1), of pc sn g] show ?thesis by auto
next
  case (Update_load pc sn l)
  with assms update_law [OF assms(1), of pc sn l g] show ?thesis by auto
next
  case (Commit_load pc sn u)
  with assms(3) have F: "F = butlast F @ [(pc, sn)]"
    by (metis append_butlast_last_id legal_event.simps(4))
  moreover have "c < sn"
    using assms(2) by (subst (asm) F) (simp add: flight_ok_def)
  ultimately show ?thesis
    using commit_law [of p "butlast F" pc sn c u] assms(1,4) Commit_load by auto
next
  case (Squash_loads sq)
  with assms squash_law [OF assms(1,2), of sq] show ?thesis by auto
qed

lemma run_ok:
  assumes "inv p F c" "flight_ok F c" "legal_run F c es"
  shows "\<exists>ls p' g'. run_events ops (p, g) es = Some (ls, p', g') \<and> list_all issuable_level ls \<and>
    (let (F', c') = flight_after F c es in inv p' F' c')"
  using assms
proof (induction es arbitrary: p g F c)
  case (Cons e es)
  obtain F1 c1 where n: "next_flight F c e = (F1, c1)" by fastforce
  obtain ls p1 g1 where e: "do_event ops (p, g) e = Some (ls, p1, g1)" "list_all issuable_level ls"
    "inv p1 F1 c1"
    using event_ok [OF Cons.prems(1,2) _ n] Cons.prems(3) by (metis legal_run.simps(2))
  have "flight_ok F1 c1" "legal_run F1 c1 es"
    using Cons.prems next_flight_ok n by auto
  from Cons.IH [OF e(3) this, of g1] show ?case using e n by auto
qed simp

end

section \<open>The predictors of locPred.cc as an instance\<close>

definition locPred_ops :: "('g \<Rightarrow> nat \<times> 'g) \<Rightarrow> (loc_pred, 'g) predictor_ops" where
  "locPred_ops rnd =
     \<lparr>op_prepare = prepare, op_predict = predict rnd, op_update = update rnd,
      op_commit = commit, op_squash = squash\<rparr>"

interpretation lp: location_predictor "locPred_ops rnd" loc_inv for rnd :: "'g \<Rightarrow> nat \<times> 'g"
proof
  show "\<exists>u p' g'. op_update (locPred_ops rnd) g p pc sn l = Some (u, p', g') \<and> loc_inv p' F c"
    if "loc_inv p F c" "(pc, sn) \<in> set F" "real_level l" for p F c pc sn l g
    using update_ok [OF that, of rnd g] by (auto simp: locPred_ops_def update_post_def)
  show "\<exists>l t p' g'. op_predict (locPred_ops rnd) g p pc sn = Some (l, t, p', g') \<and>
      issuable_level l \<and> loc_inv p' F c"
    if "loc_inv p F c" "(pc, sn) \<in> set F" for p F c pc sn g
    using predict_ok [OF that, of rnd g] by (simp add: locPred_ops_def)
qed (simp_all add: locPred_ops_def prepare_ok commit_ok squash_ok)

section \<open>Every predictor the CPU can configure meets the contract\<close>

definition leaf_type :: "LocPred_t \<Rightarrow> bool" where
  "leaf_type t \<longleftrightarrow> t \<notin> {Tournament_2Way, Tournament_3Way, NonePred}"

lemma folded_L2 [simp]: "folded_level Cache_L2"
  by (simp add: folded_level_def)

lemma new_object_type:
  "pred_type mk_static_default = Static" "pred_type (mk_perfect b) = Perfect"
  "pred_type (mk_greedy s n) = Greedy" "pred_type (mk_hysteresis s) = Hysteresis"
  "pred_type (mk_loop s) = Loop" "pred_type (mk_base t s) = t"
  "prediction mk_static_default = Cache_L2"
  by (simp_all add: mk_static_default_def mk_perfect_def mk_greedy_def mk_hysteresis_def mk_loop_def
      mk_base_def LocPred_BaseType.defs)

lemma pred_type_to_pred_ok:
  assumes "leaf_type t"
  shows "\<exists>p. pred_type_to_pred t = Some p \<and> loc_inv p [] c \<and> depth p = 0 \<and> obj_pred_type p = Some t"
proof (cases t)
  case Local
  have m: "\<exists>p. mk_local 8192 4 = Some p \<and> local_inv p [] c" by (rule mk_local_ok) simp_all
  moreover have "pred_type p = Local" if "mk_local 8192 4 = Some p" for p
    using that by (auto simp: mk_local_def mk_base_def LocPred_BaseType.defs)
  ultimately show ?thesis using Local
    by (auto simp: default_pred_size_def default_history_length_def getPredType_def)
qed (use assms in \<open>auto simp: leaf_type_def default_pred_size_def default_history_length_def
      wf_mk_greedy wf_mk_hysteresis mk_loop_ok new_object_type getPredType_def\<close>)

lemma wf_mk_tournament:
  assumes "pred_size \<noteq> 0" "pred_size \<le> 4294967296"
  shows "mk_tournament_2Way_base pred_size conf_bit = Some t2 \<Longrightarrow> wf_t2 t2"
    and "mk_tournament_3Way_base pred_size conf_bit = Some t3 \<Longrightarrow> wf_t3 t3"
proof -
  have "2 ^ (conf_bit - 1) \<le> (2 :: int) ^ conf_bit" by (rule power_increasing) simp_all
  then have c: "conf_ok n (2 ^ conf_bit) (replicate n (2 ^ (conf_bit - 1)))" for n
    by (simp add: conf_ok_def list_all_length)
  show "mk_tournament_2Way_base pred_size conf_bit = Some t2 \<Longrightarrow> wf_t2 t2"
    and "mk_tournament_3Way_base pred_size conf_bit = Some t3 \<Longrightarrow> wf_t3 t3"
    using assms c
    by (auto simp: mk_tournament_2Way_base_def mk_tournament_3Way_base_def wf_t2_def wf_t3_def
        wf_base_def mk_base_def LocPred_BaseType.defs bind_eq_Some_conv)
qed

lemma mk_tournament_base_defined:
  "\<exists>t. mk_tournament_2Way_base s default_conf_length = Some t"
  "\<exists>t. mk_tournament_3Way_base s default_conf_length = Some t"
  by (simp_all add: mk_tournament_2Way_base_def mk_tournament_3Way_base_def default_conf_length_def)

lemma mk_tournament_ok:
  assumes "leaf_type t1" "leaf_type t2" "leaf_type t3" "pred_size \<noteq> 0" "pred_size \<le> 4294967296"
  shows "\<exists>p. mk_tournament_2Way t1 t2 pred_size default_conf_length = Some p \<and> loc_inv p [] c"
    and "\<exists>p. mk_tournament_3Way t1 t2 t3 pred_size default_conf_length = Some p \<and> loc_inv p [] c"
  using pred_type_to_pred_ok [OF assms(1)] pred_type_to_pred_ok [OF assms(2)]
    pred_type_to_pred_ok [OF assms(3)] mk_tournament_base_defined [of pred_size]
    wf_mk_tournament [OF assms(4,5), of default_conf_length]
  by (fastforce simp: mk_tournament_2Way_def mk_tournament_3Way_def)+

text \<open>The type names that \<^verbatim>\<open>--pred_type\<close> accepts without a component type, and those for a component.\<close>

definition leaf_names :: "string list" where
  "leaf_names = [''static'', ''greedy'', ''hysteresis'', ''local'', ''loop'', ''random'', ''perfect'']"

lemma leaf_names_type: "s \<in> set leaf_names \<Longrightarrow> leaf_type (string_to_pred_type s)"
  by (auto simp: leaf_names_def leaf_type_def)

lemma configure_leaf_simps:
  "configure_predictor ''perfect'' opt s1 s2 s3 = Some (P_perfect (mk_perfect (opt = 0)), Perfect, None)"
  "configure_predictor ''random'' opt s1 s2 s3 =
     Some (P_random (mk_base Random default_pred_size), Random, delay_flags opt)"
  "configure_predictor ''greedy'' opt s1 s2 s3 =
     Some (P_greedy (mk_greedy 8192 default_history_length), Greedy, delay_flags opt)"
  "configure_predictor ''hysteresis'' opt s1 s2 s3 =
     Some (P_hysteresis (mk_hysteresis 8192), Hysteresis, delay_flags opt)"
  "configure_predictor ''loop'' opt s1 s2 s3 = Some (P_loop (mk_loop 8192), Loop, delay_flags opt)"
  "configure_predictor ''local'' opt s1 s2 s3 =
     mk_local 8192 default_history_length \<bind> (\<lambda>p. Some (P_local p, Local, delay_flags opt))"
  "configure_predictor ''static'' opt s1 s2 s3 =
     (if opt = 0 then Some Cache_L1 else if opt = 1 then Some Cache_L2 else if opt = 2 then Some Cache_L2
      else if opt = 3 then Some DRAM else None) \<bind> (\<lambda>l. Some (P_static (mk_static l), Static, None))"
  by (simp_all add: configure_predictor_def)

lemma mk_static_inv: "real_level l \<Longrightarrow> folded_level (prediction (mk_static l))"
  by (simp add: mk_static_def LocPred_BaseType.defs mk_base_def)

lemma configure_leaf_ok:
  assumes "name \<in> set leaf_names" "opt \<in> {0..3}"
  shows "\<exists>p t d. configure_predictor name opt s1 s2 s3 = Some (p, t, d) \<and> loc_inv p [] c"
proof -
  have h: "0 < default_history_length" "2 * default_history_length < 31"
    by (simp_all add: default_history_length_def)
  have "\<exists>p. mk_local 8192 default_history_length = Some p \<and> local_inv p [] c"
    by (rule mk_local_ok) (simp_all add: h)
  then have "?thesis" if "name = ''local''" using that by (auto simp: configure_leaf_simps)
  moreover have "?thesis" if "name = ''static''"
  proof -
    have "opt = 0 \<or> opt = 1 \<or> opt = 2 \<or> opt = 3" using assms(2) by auto
    then show ?thesis using that
      by (elim disjE) (simp_all add: configure_leaf_simps mk_static_inv real_level_def)
  qed
  ultimately show ?thesis
    using assms(1)
    by (simp add: leaf_names_def)
      (elim disjE, simp_all add: configure_leaf_simps wf_mk_greedy wf_mk_hysteresis mk_loop_ok h)
qed

lemma configure_tournament_ok:
  assumes "name \<in> {''tournament_2way'', ''tournament_3way''}" "{s1, s2, s3} \<subseteq> set leaf_names"
  shows "\<exists>p t d. configure_predictor name opt s1 s2 s3 = Some (p, t, d) \<and> loc_inv p [] c"
proof -
  have "leaf_type (string_to_pred_type s1)" "leaf_type (string_to_pred_type s2)"
    "leaf_type (string_to_pred_type s3)"
    using assms(2) leaf_names_type by auto
  from mk_tournament_ok [OF this, of 4096 c] show ?thesis
    using assms(1) by (elim insertE emptyE)
      (auto simp: configure_predictor_def simp del: string_to_pred_type.simps)
qed



text \<open>
  A three-way tournament as a component is built by a constructor that leaves its
  component pointers uninitialised, and a two-way tournament asserts false.
\<close>

lemma tournament_as_component:
  "pred_type_to_pred Tournament_2Way = None"
  "pred_type_to_pred Tournament_3Way = Some p \<Longrightarrow> predict rnd g p pc sn = None"
  by (auto simp: mk_tournament_2Way_untyped_def mk_tournament_3Way_untyped_def bind_eq_Some_conv
      bind_eq_None_conv)

section \<open>What a tournament remembers until commit\<close>

text \<open>
  The result of \<^verbatim>\<open>update\<close> packs one bit per component, and \<^verbatim>\<open>commit\<close> unpacks them.
\<close>

lemma unpack_two:
  fixes u1 u2 :: int
  assumes "u1 \<in> {0, 1}" "u2 \<in> {0, 1}"
  shows "(push_bit 1 u2 + u1) AND 1 = u1" "drop_bit 1 (push_bit 1 u2 + u1) AND 1 = u2"
  using assms by auto

lemma unpack_three:
  fixes u1 u2 u3 :: int
  assumes "u1 \<in> {0, 1}" "u2 \<in> {0, 1}" "u3 \<in> {0, 1}"
  shows "(push_bit 2 u3 + push_bit 1 u2 + u1) AND 1 = u1"
    "drop_bit 1 (push_bit 2 u3 + push_bit 1 u2 + u1) AND 1 = u2"
    "drop_bit 2 (push_bit 2 u3 + push_bit 1 u2 + u1) AND 1 = u3"
  using assms by (auto simp: push_bit_eq_mult drop_bit_eq_div)

lemma leaf_update_flag:
  assumes "loc_inv p F c" "(pc, sn) \<in> set F" "real_level l" "depth p = 0"
  obtains u q g' where "update rnd g p pc sn l = Some (u, q, g')" "u \<in> {0, 1}" "loc_inv q F c"
  using update_ok [OF assms(1-3), of rnd g] assms(4) by (auto simp: update_post_def) force

text \<open>
  (C19) The update-on-commit word of a three-way tournament of simple predictors
  loses nothing: for a load in flight, the update succeeds, and committing the
  word it returns hands every component exactly the flag that the component's own
  update returned, after which the load can leave the flight.
\<close>

theorem tournament_commit_flags:
  assumes "loc_inv (P_tournament_3Way t p1 p2 p3) F c" "(pc, sn) \<in> set F" "real_level l"
    and "depth p1 = 0" "depth p2 = 0" "depth p3 = 0"
  shows "\<exists>l1 c1 p1' g1 l2 c2 p2' g2 l3 c3 p3' g3 u1 q1 g4 u2 q2 g5 u3 q3 g6 t' u.
    predict rnd g p1 pc sn = Some (l1, c1, p1', g1) \<and>
    predict rnd g1 p2 pc sn = Some (l2, c2, p2', g2) \<and>
    predict rnd g2 p3 pc sn = Some (l3, c3, p3', g3) \<and>
    update rnd g3 p1' pc sn (foldCacheLevelForTwoLevelSDO l) = Some (u1, q1, g4) \<and>
    update rnd g4 p2' pc sn (foldCacheLevelForTwoLevelSDO l) = Some (u2, q2, g5) \<and>
    update rnd g5 p3' pc sn (foldCacheLevelForTwoLevelSDO l) = Some (u3, q3, g6) \<and>
    update rnd g (P_tournament_3Way t p1 p2 p3) pc sn l = Some (u, P_tournament_3Way t' q1 q2 q3, g6) \<and>
    loc_inv (P_tournament_3Way t' q1 q2 q3) F c \<and>
    commit (P_tournament_3Way t' q1 q2 q3) pc sn u = do {
      r1 \<leftarrow> commit q1 pc sn u1;
      r2 \<leftarrow> commit q2 pc sn u2;
      r3 \<leftarrow> commit q3 pc sn u3;
      Some (P_tournament_3Way t' r1 r2 r3)
    }"
proof -
  have wf: "wf_t3 t" "loc_inv p1 F c" "loc_inv p2 F c" "loc_inv p3 F c" using assms(1) by auto
  note fl = real_level_fold [OF assms(3)]
  obtain l1 c1 p1' g1 where 1: "predict rnd g p1 pc sn = Some (l1, c1, p1', g1)" "loc_inv p1' F c"
    using predict_ok [OF wf(2) assms(2)] by metis
  obtain l2 c2 p2' g2 where 2: "predict rnd g1 p2 pc sn = Some (l2, c2, p2', g2)" "loc_inv p2' F c"
    using predict_ok [OF wf(3) assms(2)] by metis
  obtain l3 c3 p3' g3 where 3: "predict rnd g2 p3 pc sn = Some (l3, c3, p3', g3)" "loc_inv p3' F c"
    using predict_ok [OF wf(4) assms(2)] by metis
  have d: "depth p1' = 0" "depth p2' = 0" "depth p3' = 0"
    using predict_depth 1(1) 2(1) 3(1) assms(4-6) by fastforce+
  obtain u1 q1 g4 where 4: "update rnd g3 p1' pc sn (foldCacheLevelForTwoLevelSDO l) = Some (u1, q1, g4)"
    "u1 \<in> {0, 1}" "loc_inv q1 F c" by (rule leaf_update_flag [OF 1(2) assms(2) fl d(1)])
  obtain u2 q2 g5 where 5: "update rnd g4 p2' pc sn (foldCacheLevelForTwoLevelSDO l) = Some (u2, q2, g5)"
    "u2 \<in> {0, 1}" "loc_inv q2 F c" by (rule leaf_update_flag [OF 2(2) assms(2) fl d(2)])
  obtain u3 q3 g6 where 6: "update rnd g5 p3' pc sn (foldCacheLevelForTwoLevelSDO l) = Some (u3, q3, g6)"
    "u3 \<in> {0, 1}" "loc_inv q3 F c" by (rule leaf_update_flag [OF 3(2) assms(2) fl d(3)])
  obtain t' where t': "update rnd g (P_tournament_3Way t p1 p2 p3) pc sn l =
      Some (push_bit 2 u3 + push_bit 1 u2 + u1, P_tournament_3Way t' q1 q2 q3, g6)" "wf_t3 t'"
    using update_t3_ok [OF wf(1) 1(1) 2(1) 3(1) 4(1) 5(1) 6(1)] by metis
  have "commit (P_tournament_3Way t' q1 q2 q3) pc sn (push_bit 2 u3 + push_bit 1 u2 + u1) = do {
      r1 \<leftarrow> commit q1 pc sn u1;
      r2 \<leftarrow> commit q2 pc sn u2;
      r3 \<leftarrow> commit q3 pc sn u3;
      Some (P_tournament_3Way t' r1 r2 r3)
    }"
    using unpack_three [OF 4(2) 5(2) 6(2)] by (simp only: commit.simps Let_def)
  moreover have "loc_inv (P_tournament_3Way t' q1 q2 q3) F c" using t'(2) 4(3) 5(3) 6(3) by simp
  ultimately show ?thesis using 1(1) 2(1) 3(1) 4(1) 5(1) 6(1) t'(1) by (intro exI conjI)
qed

theorem tournament_commit_flags_witness:
  "\<exists>t. mk_tournament_3Way_base 4 4 = Some t \<and>
    (let T = P_tournament_3Way t (P_greedy (mk_greedy 4 2)) (P_hysteresis (mk_hysteresis 4)) (P_loop (mk_loop 4))
     in \<exists>T1 u T2 g6. prepare T 64 1 = Some T1 \<and>
          update (\<lambda>g. (g, Suc g)) 0 T1 64 1 Cache_L2 = Some (u, T2, g6) \<and> commit T2 64 1 u \<noteq> None)"
proof -
  obtain t where t: "mk_tournament_3Way_base 4 4 = Some t"
    by (simp add: mk_tournament_3Way_base_def)
  obtain q where q: "loop_prepare (mk_loop 4) 64 1 = Some q" "loop_inv q [(64, 1)] 0"
    using loop_prepare_ok [OF mk_loop_ok [of 4 0], of 64 1] by auto
  have i: "loc_inv (P_tournament_3Way t (P_greedy (mk_greedy 4 2)) (P_hysteresis (mk_hysteresis 4)) (P_loop q))
      ([] @ [(64, 1)]) 0"
    using t q(2) wf_mk_tournament(2) [OF _ _ t] by (simp add: wf_mk_greedy wf_mk_hysteresis)
  have "depth (P_greedy (mk_greedy 4 2)) = 0" "depth (P_hysteresis (mk_hysteresis 4)) = 0" "depth (P_loop q) = 0"
    by simp_all
  from tournament_commit_flags [OF i _ _ this, of 64 1 Cache_L2 "\<lambda>g. (g, Suc g)" 0]
  obtain u t' q1 q2 q3 g6 where u: "update (\<lambda>g. (g, Suc g)) 0 (P_tournament_3Way t (P_greedy (mk_greedy 4 2))
      (P_hysteresis (mk_hysteresis 4)) (P_loop q)) 64 1 Cache_L2 = Some (u, P_tournament_3Way t' q1 q2 q3, g6)"
    "loc_inv (P_tournament_3Way t' q1 q2 q3) ([] @ [(64, 1)]) 0"
    by (fastforce simp: real_level_def simp del: update.simps commit.simps)
  from commit_ok [OF u(2), of u] u(1) t q(1) show ?thesis
    by (force simp: Let_def simp del: update.simps commit.simps)
qed

end
