(* ===== verification/Registers.thy ===== *)
theory Registers
  imports Prelude
begin

text \<open>
  Register identifiers: the architectural registers of \<^verbatim>\<open>cpu/reg_class.hh\<close> and the
  physical registers of \<^verbatim>\<open>cpu/o3/comm.hh\<close>. The code shares one object per physical
  register and compares pointers to it; in the model the object's contents identify
  it. The constants of the instruction set (the index of the zero register, the
  number of elements of a vector register, the numbers of registers) are the fields of \<open>ISA\<close>, a parameter.
\<close>

datatype RegClass =
    IntRegClass | FloatRegClass | VecRegClass | VecElemClass | CCRegClass | MiscRegClass

text \<open>The declaration order of the classes, which is their C++ order.\<close>

fun class_num :: "RegClass \<Rightarrow> nat" where
  "class_num IntRegClass = 0"
| "class_num FloatRegClass = 1"
| "class_num VecRegClass = 2"
| "class_num VecElemClass = 3"
| "class_num CCRegClass = 4"
| "class_num MiscRegClass = 5"

record RegId =
  regClass :: RegClass
  regIdx :: nat
  elemIdx :: nat

record PhysRegId = RegId +
  flatIdx :: nat

record ISA =
  ZeroReg :: nat
  is_ALPHA :: bool
  NumVecElemPerVecReg :: nat
  NumIntRegs :: nat
  NumFloatRegs :: nat
  NumVecRegs :: nat
  NumCCRegs :: nat
  NumMiscRegs :: nat

text \<open>
  The two constructors: a register without an element index must not be a vector
  element, a register with one must be. \<open>no_elem\<close> is the value of the 16-bit
  unsigned \<^verbatim>\<open>ElemIndex(-1)\<close>.
\<close>

definition no_elem :: nat where
  "no_elem = 65535"

definition mk_RegId :: "RegClass \<Rightarrow> nat \<Rightarrow> RegId option" where
  "mk_RegId reg_class reg_idx = do {
     assertion (reg_class \<noteq> VecElemClass);
     Some \<lparr>regClass = reg_class, regIdx = reg_idx, elemIdx = no_elem\<rparr>
   }"

definition mk_RegId_elem :: "RegClass \<Rightarrow> nat \<Rightarrow> nat \<Rightarrow> RegId option" where
  "mk_RegId_elem reg_class reg_idx elem_idx = do {
     assertion (reg_class = VecElemClass);
     Some \<lparr>regClass = reg_class, regIdx = reg_idx, elemIdx = elem_idx\<rparr>
   }"

definition RegId_less :: "'a RegId_scheme \<Rightarrow> 'b RegId_scheme \<Rightarrow> bool" where
  "RegId_less this that \<longleftrightarrow>
     class_num (regClass this) < class_num (regClass that) \<or>
     (regClass this = regClass that \<and>
      (regIdx this < regIdx that \<or> (regIdx this = regIdx that \<and> elemIdx this < elemIdx that)))"

definition isRenameable :: "'a RegId_scheme \<Rightarrow> bool" where
  "isRenameable r \<longleftrightarrow> regClass r \<noteq> MiscRegClass"

definition isZeroReg :: "ISA \<Rightarrow> 'a RegId_scheme \<Rightarrow> bool" where
  "isZeroReg isa r \<longleftrightarrow>
     (regClass r = IntRegClass \<and> regIdx r = ZeroReg isa) \<or>
     (is_ALPHA isa \<and> regClass r = FloatRegClass \<and> regIdx r = ZeroReg isa)"

fun flatIndex :: "ISA \<Rightarrow> 'a RegId_scheme \<Rightarrow> nat" where
  "flatIndex isa r =
     (if regClass r = VecElemClass then NumVecElemPerVecReg isa * regIdx r + elemIdx r else regIdx r)"

definition isFixedMapping :: "PhysRegId \<Rightarrow> bool" where
  "isFixedMapping p \<longleftrightarrow> \<not> isRenameable p"

lemma RegId_less_irrefl: "\<not> RegId_less r r"
  by (simp add: RegId_less_def)

lemma class_num_inj: "class_num a = class_num b \<longleftrightarrow> a = b"
  by (cases a; cases b) simp_all

lemma RegId_less_total:
  fixes a b :: RegId
  shows "RegId_less a b \<or> a = b \<or> RegId_less b a"
proof -
  consider "class_num (regClass a) < class_num (regClass b)" | "class_num (regClass b) < class_num (regClass a)"
    | "regClass a = regClass b"
    using class_num_inj linorder_neqE_nat by metis
  then show ?thesis
    by cases (cases a; cases b; auto simp: RegId_less_def)+
qed

end
