(* ===== verification/DynInst.thy ===== *)
theory DynInst
  imports Registers LocPred_Base
begin

text \<open>
  Dynamic instructions (\<^verbatim>\<open>cpu/base_dyn_inst.hh\<close>): the status bits, the flags, the
  fields the pipeline stages share and the accessors the stages use. Instructions
  live on a heap; a \<^verbatim>\<open>DynInstPtr\<close> that is not null is an address of that heap. The
  members of the class are grouped: \<open>LdSt\<close> holds the load/store data and \<open>SDO\<close> the
  members of speculative data-oblivious execution.
\<close>

datatype Status =
    IqEntry | RobEntry | LsqEntry | Completed | ResultReady | CanIssue | Issued | Executed
  | CanCommit | AtCommit | Committed | Removed | Squashed | SquashedInIQ | SquashedInLSQ
  | SquashedInROB | RecoverInst | BlockingInst | ThreadsyncWait | SerializeBefore
  | SerializeAfter | SerializeHandled | SpecCompleted | ExposeCompleted | ExposeSent
  | PrevInstsCompleted | PrevBrsResolved | PrevInstsCommitted | PrevBrsCommitted
  | L1HitHigh | L1HitLow | SpecBufObsoleteHigh | SpecBufObsoleteLow | InStallList

datatype Flags =
    NotAnInst | TranslationStarted | TranslationCompleted | PossibleLoadViolation
  | HitExternalSnoop | EffAddrValid | RecordResult | Predicate | PredTaken
  | IsStrictlyOrdered | ReqMade | MemOpDone | NeedPostFetch | NeedDeletePostReq
  | NeedExposeOnly | FenceDelay | ReadyToExpose | HitInvalidation | HitExternalEviction
  | ValidationFail | OnlyWaitForFence | OnlyWaitForExpose | SpecTLBTransDelayed
  | IsUnsquashable | IsDestTainted | IsArgsTainted | IsAddrTainted | HasExplicitFlow
  | HasImplicitFlow | HasPendingSquash

text \<open>What the modelled stages read of a decoded instruction.\<close>

record StaticInst =
  si_isMemRef :: bool
  si_isLoad :: bool
  si_isStore :: bool
  si_isControl :: bool
  si_isStoreConditional :: bool
  si_isInstPrefetch :: bool
  si_isDataPrefetch :: bool
  si_isMemBarrier :: bool
  si_isWriteBarrier :: bool
  si_isNonSpeculative :: bool
  si_isFloating :: bool
  si_isInteger :: bool
  si_srcRegs :: "RegId list"
  si_destRegs :: "RegId list"

text \<open>The fault of \<^verbatim>\<open>checkViolations\<close> is a \<^verbatim>\<open>GenericISA::M5PanicFault\<close>.\<close>

datatype Fault = ReExec | M5PanicFault | OtherFault nat

text \<open>What the load/store queue reads of a \<^verbatim>\<open>Request\<close>.\<close>

record Request =
  getVaddr :: Addr
  getPaddr :: Addr
  getSize :: nat
  isLLSC :: bool
  isStrictlyOrdered :: bool
  isMmappedIpr :: bool
  isCacheMaintenance :: bool
  is_STORE_NO_DATA :: bool
  is_CACHE_BLOCK_ZERO :: bool
  isLockedRMW :: bool
  isInstFetch :: bool
  isStoreCheck :: bool \<comment> \<open>the flag \<^verbatim>\<open>X86ISA::StoreCheck\<close>\<close>
  isSwap :: bool

record LdSt =
  effAddr :: Addr
  physEffAddrLow :: Addr
  physEffAddrHigh :: Addr
  effSize :: nat
  lqIdx :: int
  sqIdx :: int
  memData :: "8 word list option" \<comment> \<open>\<open>None\<close> for \<^verbatim>\<open>NULL\<close>\<close>
  vldData :: "8 word list option"
  postReq :: "Request option"
  postSreqLow :: "Request option"
  postSreqHigh :: "Request option"

text \<open>
  The commands of packets (\<^verbatim>\<open>MemCmd\<close> in \<^verbatim>\<open>mem/packet.hh\<close>). A
  response has the attributes of its request that are tested, and is not told apart;
  \<open>ReadReq\<close> and \<open>WriteReq\<close> stand for the ordinary commands that \<^verbatim>\<open>makeReadCmd\<close> and
  \<^verbatim>\<open>makeWriteCmd\<close> choose from by the flags of the request.
\<close>

datatype MemCmd =
    ReadReq | ReadSpecReq | ValidateReq | ExposeReq | ReadSpecL0Req | ReadSpecL1Req
  | ReadSpecMemReq | ReadSpecPerfectReq | ReadSpecPerfectUnsafeReq | WriteReq | FlushReq

text \<open>The state of an oblivious load (\<^verbatim>\<open>LSQUnit::MLDOM_STATE_Type\<close>).\<close>

datatype MLDOM_STATE_Type =
    MLDOM_STATE_A | MLDOM_STATE_AB | MLDOM_STATE_ABC | MLDOM_STATE_ABCD | MLDOM_STATE_AC
  | MLDOM_STATE_ACB | MLDOM_STATE_ACBD | MLDOM_STATE_ACD | MLDOM_STATE_ACDB | MLDOM_STATE_Ab
  | MLDOM_STATE_AbC | MLDOM_STATE_AbCB | MLDOM_STATE_AbCBD | MLDOM_STATE_AbCD | MLDOM_STATE_AbCDB
  | MLDOM_STATE_ACb | MLDOM_STATE_ACbD | MLDOM_STATE_ACbDB | MLDOM_STATE_toBeSquash

record oblS_state =
  ob_Complete :: bool
  ob_Hit :: bool
  ob_Hit_SB :: bool
  ob_Hit_L0 :: bool
  ob_Hit_L1 :: bool
  ob_Hit_L2 :: bool
  ob_Hit_Mem :: bool

record SDO =
  MLDOM_state :: "MLDOM_STATE_Type option" \<comment> \<open>\<open>None\<close> for the initial value -1, here and below\<close>
  if_ldStFwd :: bool
  regLd_Hit_Level :: int
  ExpVal_Hit_Level :: int
  doneWB :: bool
  doneWB_byOblS :: bool
  pred_level :: "CacheLevel_t option"
  chosen_pred_type :: "LocPred_t option"
  perfect_oblS :: int
  oblS_Sent :: bool
  oblS :: oblS_state
  oblS_FstHalf :: oblS_state
  oblS_SndHalf :: oblS_state
  pkt_delayed_wb :: "MemCmd option" \<comment> \<open>the packet, by its command\<close>
  valPred_onMiss :: bool
  done_locPred_update :: bool
  update_locPred_on_commit :: int
  obls_TLB_Hit :: bool
  needSingleExpose :: bool
  needSingleValidate :: bool
  needDoubleExpose :: bool
  needDoubleValidate :: bool
  ExposeValidateBlocked :: bool
  alias_tainted_not_arrived :: bool
  alias_tainted_arrived :: bool
  alias_untainted_not_arrived :: bool
  alias_untainted_arrived :: bool

type_synonym DynInstPtr = nat

record DynInst =
  seqNum :: InstSeqNum
  staticInst :: StaticInst
  pc :: Addr
  fault :: "Fault option" \<comment> \<open>\<open>None\<close> is \<^verbatim>\<open>NoFault\<close>\<close>
  instFlags :: "Flags \<Rightarrow> bool"
  status :: "Status \<Rightarrow> bool"
  readySrcRegIdx :: "bool list"
  readyRegs :: nat
  threadNumber :: ThreadID
  ldst :: LdSt
  taint_prop_done :: bool
  delayedCycleCnt :: nat
  delayedAtCycle :: "64 word"
  robUpdateVisibleState :: bool
  lsqUpdateVisibleState :: bool
  sdo :: SDO
  destRegIdx :: "PhysRegId list"
  srcRegIdx :: "PhysRegId list"
  prevDestRegIdx :: "PhysRegId option list"
  flatDestRegIdx :: "RegId list"
  argProducers :: "DynInstPtr option list"

type_synonym inst_heap = "DynInstPtr \<Rightarrow> DynInst"

section \<open>Accessors\<close>

definition set_flag :: "Flags \<Rightarrow> bool \<Rightarrow> DynInst \<Rightarrow> DynInst" where
  "set_flag f b i = i\<lparr>instFlags := (instFlags i)(f := b)\<rparr>"

definition set_status :: "Status \<Rightarrow> DynInst \<Rightarrow> DynInst" where
  "set_status s i = i\<lparr>status := (status i)(s := True)\<rparr>"

definition reset_status :: "Status \<Rightarrow> DynInst \<Rightarrow> DynInst" where
  "reset_status s i = i\<lparr>status := (status i)(s := False)\<rparr>"

text \<open>The instruction behind a pointer is changed in place.\<close>

definition modify :: "DynInstPtr \<Rightarrow> (DynInst \<Rightarrow> DynInst) \<Rightarrow> inst_heap \<Rightarrow> inst_heap" where
  "modify p f h = h(p := f (h p))"

definition modifyM :: "DynInstPtr \<Rightarrow> (DynInst \<Rightarrow> DynInst option) \<Rightarrow> inst_heap \<Rightarrow> inst_heap option" where
  "modifyM p f h = do { i \<leftarrow> f (h p); Some (h(p := i)) }"

abbreviation needExposeOnly :: "DynInst \<Rightarrow> bool" where
  "needExposeOnly i \<equiv> instFlags i NeedExposeOnly"

abbreviation needPostFetch :: "DynInst \<Rightarrow> bool" where
  "needPostFetch i \<equiv> instFlags i NeedPostFetch"

text \<open>The next two accessors use each other's flag, as the code does.\<close>

abbreviation fenceDelay :: "DynInst \<Rightarrow> bool" where
  "fenceDelay i \<equiv> instFlags i ReadyToExpose"

abbreviation readyToExpose :: "DynInst \<Rightarrow> bool" where
  "readyToExpose i \<equiv> instFlags i FenceDelay"

abbreviation isUnsquashable :: "DynInst \<Rightarrow> bool" where
  "isUnsquashable i \<equiv> instFlags i IsUnsquashable"

abbreviation isDestTainted :: "DynInst \<Rightarrow> bool" where
  "isDestTainted i \<equiv> instFlags i IsDestTainted"

abbreviation isArgsTainted :: "DynInst \<Rightarrow> bool" where
  "isArgsTainted i \<equiv> instFlags i IsArgsTainted"

abbreviation isAddrTainted :: "DynInst \<Rightarrow> bool" where
  "isAddrTainted i \<equiv> instFlags i IsAddrTainted"

abbreviation hasExplicitFlow :: "DynInst \<Rightarrow> bool" where
  "hasExplicitFlow i \<equiv> instFlags i HasExplicitFlow"

abbreviation hasImplicitFlow :: "DynInst \<Rightarrow> bool" where
  "hasImplicitFlow i \<equiv> instFlags i HasImplicitFlow"

abbreviation hasPendingSquash :: "DynInst \<Rightarrow> bool" where
  "hasPendingSquash i \<equiv> instFlags i HasPendingSquash"

abbreviation strictlyOrdered :: "DynInst \<Rightarrow> bool" where
  "strictlyOrdered i \<equiv> instFlags i IsStrictlyOrdered"

abbreviation isSquashed :: "DynInst \<Rightarrow> bool" where
  "isSquashed i \<equiv> status i Squashed"

abbreviation isCommitted :: "DynInst \<Rightarrow> bool" where
  "isCommitted i \<equiv> status i Committed"

abbreviation isExecuted :: "DynInst \<Rightarrow> bool" where
  "isExecuted i \<equiv> status i Executed"

abbreviation isInROB :: "DynInst \<Rightarrow> bool" where
  "isInROB i \<equiv> status i RobEntry"

abbreviation isExposeCompleted :: "DynInst \<Rightarrow> bool" where
  "isExposeCompleted i \<equiv> status i ExposeCompleted"

abbreviation isExposeSent :: "DynInst \<Rightarrow> bool" where
  "isExposeSent i \<equiv> status i ExposeSent"

abbreviation isPrevInstsCompleted :: "DynInst \<Rightarrow> bool" where
  "isPrevInstsCompleted i \<equiv> status i PrevInstsCompleted"

abbreviation isPrevBrsResolved :: "DynInst \<Rightarrow> bool" where
  "isPrevBrsResolved i \<equiv> status i PrevBrsResolved"

abbreviation isLoad :: "DynInst \<Rightarrow> bool" where
  "isLoad i \<equiv> si_isLoad (staticInst i)"

abbreviation isStore :: "DynInst \<Rightarrow> bool" where
  "isStore i \<equiv> si_isStore (staticInst i)"

abbreviation isMemRef :: "DynInst \<Rightarrow> bool" where
  "isMemRef i \<equiv> si_isMemRef (staticInst i)"

abbreviation isControl :: "DynInst \<Rightarrow> bool" where
  "isControl i \<equiv> si_isControl (staticInst i)"

abbreviation isAccess :: "DynInst \<Rightarrow> bool" where
  "isAccess i \<equiv> si_isLoad (staticInst i)"

abbreviation isTransmit :: "DynInst \<Rightarrow> bool" where
  "isTransmit i \<equiv> si_isLoad (staticInst i)"

abbreviation numSrcRegs :: "DynInst \<Rightarrow> nat" where
  "numSrcRegs i \<equiv> length (si_srcRegs (staticInst i))"

abbreviation numDestRegs :: "DynInst \<Rightarrow> nat" where
  "numDestRegs i \<equiv> length (si_destRegs (staticInst i))"

definition isLoadSafeToCommit :: "DynInst \<Rightarrow> bool" where
  "isLoadSafeToCommit i =
     (if isLoad i \<and> \<not> isSquashed i \<and> fault i = None then
        if needPostFetch i \<and> needExposeOnly i \<and> \<not> isExposeSent i then False
        else if needPostFetch i \<and> \<not> needExposeOnly i \<and> \<not> isExposeCompleted i then False
        else True
      else True)"

definition readyToCommit :: "DynInst \<Rightarrow> bool" where
  "readyToCommit i \<longleftrightarrow>
     status i CanCommit \<and> (\<not> hasPendingSquash i \<or> (hasPendingSquash i \<and> isSquashed i))"

text \<open>
  Construction; \<open>max_src\<close> is \<^verbatim>\<open>TheISA::MaxInstSrcRegs\<close> and \<open>max_dest\<close> is
  \<^verbatim>\<open>TheISA::MaxInstDestRegs\<close>. The register arrays are filled by the rename stage; until
  then they hold \<open>junk\<close>, which nothing reads.
\<close>

definition no_oblS :: oblS_state where
  "no_oblS = \<lparr>ob_Complete = False, ob_Hit = False, ob_Hit_SB = False, ob_Hit_L0 = False,
     ob_Hit_L1 = False, ob_Hit_L2 = False, ob_Hit_Mem = False\<rparr>"

definition initVars :: "nat \<Rightarrow> nat \<Rightarrow> PhysRegId \<Rightarrow> StaticInst \<Rightarrow> Addr \<Rightarrow> InstSeqNum \<Rightarrow> DynInst" where
  "initVars max_src max_dest junk static_inst pc0 seq_num =
     \<lparr>seqNum = seq_num, staticInst = static_inst, pc = pc0, fault = None,
      instFlags = (\<lambda>f. f = RecordResult \<or> f = Predicate), status = (\<lambda>_. False),
      readySrcRegIdx = replicate max_src False, readyRegs = 0, threadNumber = 0,
      ldst = \<lparr>effAddr = 0, physEffAddrLow = 0, physEffAddrHigh = 0, effSize = 0,
              lqIdx = -1, sqIdx = -1, memData = None, vldData = None, postReq = None, postSreqLow = None, postSreqHigh = None\<rparr>,
      taint_prop_done = False, delayedCycleCnt = 0, delayedAtCycle = -1,
      robUpdateVisibleState = False, lsqUpdateVisibleState = False,
      sdo = \<lparr>MLDOM_state = None, if_ldStFwd = False, regLd_Hit_Level = -1, ExpVal_Hit_Level = -1,
             doneWB = False, doneWB_byOblS = False, pred_level = None, chosen_pred_type = None,
             perfect_oblS = 0, oblS_Sent = False, oblS = no_oblS, oblS_FstHalf = no_oblS,
             oblS_SndHalf = no_oblS, pkt_delayed_wb = None, valPred_onMiss = False,
             done_locPred_update = False, update_locPred_on_commit = 0, obls_TLB_Hit = True,
             needSingleExpose = False, needSingleValidate = False, needDoubleExpose = False,
             needDoubleValidate = False, ExposeValidateBlocked = False,
             alias_tainted_not_arrived = False, alias_tainted_arrived = False,
             alias_untainted_not_arrived = False, alias_untainted_arrived = False\<rparr>,
      destRegIdx = replicate max_dest junk, srcRegIdx = replicate max_src junk,
      prevDestRegIdx = replicate max_dest None,
      flatDestRegIdx = replicate max_dest \<lparr>regClass = IntRegClass, regIdx = 0, elemIdx = 0\<rparr>,
      argProducers = replicate max_src None\<rparr>"

definition getArgProducer :: "DynInst \<Rightarrow> nat \<Rightarrow> DynInstPtr option option" where
  "getArgProducer i idx = vec_get (argProducers i) idx"

definition clearArgProducer :: "nat \<Rightarrow> DynInst \<Rightarrow> DynInst option" where
  "clearArgProducer idx i = do {
     a \<leftarrow> vec_set (argProducers i) idx None;
     Some (i\<lparr>argProducers := a\<rparr>)
   }"

definition setArgProducer :: "nat \<Rightarrow> DynInstPtr \<Rightarrow> DynInst \<Rightarrow> DynInst option" where
  "setArgProducer idx p i = do {
     a \<leftarrow> vec_set (argProducers i) idx (Some p);
     Some (i\<lparr>argProducers := a\<rparr>)
   }"

text \<open>Renaming of the registers of an instruction.\<close>

definition renameSrcReg :: "nat \<Rightarrow> PhysRegId \<Rightarrow> DynInst \<Rightarrow> DynInst option" where
  "renameSrcReg idx renamed_src i = do {
     a \<leftarrow> vec_set (srcRegIdx i) idx renamed_src;
     Some (i\<lparr>srcRegIdx := a\<rparr>)
   }"

definition renameDestReg :: "nat \<Rightarrow> PhysRegId \<Rightarrow> PhysRegId option \<Rightarrow> DynInst \<Rightarrow> DynInst option" where
  "renameDestReg idx renamed_dest previous_rename i = do {
     a \<leftarrow> vec_set (destRegIdx i) idx renamed_dest;
     b \<leftarrow> vec_set (prevDestRegIdx i) idx previous_rename;
     Some (i\<lparr>destRegIdx := a, prevDestRegIdx := b\<rparr>)
   }"

definition flattenDestReg :: "nat \<Rightarrow> RegId \<Rightarrow> DynInst \<Rightarrow> DynInst option" where
  "flattenDestReg idx flattened_dest i = do {
     a \<leftarrow> vec_set (flatDestRegIdx i) idx flattened_dest;
     Some (i\<lparr>flatDestRegIdx := a\<rparr>)
   }"

text \<open>\<^verbatim>\<open>readyRegs\<close> is a \<^verbatim>\<open>uint8_t\<close>.\<close>

definition markSrcRegReady :: "DynInst \<Rightarrow> DynInst" where
  "markSrcRegReady i =
     (let r = (readyRegs i + 1) mod 256; i' = i\<lparr>readyRegs := r\<rparr>
      in if r = numSrcRegs i then set_status CanIssue i' else i')"

definition markSrcRegReady_idx :: "nat \<Rightarrow> DynInst \<Rightarrow> DynInst" where
  "markSrcRegReady_idx src_idx i =
     markSrcRegReady (i\<lparr>readySrcRegIdx := (readySrcRegIdx i)[src_idx := True]\<rparr>)"

section \<open>Lemmas\<close>

lemma modify_same [simp]: "modify p f h p = f (h p)"
  and modify_other [simp]: "q \<noteq> p \<Longrightarrow> modify p f h q = h q"
  by (simp_all add: modify_def)

lemma modify_apply: "modify p f h q = (if q = p then f (h p) else h q)"
  by (simp add: modify_def)

lemma flags_set_flag [simp]: "instFlags (set_flag f b i) g = (if g = f then b else instFlags i g)"
  and status_set_flag [simp]: "status (set_flag f b i) = status i"
  and seqNum_set_flag [simp]: "seqNum (set_flag f b i) = seqNum i"
  and static_set_flag [simp]: "staticInst (set_flag f b i) = staticInst i"
  and fault_set_flag [simp]: "fault (set_flag f b i) = fault i"
  and thread_set_flag [simp]: "threadNumber (set_flag f b i) = threadNumber i"
  and args_set_flag [simp]: "argProducers (set_flag f b i) = argProducers i"
  and src_set_flag [simp]: "srcRegIdx (set_flag f b i) = srcRegIdx i"
  and dest_set_flag [simp]: "destRegIdx (set_flag f b i) = destRegIdx i"
  by (simp_all add: set_flag_def)

lemma status_set_status [simp]: "status (set_status s i) t = (t = s \<or> status i t)"
  and flags_set_status [simp]: "instFlags (set_status s i) = instFlags i"
  and seqNum_set_status [simp]: "seqNum (set_status s i) = seqNum i"
  and static_set_status [simp]: "staticInst (set_status s i) = staticInst i"
  and fault_set_status [simp]: "fault (set_status s i) = fault i"
  and thread_set_status [simp]: "threadNumber (set_status s i) = threadNumber i"
  and args_set_status [simp]: "argProducers (set_status s i) = argProducers i"
  and src_set_status [simp]: "srcRegIdx (set_status s i) = srcRegIdx i"
  and dest_set_status [simp]: "destRegIdx (set_status s i) = destRegIdx i"
  by (auto simp: set_status_def)

lemma status_reset_status [simp]: "status (reset_status s i) t = (t \<noteq> s \<and> status i t)"
  and flags_reset_status [simp]: "instFlags (reset_status s i) = instFlags i"
  and seqNum_reset_status [simp]: "seqNum (reset_status s i) = seqNum i"
  and static_reset_status [simp]: "staticInst (reset_status s i) = staticInst i"
  and fault_reset_status [simp]: "fault (reset_status s i) = fault i"
  and thread_reset_status [simp]: "threadNumber (reset_status s i) = threadNumber i"
  and args_reset_status [simp]: "argProducers (reset_status s i) = argProducers i"
  and src_reset_status [simp]: "srcRegIdx (reset_status s i) = srcRegIdx i"
  and dest_reset_status [simp]: "destRegIdx (reset_status s i) = destRegIdx i"
  by (auto simp: reset_status_def)

lemma readyToCommit_iff: "readyToCommit i \<longleftrightarrow> status i CanCommit \<and> (hasPendingSquash i \<longrightarrow> isSquashed i)"
  by (auto simp: readyToCommit_def)

end
