(* ===== verification/CPU_Config.thy ===== *)
theory CPU_Config
  imports LocPred_Protocol
begin

text \<open>
  The part of the constructor of \<^verbatim>\<open>FullO3CPU\<close> (\<^verbatim>\<open>cpu/o3/cpu.cc\<close>) that turns the
  simulation parameters into the defence configuration the pipeline stages read.
  A member that a path of the constructor leaves uninitialised is \<open>None\<close>. The list
  of profiled load addresses is read from a file and is an argument of the model;
  messages are omitted.
\<close>

record cpu_params =
  p_scheme :: string
  p_mem_model :: string
  p_threat_model :: string
  p_STT :: bool
  p_impChannel :: bool
  p_moreTransTypes :: int
  p_enable_STT_overhead_profiling :: bool
  p_enable_loadhit_trace_profiling :: bool
  p_enable_MLDOM :: bool
  p_pred_type :: string
  p_pred_option :: int
  p_tournament_pred1_type :: string
  p_tournament_pred2_type :: string
  p_tournament_pred3_type :: string
  p_expose_only :: bool
  p_disable_2ndld :: bool
  p_TLB_defense :: string
  p_enable_OblS_contention :: bool

record cpu_config =
  safe :: bool
  loadInExec :: bool
  isInvisibleSpec :: bool
  needsTSO :: bool
  isFuturistic :: bool
  STT :: bool
  impChannel :: bool
  moreTransTypes :: int

record sdo_config =
  locationPredictor :: loc_pred
  cpu_pred_type :: LocPred_t
  delay_on_pred :: "(bool \<times> bool) option" \<comment> \<open>\<^verbatim>\<open>delay_on_DRAM_pred\<close>, \<^verbatim>\<open>delay_on_LLC_pred\<close>\<close>
  expose_only :: bool
  disable_2ndld :: bool
  TLB_defense :: int
  enableOblSContention :: bool

definition configure_scheme :: "cpu_params \<Rightarrow> cpu_config option" where
  "configure_scheme p = do {
     (sf, ld, inv) \<leftarrow>
       (if p_scheme p = ''UnsafeBaseline'' then Some (False, True, False)
        else if p_scheme p = ''DelayExecute'' then Some (True, False, False)
        else if p_scheme p = ''SDO'' then Some (True, True, True)
        else None);
     tso \<leftarrow>
       (if p_mem_model p = ''TSO'' then Some True
        else if p_mem_model p = ''RC'' then Some False
        else None);
     fut \<leftarrow>
       (if p_threat_model p = ''Spectre'' then Some False
        else if p_threat_model p = ''Futuristic'' then Some True
        else None);
     assertion (p_moreTransTypes p \<ge> 0 \<and> p_moreTransTypes p \<le> 2);
     assertion (p_impChannel p \<longrightarrow> p_STT p);
     Some \<lparr>safe = sf, loadInExec = ld, isInvisibleSpec = inv, needsTSO = tso, isFuturistic = fut,
           STT = p_STT p, impChannel = p_impChannel p, moreTransTypes = p_moreTransTypes p\<rparr>
   }"

definition configure_profiling :: "cpu_params \<Rightarrow> Addr list \<Rightarrow> unit option" where
  "configure_profiling p ld_pc_to_profile = do {
     assertion (p_enable_STT_overhead_profiling p \<longrightarrow> \<not> p_enable_loadhit_trace_profiling p);
     assertion (p_enable_loadhit_trace_profiling p \<longrightarrow> ld_pc_to_profile \<noteq> [])
   }"

definition configure_TLB_defense :: "string \<Rightarrow> int option" where
  "configure_TLB_defense name =
     (if name = ''No'' then Some 0
      else if name = ''SafeDelay'' then Some 1
      else if name = ''UnsafeDelay'' then Some 2
      else if name = ''SDO'' then Some 3
      else None)"

definition is_perfect_safe :: "loc_pred \<Rightarrow> bool option" where
  "is_perfect_safe p = (case p of P_perfect q \<Rightarrow> Some (is_safe q) | _ \<Rightarrow> None)"

definition configure_sdo :: "cpu_params \<Rightarrow> cpu_config \<Rightarrow> sdo_config option option" where
  "configure_sdo p c =
     (if p_enable_MLDOM p then do {
        assertion (loadInExec c \<and> isInvisibleSpec c);
        (lp, t, d) \<leftarrow> configure_predictor (p_pred_type p) (p_pred_option p) (p_tournament_pred1_type p)
                       (p_tournament_pred2_type p) (p_tournament_pred3_type p);
        assertion (\<not> (p_expose_only p \<and> p_disable_2ndld p));
        tlb \<leftarrow> configure_TLB_defense (p_TLB_defense p);
        (if p_enable_OblS_contention p then do {
           assertion (t = Perfect);
           s \<leftarrow> is_perfect_safe lp;
           assertion (\<not> s)
         } else Some ());
        Some (Some \<lparr>locationPredictor = lp, cpu_pred_type = t, delay_on_pred = d,
                    expose_only = p_expose_only p, disable_2ndld = p_disable_2ndld p,
                    TLB_defense = tlb, enableOblSContention = p_enable_OblS_contention p\<rparr>)
      }
      else Some None)"

definition configure_cpu :: "cpu_params \<Rightarrow> Addr list \<Rightarrow> (cpu_config \<times> sdo_config option) option" where
  "configure_cpu p lds = do {
     c \<leftarrow> configure_scheme p;
     configure_profiling p lds;
     s \<leftarrow> configure_sdo p c;
     Some (c, s)
   }"

lemma configure_predictor_contention:
  assumes "configure_predictor name opt s1 s2 s3 = Some (lp, Perfect, d)"
  shows "lp = P_perfect (mk_perfect (opt = 0))"
  using assms by (auto simp: configure_predictor_def bind_eq_Some_conv split: if_splits)

text \<open>
  (C22) A constructed CPU with speculative data-oblivious execution runs the scheme
  \<^verbatim>\<open>SDO\<close>, that is it issues invisible speculative loads, its TLB defence is one of
  the four known ones, it never both exposes only and disables the second load, and
  the contention test mode occurs only with the unsafe perfect predictor.
\<close>

theorem configured_sdo_cpu:
  assumes "configure_cpu p lds = Some (c, Some s)"
  shows "p_scheme p = ''SDO'' \<and> safe c \<and> loadInExec c \<and> isInvisibleSpec c \<and>
    (impChannel c \<longrightarrow> STT c) \<and> TLB_defense s \<in> {0..3} \<and> \<not> (expose_only s \<and> disable_2ndld s) \<and>
    (enableOblSContention s \<longrightarrow>
       predict rnd g (locationPredictor s) a sn = Some (PerfectUnsafe_Level, Perfect, locationPredictor s, g))"
proof -
  obtain c0 where c: "configure_scheme p = Some c0" "configure_sdo p c0 = Some (Some s)" "c0 = c"
    using assms by (auto simp: configure_cpu_def bind_eq_Some_conv)
  have 1: "p_scheme p = ''SDO'' \<and> safe c" if "loadInExec c" "isInvisibleSpec c"
    using c(1,3) that by (auto simp: configure_scheme_def bind_eq_Some_conv split: if_splits)
  have 2: "impChannel c \<longrightarrow> STT c"
    using c(1,3) by (auto simp: configure_scheme_def bind_eq_Some_conv)
  have 3: "loadInExec c" "isInvisibleSpec c" "TLB_defense s \<in> {0..3}" "\<not> (expose_only s \<and> disable_2ndld s)"
    using c(2,3)
    by (auto simp: configure_sdo_def configure_TLB_defense_def bind_eq_Some_conv split: if_splits)
  have 4: "predict rnd g (locationPredictor s) a sn = Some (PerfectUnsafe_Level, Perfect, locationPredictor s, g)"
    if ob: "enableOblSContention s"
  proof -
    obtain d where d: "configure_predictor (p_pred_type p) (p_pred_option p) (p_tournament_pred1_type p)
        (p_tournament_pred2_type p) (p_tournament_pred3_type p) = Some (locationPredictor s, Perfect, d)"
      and ns: "is_perfect_safe (locationPredictor s) = Some False"
      using c(2) ob by (auto simp: configure_sdo_def bind_eq_Some_conv split: if_splits)
    show ?thesis
      using configure_predictor_contention [OF d] ns
      by (simp add: is_perfect_safe_def perfect_predict_def)
  qed
  from 1 2 3 4 show ?thesis by blast
qed

theorem configured_sdo_cpu_witness:
  "\<exists>c s. configure_cpu
      \<lparr>p_scheme = ''SDO'', p_mem_model = ''TSO'', p_threat_model = ''Spectre'', p_STT = True,
       p_impChannel = True, p_moreTransTypes = 0, p_enable_STT_overhead_profiling = False,
       p_enable_loadhit_trace_profiling = False, p_enable_MLDOM = True, p_pred_type = ''perfect'',
       p_pred_option = 1, p_tournament_pred1_type = [], p_tournament_pred2_type = [],
       p_tournament_pred3_type = [], p_expose_only = False, p_disable_2ndld = True,
       p_TLB_defense = ''SDO'', p_enable_OblS_contention = True\<rparr> [] = Some (c, Some s) \<and>
    safe c \<and> isInvisibleSpec c \<and> TLB_defense s \<in> {0..3} \<and>
    predict (\<lambda>g. (g, Suc g)) 7 (locationPredictor s) 64 1 =
      Some (PerfectUnsafe_Level, Perfect, locationPredictor s, 7)"
proof -
  let ?p = "\<lparr>p_scheme = ''SDO'', p_mem_model = ''TSO'', p_threat_model = ''Spectre'', p_STT = True,
       p_impChannel = True, p_moreTransTypes = 0, p_enable_STT_overhead_profiling = False,
       p_enable_loadhit_trace_profiling = False, p_enable_MLDOM = True, p_pred_type = ''perfect'',
       p_pred_option = 1, p_tournament_pred1_type = [], p_tournament_pred2_type = [],
       p_tournament_pred3_type = [], p_expose_only = False, p_disable_2ndld = True,
       p_TLB_defense = ''SDO'', p_enable_OblS_contention = True\<rparr> :: cpu_params"
  obtain c s where cs: "configure_cpu ?p [] = Some (c, Some s)" "enableOblSContention s"
    by (simp add: configure_cpu_def configure_scheme_def configure_profiling_def configure_sdo_def
        configure_leaf_simps configure_TLB_defense_def is_perfect_safe_def mk_perfect_def
        LocPred_BaseType.defs mk_base_def)
  from configured_sdo_cpu [OF cs(1), of "\<lambda>g. (g, Suc g)" 7 64 1] cs show ?thesis by auto
qed

section \<open>Rejected predictor configurations\<close>

text \<open>A component name for which the constructor of a tournament aborts.\<close>

definition bad_component :: "string \<Rightarrow> bool" where
  "bad_component s \<longleftrightarrow> string_to_pred_type s \<in> {NonePred, Tournament_2Way}"

lemma pred_type_to_pred_None: "pred_type_to_pred t = None \<longleftrightarrow> t \<in> {NonePred, Tournament_2Way}"
  by (cases t) (simp_all add: assertion_def mk_local_def mk_tournament_2Way_untyped_def mk_tournament_2Way_base_def
      mk_tournament_3Way_untyped_def mk_tournament_3Way_base_def default_conf_length_def default_history_length_def)

text \<open>
  (C23) The CPU refuses a predictor configuration exactly if the type name is none of
  the nine lower-case names, or the static level is not in 0..3, or a component of a
  tournament is an unknown type or itself \<^verbatim>\<open>tournament_2way\<close>. In particular the
  parameter default \<^verbatim>\<open>Static\<close> is refused, while a component \<^verbatim>\<open>tournament_3way\<close> is
  accepted although its own components are never set.
\<close>

theorem configure_predictor_rejects:
  "configure_predictor name opt s1 s2 s3 = None \<longleftrightarrow>
     name \<notin> {''static'', ''perfect'', ''random'', ''greedy'', ''hysteresis'', ''local'', ''loop'', ''tournament_2way'', ''tournament_3way''} \<or>
     name = ''static'' \<and> opt \<notin> {0..3} \<or>
     name = ''tournament_2way'' \<and> (bad_component s1 \<or> bad_component s2) \<or>
     name = ''tournament_3way'' \<and> (bad_component s1 \<or> bad_component s2 \<or> bad_component s3)"
proof -
  have l: "mk_local 8192 default_history_length \<noteq> None"
    by (simp add: mk_local_def default_history_length_def)
  have t2: "mk_tournament_2Way a b 4096 default_conf_length = None \<longleftrightarrow> {a, b} \<inter> {NonePred, Tournament_2Way} \<noteq> {}" for a b
    using pred_type_to_pred_None [of a] pred_type_to_pred_None [of b]
    by (auto simp: mk_tournament_2Way_def mk_tournament_2Way_base_def default_conf_length_def bind_eq_None_conv)
  have t3: "mk_tournament_3Way a b c 4096 default_conf_length = None \<longleftrightarrow> {a, b, c} \<inter> {NonePred, Tournament_2Way} \<noteq> {}" for a b c
    using pred_type_to_pred_None [of a] pred_type_to_pred_None [of b] pred_type_to_pred_None [of c]
    by (auto simp: mk_tournament_3Way_def mk_tournament_3Way_base_def default_conf_length_def bind_eq_None_conv)
  show ?thesis
    using l by (auto simp: configure_predictor_def bind_eq_None_conv t2 t3 bad_component_def simp del: string_to_pred_type.simps)
qed

theorem configure_predictor_rejects_witness:
  "configure_predictor ''Static'' 0 ''perfect'' ''perfect'' ''perfect'' = None \<and>
   configure_predictor ''static'' 0 ''perfect'' ''perfect'' ''perfect'' \<noteq> None"
  using configure_predictor_rejects [of "''Static''" 0 "''perfect''" "''perfect''" "''perfect''"]
    configure_predictor_rejects [of "''static''" 0 "''perfect''" "''perfect''" "''perfect''"] by simp
end
