(* ===== verification/ROB.thy ===== *)
theory ROB
  imports DynInst CPU_Config
begin

text \<open>
  The reorder buffer (\<^verbatim>\<open>cpu/o3/rob.hh\<close>, \<^verbatim>\<open>cpu/o3/rob_impl.hh\<close>): one list of
  instructions per thread, oldest first, and the operations of the commit stage on
  it, among them the visibility-point computation and the taint propagation that
  speculative taint tracking rests on.

  A list iterator is the pointer to the instruction it refers to, \<open>None\<close> for
  \<^verbatim>\<open>end()\<close>; dereferencing \<^verbatim>\<open>end()\<close> or an erased element traps, as does decrementing
  the iterator of the first element. \<^verbatim>\<open>unsigned\<close> members are 32-bit words.
\<close>

section \<open>State\<close>

datatype ROB_Status = Running | Idle | ROBSquashing

datatype ROBPolicy = Dynamic | Partitioned | Threshold

record rob =
  robStatus :: "ROB_Status list"
  robPolicy :: ROBPolicy
  activeThreads :: "ThreadID list"
  numEntries :: "32 word"
  threadEntries :: "32 word list"
  maxEntries :: "32 word list"
  instList :: "DynInstPtr list list"
  squashWidth :: "32 word"
  tail :: "DynInstPtr option"
  head :: "DynInstPtr option"
  squashIt :: "DynInstPtr option list"
  numInstsInROB :: int
  squashedSeqNum :: "InstSeqNum list"
  doneSquashing :: "bool list"
  numThreads :: nat
  robReads :: nat
  robWrites :: nat
  totalSquashDelayCycles :: nat
  critical_delay_count :: "Addr \<rightharpoonup> nat"
  delay_cause :: "Addr \<rightharpoonup> (Addr \<rightharpoonup> nat)"

text \<open>The part of the CPU object that the reorder buffer changes.\<close>

record cpu_lists =
  removeInstsThisCycle :: bool
  removeList :: "DynInstPtr list"

definition removeFrontInst :: "DynInstPtr \<Rightarrow> cpu_lists \<Rightarrow> cpu_lists" where
  "removeFrontInst p c = c\<lparr>removeInstsThisCycle := True, removeList := removeList c @ [p]\<rparr>"

text \<open>Accesses to the arrays and to the instruction behind an iterator.\<close>

definition the_list :: "rob \<Rightarrow> ThreadID \<Rightarrow> DynInstPtr list option" where
  "the_list r tid = vec_get (instList r) tid"

definition deref :: "DynInstPtr list \<Rightarrow> DynInstPtr option \<Rightarrow> DynInstPtr option" where
  "deref L it = (case it of None \<Rightarrow> None | Some p \<Rightarrow> if p \<in> set L then Some p else None)"

fun pred_in :: "DynInstPtr \<Rightarrow> DynInstPtr list \<Rightarrow> DynInstPtr option" where
  "pred_in p (a # b # L) = (if b = p then Some a else pred_in p (b # L))"
| "pred_in p _ = None"

section \<open>Construction and sizes\<close>

definition resetState :: "rob \<Rightarrow> rob" where
  "resetState r =
     (let n = numThreads r in
      r\<lparr>doneSquashing := replicate n True @ drop n (doneSquashing r),
        threadEntries := replicate n 0 @ drop n (threadEntries r),
        squashIt := replicate n None @ drop n (squashIt r),
        squashedSeqNum := replicate n 0 @ drop n (squashedSeqNum r),
        numInstsInROB := 0,
        head := None,
        tail := None\<rparr>)"

text \<open>
  \<open>max_threads\<close> is \<^verbatim>\<open>Impl::MaxThreads\<close>; the array members that the constructor leaves
  uninitialised hold the values of \<open>junk\<close>. The policy name is compared in lower case.
\<close>

definition to_lower :: "string \<Rightarrow> string" where
  "to_lower s = map (\<lambda>c. if 65 \<le> (of_char c :: nat) \<and> (of_char c :: nat) \<le> 90
                        then char_of ((of_char c :: nat) + 32) else c) s"

definition mk_ROB ::
  "32 word list \<Rightarrow> ROB_Status list \<Rightarrow> nat \<Rightarrow> 32 word \<Rightarrow> 32 word \<Rightarrow> nat \<Rightarrow> string \<Rightarrow> 32 word \<Rightarrow> rob option" where
  "mk_ROB junk junk_status max_threads num_entries squash_width num_threads policy_name threshold = do {
     assertion (num_threads \<le> max_threads);
     let policy = to_lower policy_name;
     (pol, amount) \<leftarrow>
       (if policy = ''dynamic'' then Some (Dynamic, num_entries)
        else if policy = ''partitioned'' then do {
          assertion (0 < num_threads);
          Some (Partitioned, num_entries div of_nat num_threads)
        }
        else if policy = ''threshold'' then Some (Threshold, threshold)
        else None);
     Some (resetState
       \<lparr>robStatus = junk_status, robPolicy = pol, activeThreads = [], numEntries = num_entries,
        threadEntries = replicate max_threads 0,
        maxEntries = replicate num_threads amount @ drop num_threads junk,
        instList = replicate max_threads [], squashWidth = squash_width, tail = None, head = None,
        squashIt = replicate max_threads None, numInstsInROB = 0,
        squashedSeqNum = replicate max_threads 0, doneSquashing = replicate max_threads True,
        numThreads = num_threads, robReads = 0, robWrites = 0, totalSquashDelayCycles = 0,
        critical_delay_count = Map.empty, delay_cause = Map.empty\<rparr>)
   }"

definition setActiveThreads :: "ThreadID list \<Rightarrow> rob \<Rightarrow> rob" where
  "setActiveThreads at_ptr r = r\<lparr>activeThreads := at_ptr\<rparr>"

definition isEmpty_all :: "rob \<Rightarrow> bool" where
  "isEmpty_all r \<longleftrightarrow> numInstsInROB r = 0"

definition isEmpty_thread :: "rob \<Rightarrow> ThreadID \<Rightarrow> bool option" where
  "isEmpty_thread r tid = do { n \<leftarrow> vec_get (threadEntries r) tid; Some (n = 0) }"

definition isFull_all :: "rob \<Rightarrow> bool" where
  "isFull_all r \<longleftrightarrow> of_int (numInstsInROB r) = numEntries r"

definition isFull_thread :: "rob \<Rightarrow> ThreadID \<Rightarrow> bool option" where
  "isFull_thread r tid = do { n \<leftarrow> vec_get (threadEntries r) tid; Some (n = numEntries r) }"

definition drainSanityCheck :: "rob \<Rightarrow> unit option" where
  "drainSanityCheck r = do {
     foldM (\<lambda>_ tid. do { L \<leftarrow> the_list r tid; assertion (L = []) }) () [0..<numThreads r];
     assertion (isEmpty_all r)
   }"

definition takeOverFrom :: "rob \<Rightarrow> rob" where
  "takeOverFrom r = resetState r"

definition resetEntries :: "rob \<Rightarrow> rob option" where
  "resetEntries r =
     (if robPolicy r \<noteq> Dynamic \<or> numThreads r > 1 then do {
        let active_threads = length (activeThreads r);
        m \<leftarrow> foldM (\<lambda>m tid.
               if robPolicy r = Partitioned then vec_set m tid (numEntries r div of_nat active_threads)
               else if robPolicy r = Threshold \<and> active_threads = 1 then vec_set m tid (numEntries r)
               else Some m) (maxEntries r) (activeThreads r);
        Some (r\<lparr>maxEntries := m\<rparr>)
      }
      else Some r)"

definition entryAmount :: "rob \<Rightarrow> nat \<Rightarrow> int option" where
  "entryAmount r num_threads =
     (if robPolicy r = Partitioned then do {
        assertion (num_threads \<noteq> 0);
        Some (sint (numEntries r div of_nat num_threads))
      } else Some 0)"

definition countInsts_thread :: "rob \<Rightarrow> ThreadID \<Rightarrow> int option" where
  "countInsts_thread r tid = do { L \<leftarrow> the_list r tid; Some (int (length L)) }"

definition countInsts :: "rob \<Rightarrow> int option" where
  "countInsts r = foldM (\<lambda>total tid. do { n \<leftarrow> countInsts_thread r tid; Some (total + n) }) 0 [0..<numThreads r]"

definition numFreeEntries :: "rob \<Rightarrow> 32 word" where
  "numFreeEntries r = numEntries r - of_int (numInstsInROB r)"

definition numFreeEntries_thread :: "rob \<Rightarrow> ThreadID \<Rightarrow> 32 word option" where
  "numFreeEntries_thread r tid = do {
     m \<leftarrow> vec_get (maxEntries r) tid;
     n \<leftarrow> vec_get (threadEntries r) tid;
     Some (m - n)
   }"

section \<open>Insertion\<close>

text \<open>
  The three nested loops that record, for each source register of a new
  instruction, the instruction that produces it. Register index 16 is the zero
  register of the simulated instruction set.
\<close>

definition link_dest :: "DynInstPtr \<Rightarrow> DynInstPtr \<Rightarrow> nat \<Rightarrow> inst_heap \<Rightarrow> nat \<Rightarrow> inst_heap option" where
  "link_dest inst prevInst i h j = do {
     s \<leftarrow> vec_get (srcRegIdx (h inst)) i;
     d \<leftarrow> vec_get (destRegIdx (h prevInst)) j;
     if s = d then modifyM inst (setArgProducer i prevInst) h else Some h
   }"

definition link_src :: "DynInstPtr \<Rightarrow> DynInstPtr \<Rightarrow> inst_heap \<Rightarrow> nat \<Rightarrow> inst_heap option" where
  "link_src inst prevInst h i = do {
     r \<leftarrow> vec_get (si_srcRegs (staticInst (h inst))) i;
     if regIdx r = 16 then Some h
     else foldM (link_dest inst prevInst i) h [0..<numDestRegs (h prevInst)]
   }"

definition link_prev :: "DynInstPtr \<Rightarrow> inst_heap \<Rightarrow> DynInstPtr \<Rightarrow> inst_heap option" where
  "link_prev inst h prevInst = foldM (link_src inst prevInst) h [0..<numSrcRegs (h inst)]"

definition insertInst :: "DynInstPtr \<Rightarrow> rob \<times> inst_heap \<Rightarrow> (rob \<times> inst_heap) option" where
  "insertInst inst s = do {
     let (r, h) = s;
     let r = r\<lparr>robWrites := robWrites r + 1\<rparr>;
     assertion (of_int (numInstsInROB r) \<noteq> numEntries r);
     let tid = threadNumber (h inst);
     L \<leftarrow> the_list r tid;
     h \<leftarrow> foldM (link_prev inst) h L;
     let L = L @ [inst];
     lists \<leftarrow> vec_set (instList r) tid L;
     let r = r\<lparr>instList := lists\<rparr>;
     r \<leftarrow> (if numInstsInROB r = 0 then do {
             assertion (hd L = inst);
             Some (r\<lparr>head := Some (hd L)\<rparr>)
           } else Some r);
     let r = r\<lparr>tail := Some (last L)\<rparr>;
     let h = modify inst (set_status RobEntry) h;
     n \<leftarrow> vec_get (threadEntries r) tid;
     te \<leftarrow> vec_set (threadEntries r) tid (n + 1);
     let r = r\<lparr>numInstsInROB := numInstsInROB r + 1, threadEntries := te\<rparr>;
     assertion (tail r = Some inst);
     Some (r, h)
   }"

section \<open>Head and tail\<close>

text \<open>
  The loops over the active threads that find the oldest head and the youngest
  tail; the accumulator is the candidate iterator with its sequence number.
\<close>

definition head_step ::
  "inst_heap \<Rightarrow> rob \<Rightarrow> (DynInstPtr \<times> InstSeqNum) option \<Rightarrow> ThreadID \<Rightarrow> (DynInstPtr \<times> InstSeqNum) option option" where
  "head_step h r best tid = do {
     L \<leftarrow> the_list r tid;
     case L of
       [] \<Rightarrow> Some best
     | p # _ \<Rightarrow>
         (case best of
            None \<Rightarrow> Some (Some (p, seqNum (h p)))
          | Some (q, lowest_num) \<Rightarrow>
              Some (if seqNum (h p) < lowest_num then Some (p, seqNum (h p)) else Some (q, lowest_num)))
   }"

definition updateHead :: "inst_heap \<Rightarrow> rob \<Rightarrow> rob option" where
  "updateHead h r = do {
     best \<leftarrow> foldM (head_step h r) None (activeThreads r);
     Some (r\<lparr>head := map_option fst best\<rparr>)
   }"

definition tail_step :: "inst_heap \<Rightarrow> rob \<Rightarrow> DynInstPtr option \<Rightarrow> ThreadID \<Rightarrow> DynInstPtr option option" where
  "tail_step h r best tid = do {
     L \<leftarrow> the_list r tid;
     if L = [] then Some best
     else
       (case best of
          None \<Rightarrow> Some (Some (last L))
        | Some q \<Rightarrow> Some (if seqNum (h (last L)) > seqNum (h q) then Some (last L) else Some q))
   }"

definition updateTail :: "inst_heap \<Rightarrow> rob \<Rightarrow> rob option" where
  "updateTail h r = do {
     best \<leftarrow> foldM (tail_step h r) None (activeThreads r);
     Some (r\<lparr>tail := best\<rparr>)
   }"

section \<open>Retirement\<close>

definition clear_producer :: "DynInstPtr \<Rightarrow> DynInstPtr \<Rightarrow> inst_heap \<Rightarrow> nat \<Rightarrow> inst_heap option" where
  "clear_producer head_inst nextInst h i = do {
     a \<leftarrow> getArgProducer (h nextInst) i;
     if a = Some head_inst then modifyM nextInst (clearArgProducer i) h else Some h
   }"

definition clear_next :: "DynInstPtr \<Rightarrow> inst_heap \<Rightarrow> DynInstPtr \<Rightarrow> inst_heap option" where
  "clear_next head_inst h nextInst = foldM (clear_producer head_inst nextInst) h [0..<numSrcRegs (h nextInst)]"

text \<open>
  The loop that clears the producers starts at \<^verbatim>\<open>std::next(begin())\<close> after the head
  has been erased, so it skips the new head. On an empty list \<^verbatim>\<open>std::next(end())\<close> is
  \<^verbatim>\<open>end()\<close> in the circular list of the C++ library in use, and the loop is empty.
\<close>

definition retireHead :: "ThreadID \<Rightarrow> rob \<times> inst_heap \<times> cpu_lists \<Rightarrow> (rob \<times> inst_heap \<times> cpu_lists) option" where
  "retireHead tid s = do {
     let (r, h, c) = s;
     let r = r\<lparr>robWrites := robWrites r + 1\<rparr>;
     assertion (numInstsInROB r > 0);
     L \<leftarrow> the_list r tid;
     assertion (L \<noteq> []);
     let head_inst = hd L;
     assertion (readyToCommit (h head_inst));
     n \<leftarrow> vec_get (threadEntries r) tid;
     te \<leftarrow> vec_set (threadEntries r) tid (n - 1);
     let r = r\<lparr>numInstsInROB := numInstsInROB r - 1, threadEntries := te\<rparr>;
     let h = modify head_inst (set_status Committed \<circ> reset_status RobEntry) h;
     lists \<leftarrow> vec_set (instList r) tid (tl L);
     let r = r\<lparr>instList := lists\<rparr>;
     h \<leftarrow> foldM (clear_next head_inst) h (tl (tl L));
     h \<leftarrow> foldM (\<lambda>h i. modifyM head_inst (clearArgProducer i) h) h [0..<numSrcRegs (h head_inst)];
     r \<leftarrow> updateHead h r;
     Some (r, h, removeFrontInst head_inst c)
   }"

definition isHeadReady :: "ThreadID \<Rightarrow> rob \<times> inst_heap \<Rightarrow> (bool \<times> rob) option" where
  "isHeadReady tid s = do {
     let (r, h) = s;
     let r = r\<lparr>robReads := robReads r + 1\<rparr>;
     n \<leftarrow> vec_get (threadEntries r) tid;
     if n \<noteq> 0 then do {
       L \<leftarrow> the_list r tid;
       assertion (L \<noteq> []);
       Some (readyToCommit (h (hd L)) \<and> isLoadSafeToCommit (h (hd L)), r)
     } else Some (False, r)
   }"

fun canCommit_loop :: "inst_heap \<Rightarrow> rob \<Rightarrow> ThreadID list \<Rightarrow> (bool \<times> rob) option" where
  "canCommit_loop h r [] = Some (False, r)"
| "canCommit_loop h r (tid # tids) = do {
     (b, r') \<leftarrow> isHeadReady tid (r, h);
     if b then Some (True, r') else canCommit_loop h r' tids
   }"

definition canCommit :: "rob \<times> inst_heap \<Rightarrow> (bool \<times> rob) option" where
  "canCommit s = (let (r, h) = s in canCommit_loop h r (activeThreads r))"

section \<open>Squashing\<close>

text \<open>
  The loop of \<^verbatim>\<open>doSquash\<close>: at most \<open>n\<close> more instructions are marked. The result is
  \<open>Some (True, \<dots>)\<close> when the loop left through the \<^verbatim>\<open>return\<close> at the head of the list;
  the second component is \<^verbatim>\<open>robTailUpdate\<close>.
\<close>

definition mark_squashed :: "DynInst \<Rightarrow> DynInst" where
  "mark_squashed = set_status CanCommit \<circ> set_flag HasPendingSquash False \<circ> set_status Squashed"

fun squash_loop ::
  "nat \<Rightarrow> DynInstPtr list \<Rightarrow> InstSeqNum \<Rightarrow> bool \<Rightarrow> DynInstPtr option \<Rightarrow> inst_heap \<Rightarrow>
   (bool \<times> bool \<times> DynInstPtr option \<times> inst_heap) option" where
  "squash_loop 0 L sq upd it h = Some (False, upd, it, h)"
| "squash_loop (Suc n) L sq upd it h =
     (if it = None then Some (False, upd, it, h)
      else do {
        p \<leftarrow> deref L it;
        if seqNum (h p) > sq then do {
          let h = modify p mark_squashed h;
          if p = hd L then Some (True, upd, None, h)
          else do {
            let upd = (upd \<or> p = last L);
            it' \<leftarrow> pred_in p L;
            squash_loop n L sq upd (Some it') h
          }
        } else Some (False, upd, it, h)
      })"

definition squash_done :: "ThreadID \<Rightarrow> rob \<Rightarrow> rob" where
  "squash_done tid r =
     r\<lparr>squashIt := (squashIt r)[tid := None], doneSquashing := (doneSquashing r)[tid := True]\<rparr>"

definition squash_finish ::
  "ThreadID \<Rightarrow> DynInstPtr list \<Rightarrow> InstSeqNum \<Rightarrow> rob \<Rightarrow> bool \<times> bool \<times> DynInstPtr option \<times> inst_heap \<Rightarrow>
   (rob \<times> inst_heap) option" where
  "squash_finish tid L sq r res =
     (let (ret, upd, it, h) = res in
      if ret then Some (squash_done tid r, h)
      else do {
        let r = r\<lparr>squashIt := (squashIt r)[tid := it]\<rparr>;
        p \<leftarrow> deref L it;
        let r = (if seqNum (h p) \<le> sq then squash_done tid r else r);
        r \<leftarrow> (if upd then updateTail h r else Some r);
        Some (r, h)
      })"

definition doSquash :: "ThreadID \<Rightarrow> rob \<times> inst_heap \<Rightarrow> (rob \<times> inst_heap) option" where
  "doSquash tid s = do {
     let (r, h) = s;
     let r = r\<lparr>robWrites := robWrites r + 1\<rparr>;
     L \<leftarrow> the_list r tid;
     it \<leftarrow> vec_get (squashIt r) tid;
     sq \<leftarrow> vec_get (squashedSeqNum r) tid;
     p \<leftarrow> deref L it;
     if seqNum (h p) < sq then Some (squash_done tid r, h)
     else do {
       res \<leftarrow> squash_loop (unat (squashWidth r)) L sq False it h;
       squash_finish tid L sq r res
     }
   }"

definition rob_squash :: "InstSeqNum \<Rightarrow> ThreadID \<Rightarrow> rob \<times> inst_heap \<Rightarrow> (rob \<times> inst_heap) option" where
  "rob_squash squash_num tid s = do {
     let (r, h) = s;
     e \<leftarrow> isEmpty_thread r tid;
     if e then Some (r, h)
     else do {
       st \<leftarrow> vec_set (robStatus r) tid ROBSquashing;
       ds \<leftarrow> vec_set (doneSquashing r) tid False;
       sn \<leftarrow> vec_set (squashedSeqNum r) tid squash_num;
       let r = r\<lparr>robStatus := st, doneSquashing := ds, squashedSeqNum := sn\<rparr>;
       L \<leftarrow> the_list r tid;
       if L \<noteq> [] then do {
         si \<leftarrow> vec_set (squashIt r) tid (Some (last L));
         doSquash tid (r\<lparr>squashIt := si\<rparr>, h)
       } else Some (r, h)
     }
   }"

section \<open>Reading\<close>

text \<open>\<open>None\<close> inside the result is \<^verbatim>\<open>dummyInst\<close> or \<^verbatim>\<open>NULL\<close>.\<close>

definition readHeadInst :: "ThreadID \<Rightarrow> rob \<times> inst_heap \<Rightarrow> DynInstPtr option option" where
  "readHeadInst tid s = do {
     let (r, h) = s;
     n \<leftarrow> vec_get (threadEntries r) tid;
     if n \<noteq> 0 then do {
       L \<leftarrow> the_list r tid;
       assertion (L \<noteq> []);
       assertion (isInROB (h (hd L)));
       Some (Some (hd L))
     } else Some None
   }"

definition readTailInst :: "ThreadID \<Rightarrow> rob \<Rightarrow> DynInstPtr option" where
  "readTailInst tid r = do {
     L \<leftarrow> the_list r tid;
     assertion (L \<noteq> []);
     Some (last L)
   }"

definition findInst :: "ThreadID \<Rightarrow> InstSeqNum \<Rightarrow> rob \<times> inst_heap \<Rightarrow> DynInstPtr option option" where
  "findInst tid squash_inst s = do {
     let (r, h) = s;
     L \<leftarrow> the_list r tid;
     Some (find (\<lambda>p. seqNum (h p) = squash_inst) L)
   }"

end
