(* ===== verification/ROB_Props.thy ===== *)
theory ROB_Props
  imports ROB_Taint
begin

text \<open>
  Correctness of the reorder buffer. \<open>rob_wf\<close> is the invariant of the buffer and its
  instructions; the sections follow the operations: insertion records the youngest
  producer of each operand, retirement, squashing, the visibility point, and taint,
  which is shown to be reachability from unsafe loads along uncommitted producers.
\<close>

section \<open>The invariant\<close>

definition inst_wf :: "DynInst \<Rightarrow> bool" where
  "inst_wf i \<longleftrightarrow> numSrcRegs i \<le> length (argProducers i) \<and> numSrcRegs i \<le> length (srcRegIdx i) \<and>
     numDestRegs i \<le> length (destRegIdx i) \<and> (isMemRef i \<longrightarrow> isLoad i \<or> isStore i)"

text \<open>A producer is of the same thread and either has committed or is an older entry.\<close>

definition args_ok :: "inst_heap \<Rightarrow> ThreadID \<Rightarrow> DynInstPtr set \<Rightarrow> DynInstPtr \<Rightarrow> bool" where
  "args_ok h t S p \<longleftrightarrow> (\<forall>i<numSrcRegs (h p). \<forall>q. argProducers (h p) ! i = Some q \<longrightarrow>
     threadNumber (h q) = t \<and> (isCommitted (h q) \<or> q \<in> S))"

fun producers_ok :: "inst_heap \<Rightarrow> ThreadID \<Rightarrow> DynInstPtr set \<Rightarrow> DynInstPtr list \<Rightarrow> bool" where
  "producers_ok h t S [] \<longleftrightarrow> True"
| "producers_ok h t S (p # L) \<longleftrightarrow> args_ok h t S p \<and> producers_ok h t (insert p S) L"

definition list_wf :: "inst_heap \<Rightarrow> ThreadID \<Rightarrow> DynInstPtr list \<Rightarrow> bool" where
  "list_wf h t L \<longleftrightarrow>
     sorted_wrt (\<lambda>p q. seqNum (h p) < seqNum (h q)) L \<and>
     (\<forall>p\<in>set L. threadNumber (h p) = t \<and> isInROB (h p) \<and> \<not> isCommitted (h p) \<and> inst_wf (h p)) \<and>
     producers_ok h t {} L"

definition rob_wf :: "rob \<Rightarrow> inst_heap \<Rightarrow> bool" where
  "rob_wf r h \<longleftrightarrow>
     length (robStatus r) = length (instList r) \<and> length (threadEntries r) = length (instList r) \<and>
     length (squashIt r) = length (instList r) \<and> length (squashedSeqNum r) = length (instList r) \<and>
     length (doneSquashing r) = length (instList r) \<and> numThreads r \<le> length (instList r) \<and>
     distinct (activeThreads r) \<and> (\<forall>t\<in>set (activeThreads r). t < length (instList r)) \<and>
     (\<forall>t<length (instList r). unat (threadEntries r ! t) = length (instList r ! t) \<and>
        list_wf h t (instList r ! t)) \<and>
     numInstsInROB r = int (sum_list (map length (instList r))) \<and> numInstsInROB r \<le> uint (numEntries r)"

lemma list_wfD:
  assumes "list_wf h t L"
  shows "sorted_wrt (\<lambda>p q. seqNum (h p) < seqNum (h q)) L" "producers_ok h t {} L"
    and "p \<in> set L \<Longrightarrow> threadNumber (h p) = t" "p \<in> set L \<Longrightarrow> isInROB (h p)"
    and "p \<in> set L \<Longrightarrow> \<not> isCommitted (h p)" "p \<in> set L \<Longrightarrow> inst_wf (h p)"
  using assms by (auto simp: list_wf_def)

lemma list_wf_distinct: "list_wf h t L \<Longrightarrow> distinct L"
  unfolding list_wf_def
  by (metis (mono_tags, lifting) less_irrefl sorted_wrt_iff_nth_less distinct_conv_nth linorder_neqE_nat)

lemma rob_wf_list:
  assumes "rob_wf r h" "t < length (instList r)"
  shows "the_list r t = Some (instList r ! t)" "list_wf h t (instList r ! t)"
    "unat (threadEntries r ! t) = length (instList r ! t)"
  using assms by (auto simp: rob_wf_def the_list_def)

lemma rob_wf_active: "rob_wf r h \<Longrightarrow> t \<in> set (activeThreads r) \<Longrightarrow> t < length (instList r)"
  by (simp add: rob_wf_def)

text \<open>What the invariant reads of an instruction.\<close>

definition frame_eq :: "DynInst \<Rightarrow> DynInst \<Rightarrow> bool" where
  "frame_eq i j \<longleftrightarrow> seqNum j = seqNum i \<and> staticInst j = staticInst i \<and> threadNumber j = threadNumber i \<and>
     argProducers j = argProducers i \<and> srcRegIdx j = srcRegIdx i \<and> destRegIdx j = destRegIdx i \<and>
     status j RobEntry = status i RobEntry \<and> status j Committed = status i Committed"

definition heap_frame :: "inst_heap \<Rightarrow> inst_heap \<Rightarrow> bool" where
  "heap_frame h h' \<longleftrightarrow> (\<forall>p. frame_eq (h p) (h' p))"

lemma heap_frame_refl [simp]: "heap_frame h h"
  by (simp add: heap_frame_def frame_eq_def)

lemma heap_frame_trans: "heap_frame h h' \<Longrightarrow> heap_frame h' h'' \<Longrightarrow> heap_frame h h''"
  by (simp add: heap_frame_def frame_eq_def)

lemma heap_frame_modify: "heap_frame h h' \<Longrightarrow> frame_eq (h' p) (f (h' p)) \<Longrightarrow> heap_frame h (modify p f h')"
  by (auto simp: heap_frame_def frame_eq_def modify_apply)

lemma heap_frame_producers:
  "heap_frame h h' \<Longrightarrow> producers_ok h' t S L = producers_ok h t S L"
  by (induction L arbitrary: S) (auto simp: heap_frame_def frame_eq_def args_ok_def)

lemma heap_frame_list_wf: "heap_frame h h' \<Longrightarrow> list_wf h' t L = list_wf h t L"
  by (simp add: list_wf_def heap_frame_producers) (simp add: heap_frame_def frame_eq_def inst_wf_def)

lemma heap_frame_rob_wf: "heap_frame h h' \<Longrightarrow> rob_wf r h' = rob_wf r h"
  by (simp add: rob_wf_def heap_frame_list_wf)

lemma producers_ok_mono: "producers_ok h t S L \<Longrightarrow> S \<subseteq> S' \<Longrightarrow> producers_ok h t S' L"
proof (induction L arbitrary: S S')
  case (Cons p L)
  moreover have "insert p S \<subseteq> insert p S'" using Cons.prems(2) by blast
  ultimately show ?case by (auto simp: args_ok_def) blast
qed simp

lemma producers_ok_append:
  "producers_ok h t S (L @ M) \<longleftrightarrow> producers_ok h t S L \<and> producers_ok h t (S \<union> set L) M"
  by (induction L arbitrary: S) (auto simp: insert_commute)

section \<open>Insertion\<close>

text \<open>Whether \<open>q\<close> writes the \<open>i\<close>-th operand of \<open>inst\<close>, which must not be the zero register.\<close>

definition produces :: "inst_heap \<Rightarrow> DynInstPtr \<Rightarrow> nat \<Rightarrow> DynInstPtr \<Rightarrow> bool" where
  "produces h inst i q \<longleftrightarrow> i < numSrcRegs (h inst) \<and> regIdx (si_srcRegs (staticInst (h inst)) ! i) \<noteq> 16 \<and>
     srcRegIdx (h inst) ! i \<in> set (take (numDestRegs (h q)) (destRegIdx (h q)))"

definition with_args :: "DynInstPtr \<Rightarrow> DynInstPtr option list \<Rightarrow> inst_heap \<Rightarrow> inst_heap" where
  "with_args p a h = modify p (\<lambda>i. i\<lparr>argProducers := a\<rparr>) h"

lemma with_args_simps [simp]:
  "argProducers (with_args p a h p) = a" "q \<noteq> p \<Longrightarrow> with_args p a h q = h q"
  "staticInst (with_args p a h q) = staticInst (h q)" "srcRegIdx (with_args p a h q) = srcRegIdx (h q)"
  "destRegIdx (with_args p a h q) = destRegIdx (h q)" "seqNum (with_args p a h q) = seqNum (h q)"
  "threadNumber (with_args p a h q) = threadNumber (h q)" "status (with_args p a h q) = status (h q)"
  "with_args p a (with_args p b h) = with_args p a h" "with_args p (argProducers (h p)) h = h"
  by (auto simp: with_args_def modify_def)

lemma link_dest_eq:
  assumes "i < length (srcRegIdx (h inst))" "i < length (argProducers (h inst))" "j < length (destRegIdx (h q))"
  shows "link_dest inst q i h j =
    Some (if srcRegIdx (h inst) ! i = destRegIdx (h q) ! j
          then with_args inst ((argProducers (h inst))[i := Some q]) h else h)"
  using assms by (simp add: link_dest_def modifyM_def setArgProducer_def with_args_def modify_def)

lemma link_dest_loop:
  assumes "i < length (srcRegIdx (h inst))" "i < length (argProducers (h inst))"
    "n \<le> length (destRegIdx (h q))"
  shows "foldM (link_dest inst q i) h [0..<n] =
    Some (if srcRegIdx (h inst) ! i \<in> set (take n (destRegIdx (h q)))
          then with_args inst ((argProducers (h inst))[i := Some q]) h else h)"
  using assms(3)
proof (induction n)
  case (Suc n)
  then show ?case
    using assms(1,2) by (auto simp: foldM_append link_dest_eq take_Suc_conv_app_nth)
qed simp

lemma link_src_eq:
  assumes "inst_wf (h inst)" "inst_wf (h q)" "inst \<noteq> q" "i < numSrcRegs (h inst)"
  shows "link_src inst q h i =
    Some (if produces h inst i q then with_args inst ((argProducers (h inst))[i := Some q]) h else h)"
  using assms by (simp add: link_src_def link_dest_loop inst_wf_def produces_def)

lemma link_src_loop:
  assumes "inst_wf (h inst)" "inst_wf (h q)" "inst \<noteq> q" "n \<le> numSrcRegs (h inst)"
  shows "foldM (link_src inst q) h [0..<n] =
    Some (with_args inst (map (\<lambda>i. if i < n \<and> produces h inst i q then Some q else argProducers (h inst) ! i)
            [0..<length (argProducers (h inst))]) h)"
  using assms(4)
proof (induction n)
  case 0
  then show ?case by (simp add: map_nth)
next
  case (Suc n)
  let ?a = "\<lambda>n. map (\<lambda>i. if i < n \<and> produces h inst i q then Some q else argProducers (h inst) ! i)
            [0..<length (argProducers (h inst))]"
  let ?h = "with_args inst (?a n) h"
  have "inst_wf (?h inst)" "inst_wf (?h q)" "n < numSrcRegs (?h inst)"
    using assms Suc.prems by (auto simp: inst_wf_def with_args_def)
  then have "link_src inst q ?h n =
    Some (if produces ?h inst n q then with_args inst ((?a n)[n := Some q]) ?h else ?h)"
    using link_src_eq [of ?h inst q n] assms(3) by simp
  moreover have "produces ?h inst n q = produces h inst n q" by (simp add: produces_def)
  moreover have "?a (Suc n) = (if produces h inst n q then (?a n)[n := Some q] else ?a n)"
    by (auto intro!: nth_equalityI simp: nth_upd_in less_Suc_eq)
  ultimately show ?case
    using Suc by (simp add: foldM_append)
qed

lemma link_prev_eq:
  assumes "inst_wf (h inst)" "inst_wf (h q)" "inst \<noteq> q"
  shows "link_prev inst h q =
    Some (with_args inst (map (\<lambda>i. if produces h inst i q then Some q else argProducers (h inst) ! i)
            [0..<length (argProducers (h inst))]) h)"
  using link_src_loop [OF assms, of "numSrcRegs (h inst)"]
  by (simp add: link_prev_def produces_def cong: map_cong conj_cong)

text \<open>The producer of an operand is the youngest older instruction that writes it.\<close>

definition youngest_producer :: "inst_heap \<Rightarrow> DynInstPtr \<Rightarrow> nat \<Rightarrow> DynInstPtr list \<Rightarrow> DynInstPtr option" where
  "youngest_producer h inst i L = find (produces h inst i) (rev L)"

lemma link_all_eq:
  assumes "inst_wf (h inst)" "\<forall>q\<in>set L. inst_wf (h q)" "inst \<notin> set L"
  shows "foldM (link_prev inst) h L =
    Some (with_args inst (map (\<lambda>i. case youngest_producer h inst i L of
              None \<Rightarrow> argProducers (h inst) ! i | Some q \<Rightarrow> Some q)
            [0..<length (argProducers (h inst))]) h)"
  using assms(2,3)
proof (induction L rule: rev_induct)
  case Nil
  then show ?case by (simp add: youngest_producer_def map_nth)
next
  case (snoc q L)
  let ?a = "map (\<lambda>i. case youngest_producer h inst i L of
              None \<Rightarrow> argProducers (h inst) ! i | Some q \<Rightarrow> Some q) [0..<length (argProducers (h inst))]"
  let ?h = "with_args inst ?a h"
  have p: "produces ?h inst i q = produces h inst i q" for i by (simp add: produces_def)
  have "inst_wf (?h inst)" "inst_wf (?h q)"
    using assms(1) snoc.prems by (auto simp: inst_wf_def with_args_def)
  then show ?case
    using snoc link_prev_eq [of ?h inst q] p
    by (auto simp: foldM_append youngest_producer_def intro!: arg_cong [where f = "\<lambda>a. with_args inst a h"]
        split: option.split)
qed

definition fresh_inst :: "rob \<Rightarrow> inst_heap \<Rightarrow> DynInstPtr \<Rightarrow> bool" where
  "fresh_inst r h p \<longleftrightarrow> inst_wf (h p) \<and> \<not> isCommitted (h p) \<and> threadNumber (h p) < length (instList r) \<and>
     (\<forall>i<numSrcRegs (h p). argProducers (h p) ! i = None) \<and>
     (\<forall>L\<in>set (instList r). p \<notin> set L) \<and>
     (\<forall>q\<in>set (instList r ! threadNumber (h p)). seqNum (h q) < seqNum (h p))"

lemma sum_list_length_update:
  "t < length xs \<Longrightarrow> sum_list (map length (xs[t := ys])) + length (xs ! t) = sum_list (map length xs) + length ys"
  by (induction xs arbitrary: t) (auto split: nat.split)

lemma length_le_sum_list: "t < length xs \<Longrightarrow> length (xs ! t) \<le> sum_list (map length xs)"
  by (metis elem_le_sum_list length_map nth_map)

lemma youngest_producer_SomeD:
  "youngest_producer h inst i L = Some q \<Longrightarrow> q \<in> set L \<and> produces h inst i q"
  by (auto simp: youngest_producer_def find_Some_iff) (metis nth_mem set_rev length_rev)

lemma insert_list_wf:
  assumes L: "list_wf h t L" and p: "inst_wf (h p)" "\<not> isCommitted (h p)" "threadNumber (h p) = t" "p \<notin> set L"
    and sn: "\<forall>q\<in>set L. seqNum (h q) < seqNum (h p)"
    and a: "length a = length (argProducers (h p))" "\<forall>i<numSrcRegs (h p). a ! i = youngest_producer h p i L"
  defines "h' \<equiv> modify p (set_status RobEntry) (with_args p a h)"
  shows "list_wf h' t (L @ [p])"
proof -
  have other: "h' q = h q" if "q \<in> set L" for q using that p(4) by (auto simp: h'_def modify_apply)
  have q: "threadNumber (h' q) = threadNumber (h q)" "isCommitted (h' q) = isCommitted (h q)" for q
    by (auto simp: h'_def modify_apply)
  have "producers_ok h' t S M" if "producers_ok h t S M" "set M \<subseteq> set L" for S M
    using that by (induction M arbitrary: S) (auto simp: args_ok_def other q)
  moreover have "args_ok h' t (set L) p"
    using a(2) list_wfD(3) [OF L]
    by (auto simp: args_ok_def h'_def modify_apply dest!: youngest_producer_SomeD)
  ultimately have "producers_ok h' t {} (L @ [p])"
    using list_wfD(2) [OF L] by (simp add: producers_ok_append)
  moreover have "sorted_wrt (\<lambda>p q. seqNum (h' p) < seqNum (h' q)) (L @ [p])"
  proof -
    have "seqNum (h' q) = seqNum (h q)" for q by (auto simp: h'_def modify_apply)
    then show ?thesis using sn list_wfD(1) [OF L] by (simp add: sorted_wrt_append)
  qed
  moreover have "threadNumber (h' p) = t \<and> isInROB (h' p) \<and> \<not> isCommitted (h' p) \<and> inst_wf (h' p)"
    using p a(1) by (auto simp: h'_def inst_wf_def)
  ultimately show ?thesis
    using L other by (auto simp: list_wf_def)
qed

lemma other_list_wf:
  assumes "list_wf h t L" "\<forall>q\<in>set L. h' q = h q"
    "\<forall>q. threadNumber (h' q) = threadNumber (h q) \<and> (isCommitted (h q) \<longrightarrow> isCommitted (h' q))"
  shows "list_wf h' t L"
proof -
  have "producers_ok h' t S M" if "producers_ok h t S M" "set M \<subseteq> set L" for S M
    using that assms(2,3) by (induction M arbitrary: S) (auto simp: args_ok_def)
  moreover have "sorted_wrt (\<lambda>p q. seqNum (h' p) < seqNum (h' q)) L"
    using list_wfD(1) [OF assms(1)] assms(2) by (simp add: sorted_wrt_iff_nth_less)
  ultimately show ?thesis using assms(1,2) by (auto simp: list_wf_def)
qed

lemma insertInst_eq:
  assumes "rob_wf r h" "fresh_inst r h p" "numInstsInROB r < uint (numEntries r)"
  defines "t \<equiv> threadNumber (h p)"
  defines "L \<equiv> instList r ! t"
  defines "a \<equiv> map (\<lambda>i. case youngest_producer h p i L of None \<Rightarrow> argProducers (h p) ! i | Some q \<Rightarrow> Some q)
            [0..<length (argProducers (h p))]"
  shows "insertInst p (r, h) = Some
    (r\<lparr>robWrites := robWrites r + 1, instList := (instList r)[t := L @ [p]],
       head := (if numInstsInROB r = 0 then Some p else head r), tail := Some p,
       numInstsInROB := numInstsInROB r + 1, threadEntries := (threadEntries r)[t := threadEntries r ! t + 1]\<rparr>,
     modify p (set_status RobEntry) (with_args p a h))"
proof -
  have t: "t < length (instList r)" using assms(2) by (simp add: fresh_inst_def t_def)
  note wf = rob_wf_list [OF assms(1) t, folded L_def]
  have n: "numInstsInROB r = int (sum_list (map length (instList r)))" "length (threadEntries r) = length (instList r)"
    using assms(1) by (simp_all add: rob_wf_def)
  have full: "of_int (numInstsInROB r) \<noteq> numEntries r"
  proof
    assume "of_int (numInstsInROB r) = numEntries r"
    then have "uint (numEntries r) = uint (word_of_int (numInstsInROB r) :: 32 word)" by simp
    also have "\<dots> = take_bit 32 (numInstsInROB r)" by (simp add: uint_word_of_int_eq)
    also have "\<dots> \<le> numInstsInROB r" using n(1) by (simp add: take_bit_int_less_eq_self_iff)
    finally show False using assms(3) by simp
  qed
  have links: "foldM (link_prev p) h L = Some (with_args p a h)"
    unfolding a_def using assms(2) list_wfD(6) [OF wf(2)] t
    by (intro link_all_eq) (auto simp: fresh_inst_def L_def t_def)
  have "L = []" if "numInstsInROB r = 0"
    using that n(1) nth_mem [OF t] by (simp add: L_def)
  then show ?thesis
    using full wf t n(2) links unfolding insertInst_def t_def L_def
    by (auto simp: Let_def the_list_def)
qed

lemma insertInst_wf:
  assumes "rob_wf r h" "fresh_inst r h p" "numInstsInROB r < uint (numEntries r)"
    and "insertInst p (r, h) = Some (r', h')"
  shows "rob_wf r' h'" "\<forall>q. q \<noteq> p \<longrightarrow> h' q = h q"
    "instList r' = (instList r)[threadNumber (h p) := instList r ! threadNumber (h p) @ [p]]"
    "\<forall>i<numSrcRegs (h p). argProducers (h' p) ! i = youngest_producer h p i (instList r ! threadNumber (h p))"
proof -
  define t where "t = threadNumber (h p)"
  define L where "L = instList r ! t"
  define a where "a = map (\<lambda>i. case youngest_producer h p i L of None \<Rightarrow> argProducers (h p) ! i | Some q \<Rightarrow> Some q)
            [0..<length (argProducers (h p))]"
  have eq: "(r', h') = (r\<lparr>robWrites := robWrites r + 1, instList := (instList r)[t := L @ [p]],
       head := (if numInstsInROB r = 0 then Some p else head r), tail := Some p, numInstsInROB := numInstsInROB r + 1,
       threadEntries := (threadEntries r)[t := threadEntries r ! t + 1]\<rparr>,
     modify p (set_status RobEntry) (with_args p a h))"
    using insertInst_eq [OF assms(1-3)] assms(4) by (simp add: t_def L_def a_def)
  then have h': "h' = modify p (set_status RobEntry) (with_args p a h)" by simp
  have t: "t < length (instList r)" using assms(2) by (simp add: fresh_inst_def t_def)
  note wf = rob_wf_list [OF assms(1) t, folded L_def]
  have fr: "inst_wf (h p)" "\<not> isCommitted (h p)" "p \<notin> set L" "\<forall>q\<in>set L. seqNum (h q) < seqNum (h p)"
    "\<forall>i<numSrcRegs (h p). argProducers (h p) ! i = None"
    using assms(2) t by (auto simp: fresh_inst_def t_def L_def)
  have a: "length a = length (argProducers (h p))" "\<forall>i<numSrcRegs (h p). a ! i = youngest_producer h p i L"
    using fr(1,5) by (auto simp: a_def inst_wf_def split: option.split)
  have lw: "list_wf h' t (L @ [p])"
    unfolding h' by (rule insert_list_wf [OF wf(2) fr(1,2) _ fr(3,4) a]) (simp add: t_def)
  have ow: "list_wf h' u (instList r ! u)" if "u < length (instList r)" "u \<noteq> t" for u
  proof (rule other_list_wf)
    show "list_wf h u (instList r ! u)" using rob_wf_list [OF assms(1) that(1)] by simp
    show "\<forall>q\<in>set (instList r ! u). h' q = h q"
      using assms(2) that by (auto simp: h' modify_apply fresh_inst_def)
  qed (auto simp: h' modify_apply)
  have "length L < 2 ^ 32 - 1"
    using length_le_sum_list [OF t] assms(1,3) uint_bounded [of "numEntries r"] by (simp add: rob_wf_def L_def)
  then have "unat (threadEntries r ! t + 1) = length L + 1"
    using wf(3) by (simp add: unat_word_ariths)
  moreover have "int (sum_list (map length ((instList r)[t := L @ [p]]))) = numInstsInROB r + 1"
    using sum_list_length_update [OF t, of "L @ [p]"] assms(1) by (simp add: rob_wf_def L_def)
  ultimately show "rob_wf r' h'"
    using assms(1,3) eq lw ow t by (auto simp: rob_wf_def nth_upd_in)
  show "\<forall>q. q \<noteq> p \<longrightarrow> h' q = h q" by (simp add: h')
  show "instList r' = (instList r)[threadNumber (h p) := instList r ! threadNumber (h p) @ [p]]"
    using eq by (simp add: t_def L_def)
  show "\<forall>i<numSrcRegs (h p). argProducers (h' p) ! i = youngest_producer h p i (instList r ! threadNumber (h p))"
    using a(2) by (simp add: h' t_def L_def)
qed

section \<open>Retirement\<close>

text \<open>Producers are forgotten, nothing else changes.\<close>

definition args_shrink :: "inst_heap \<Rightarrow> inst_heap \<Rightarrow> bool" where
  "args_shrink h h' \<longleftrightarrow> (\<forall>q. \<exists>a. h' q = (h q)\<lparr>argProducers := a\<rparr> \<and>
     list_all2 (\<lambda>a b. b = a \<or> b = None) (argProducers (h q)) a)"

lemma args_shrink_refl [simp]: "args_shrink h h"
  unfolding args_shrink_def
proof
  fix q
  show "\<exists>a. h q = (h q)\<lparr>argProducers := a\<rparr> \<and> list_all2 (\<lambda>a b. b = a \<or> b = None) (argProducers (h q)) a"
    by (rule exI [of _ "argProducers (h q)"]) (simp add: list.rel_refl)
qed

lemma args_shrinkE:
  assumes "args_shrink h h'"
  obtains a where "h' q = (h q)\<lparr>argProducers := a\<rparr>"
    "list_all2 (\<lambda>a b. b = a \<or> b = None) (argProducers (h q)) a"
  using assms unfolding args_shrink_def by blast

lemma args_shrinkD:
  assumes "args_shrink h h'"
  shows "seqNum (h' q) = seqNum (h q)" "staticInst (h' q) = staticInst (h q)"
    "threadNumber (h' q) = threadNumber (h q)" "status (h' q) = status (h q)"
    "srcRegIdx (h' q) = srcRegIdx (h q)" "destRegIdx (h' q) = destRegIdx (h q)"
    "length (argProducers (h' q)) = length (argProducers (h q))"
    "i < length (argProducers (h q)) \<Longrightarrow> argProducers (h' q) ! i = Some x \<Longrightarrow> argProducers (h q) ! i = Some x"
proof -
  obtain a where "h' q = (h q)\<lparr>argProducers := a\<rparr>"
    "list_all2 (\<lambda>a b. b = a \<or> b = None) (argProducers (h q)) a"
    using assms by (rule args_shrinkE)
  then show "seqNum (h' q) = seqNum (h q)" "staticInst (h' q) = staticInst (h q)"
    "threadNumber (h' q) = threadNumber (h q)" "status (h' q) = status (h q)"
    "srcRegIdx (h' q) = srcRegIdx (h q)" "destRegIdx (h' q) = destRegIdx (h q)"
    "length (argProducers (h' q)) = length (argProducers (h q))"
    "i < length (argProducers (h q)) \<Longrightarrow> argProducers (h' q) ! i = Some x \<Longrightarrow> argProducers (h q) ! i = Some x"
    by (auto simp: list_all2_conv_all_nth)
qed

lemma shrink_clear:
  assumes "args_shrink h h1" "i < length (argProducers (h q))"
  shows "\<exists>h2. modifyM q (clearArgProducer i) h1 = Some h2 \<and> args_shrink h h2"
proof -
  let ?h2 = "h1(q := (h1 q)\<lparr>argProducers := (argProducers (h1 q))[i := None]\<rparr>)"
  have i: "i < length (argProducers (h1 q))" using assms args_shrinkD(7) by metis
  have "\<exists>a. ?h2 p = (h p)\<lparr>argProducers := a\<rparr> \<and>
     list_all2 (\<lambda>a b. b = a \<or> b = None) (argProducers (h p)) a" for p
  proof -
    obtain a where a: "h1 p = (h p)\<lparr>argProducers := a\<rparr>"
      "list_all2 (\<lambda>a b. b = a \<or> b = None) (argProducers (h p)) a"
      using assms(1) by (rule args_shrinkE)
    then have "list_all2 (\<lambda>a b. b = a \<or> b = None) (argProducers (h p)) (a[i := None])"
      by (auto simp: list_all2_conv_all_nth nth_upd_in split: if_splits)
    with a show ?thesis by (cases "p = q") auto
  qed
  then have "args_shrink h ?h2" unfolding args_shrink_def by blast
  then show ?thesis using i by (simp add: modifyM_def clearArgProducer_def)
qed

lemma shrink_clear_all:
  assumes "args_shrink h h1" "numSrcRegs (h q) \<le> length (argProducers (h q))"
  shows "\<exists>h2. foldM (clear_producer p q) h1 [0..<numSrcRegs (h q)] = Some h2 \<and> args_shrink h h2"
    and "\<exists>h2. foldM (\<lambda>h i. modifyM q (clearArgProducer i) h) h1 [0..<numSrcRegs (h q)] = Some h2 \<and> args_shrink h h2"
proof -
  have c: "\<exists>h2. modifyM q (clearArgProducer i) h1 = Some h2 \<and> args_shrink h h2"
    if "args_shrink h h1" "i \<in> set [0..<numSrcRegs (h q)]" for h1 i
    using that assms(2) by (intro shrink_clear) auto
  show "\<exists>h2. foldM (\<lambda>h i. modifyM q (clearArgProducer i) h) h1 [0..<numSrcRegs (h q)] = Some h2 \<and> args_shrink h h2"
    using assms(1) c by (rule foldM_invariant)
  have "\<exists>h2. clear_producer p q h1 i = Some h2 \<and> args_shrink h h2"
    if "args_shrink h h1" "i \<in> set [0..<numSrcRegs (h q)]" for h1 i
    using c [OF that] that assms(2) args_shrinkD(7) [OF that(1), of q]
    by (auto simp: clear_producer_def getArgProducer_def)
  with assms(1) show "\<exists>h2. foldM (clear_producer p q) h1 [0..<numSrcRegs (h q)] = Some h2 \<and> args_shrink h h2"
    by (rule foldM_invariant)
qed

lemma clear_own:
  "foldM (\<lambda>h i. modifyM q (clearArgProducer i) h) h1 [0..<n] = Some h2 \<Longrightarrow>
   \<forall>i<n. argProducers (h2 q) ! i = None"
proof (induction n arbitrary: h2)
  case (Suc n)
  then obtain h' where "foldM (\<lambda>h i. modifyM q (clearArgProducer i) h) h1 [0..<n] = Some h'"
    "modifyM q (clearArgProducer n) h' = Some h2"
    by (auto simp: foldM_append bind_eq_Some_conv)
  with Suc.IH show ?case
    by (auto simp: modifyM_def clearArgProducer_def vec_set_Some_iff bind_eq_Some_conv less_Suc_eq)
qed simp

lemma shrink_list_wf:
  assumes "args_shrink h h'" "list_wf h t L"
  shows "list_wf h' t L"
proof -
  note d = args_shrinkD [OF assms(1)]
  have "producers_ok h' t S M" if "producers_ok h t S M" "set M \<subseteq> set L" for S M
    using that
  proof (induction M arbitrary: S)
    case (Cons p M)
    have "inst_wf (h p)" using Cons.prems(2) list_wfD(6) [OF assms(2)] by simp
    then have "argProducers (h' p) ! i = Some q \<Longrightarrow> argProducers (h p) ! i = Some q" if "i < numSrcRegs (h p)" for i q
      using d(8) that by (auto simp: inst_wf_def)
    then show ?case using Cons d by (auto simp: args_ok_def)
  qed simp
  then show ?thesis using assms(2) d by (auto simp: list_wf_def inst_wf_def)
qed

text \<open>The heads and the tails of the threads that have an instruction.\<close>

definition heads :: "rob \<Rightarrow> ThreadID list \<Rightarrow> DynInstPtr set" where
  "heads r ts = (\<lambda>t. hd (instList r ! t)) ` {t \<in> set ts. instList r ! t \<noteq> []}"

definition tails :: "rob \<Rightarrow> ThreadID list \<Rightarrow> DynInstPtr set" where
  "tails r ts = (\<lambda>t. last (instList r ! t)) ` {t \<in> set ts. instList r ! t \<noteq> []}"

lemma heads_snoc: "heads r (ts @ [t]) = (if instList r ! t = [] then heads r ts else insert (hd (instList r ! t)) (heads r ts))"
  and tails_snoc: "tails r (ts @ [t]) = (if instList r ! t = [] then tails r ts else insert (last (instList r ! t)) (tails r ts))"
  by (auto simp: heads_def tails_def)

lemma head_loop:
  assumes "\<forall>t\<in>set ts. t < length (instList r)"
  shows "\<exists>b. foldM (head_step h r) None ts = Some b \<and>
    (case b of None \<Rightarrow> heads r ts = {}
     | Some (p, n) \<Rightarrow> n = seqNum (h p) \<and> p \<in> heads r ts \<and> (\<forall>q\<in>heads r ts. seqNum (h p) \<le> seqNum (h q)))"
  using assms
proof (induction ts rule: rev_induct)
  case Nil
  then show ?case by (simp add: heads_def)
next
  case (snoc t ts)
  then obtain b where b: "foldM (head_step h r) None ts = Some b"
    "case b of None \<Rightarrow> heads r ts = {}
     | Some (p, n) \<Rightarrow> n = seqNum (h p) \<and> p \<in> heads r ts \<and> (\<forall>q\<in>heads r ts. seqNum (h p) \<le> seqNum (h q))"
    by auto
  have t: "the_list r t = Some (instList r ! t)" using snoc.prems by (simp add: the_list_def)
  show ?case
  proof (cases "instList r ! t")
    case Nil
    then have "head_step h r b t = Some b" using t by (simp add: head_step_def)
    then show ?thesis using b Nil by (cases b) (auto simp: foldM_append heads_snoc)
  next
    case (Cons p L)
    then have "head_step h r b t = (case b of None \<Rightarrow> Some (Some (p, seqNum (h p)))
          | Some (q, n) \<Rightarrow> Some (if seqNum (h p) < n then Some (p, seqNum (h p)) else Some (q, n)))"
      using t by (simp add: head_step_def)
    then show ?thesis using b Cons
      by (cases b) (auto simp: foldM_append heads_snoc, meson less_imp_le order.trans)
  qed
qed

lemma tail_loop:
  assumes "\<forall>t\<in>set ts. t < length (instList r)"
  shows "\<exists>b. foldM (tail_step h r) None ts = Some b \<and>
    (case b of None \<Rightarrow> tails r ts = {}
     | Some p \<Rightarrow> p \<in> tails r ts \<and> (\<forall>q\<in>tails r ts. seqNum (h q) \<le> seqNum (h p)))"
  using assms
proof (induction ts rule: rev_induct)
  case Nil
  then show ?case by (simp add: tails_def)
next
  case (snoc t ts)
  then obtain b where b: "foldM (tail_step h r) None ts = Some b"
    "case b of None \<Rightarrow> tails r ts = {}
     | Some p \<Rightarrow> p \<in> tails r ts \<and> (\<forall>q\<in>tails r ts. seqNum (h q) \<le> seqNum (h p))"
    by auto
  have t: "the_list r t = Some (instList r ! t)" using snoc.prems by (simp add: the_list_def)
  have "tail_step h r b t = (if instList r ! t = [] then Some b else case b of
      None \<Rightarrow> Some (Some (last (instList r ! t)))
    | Some q \<Rightarrow> Some (if seqNum (h (last (instList r ! t))) > seqNum (h q) then Some (last (instList r ! t)) else Some q))"
    using t by (simp add: tail_step_def)
  then show ?case
    using b by (cases b; cases "instList r ! t = []") (auto simp: foldM_append tails_snoc)
qed

lemma updateHead_total:
  assumes "rob_wf r h"
  shows "\<exists>q. updateHead h' r = Some (r\<lparr>head := q\<rparr>)"
  using head_loop [of "activeThreads r" r h'] assms by (auto simp: updateHead_def rob_wf_def)

lemma updateTail_total:
  assumes "rob_wf r h"
  shows "\<exists>q. updateTail h' r = Some (r\<lparr>tail := q\<rparr>)"
  using tail_loop [of "activeThreads r" r h'] assms by (auto simp: updateTail_def rob_wf_def)

lemma retire_list_wf:
  assumes "list_wf h t (p # L)"
  shows "list_wf (modify p (set_status Committed \<circ> reset_status RobEntry) h) t L"
proof -
  let ?h = "modify p (set_status Committed \<circ> reset_status RobEntry) h"
  have p: "p \<notin> set L" using list_wf_distinct [OF assms] by simp
  have "producers_ok ?h t (S - {p}) M" if "producers_ok h t S M" "set M \<subseteq> set L" for S M
    using that
  proof (induction M arbitrary: S)
    case (Cons q M)
    have "q \<noteq> p" using Cons.prems(2) p by auto
    then have "args_ok ?h t (S - {p}) q" using Cons.prems(1) by (auto simp: args_ok_def modify_apply)
    moreover have "insert q S - {p} = insert q (S - {p})" using \<open>q \<noteq> p\<close> by auto
    ultimately show ?case using Cons by (metis producers_ok.simps(2) set_subset_Cons subset_trans)
  qed simp
  from this [of "{p}" L] have "producers_ok ?h t {} L" using list_wfD(2) [OF assms] by simp
  moreover have "sorted_wrt (\<lambda>p q. seqNum (?h p) < seqNum (?h q)) L"
  proof -
    have "seqNum (?h q) = seqNum (h q)" for q by (simp add: modify_apply)
    then show ?thesis using list_wfD(1) [OF assms] by simp
  qed
  ultimately show ?thesis
    using assms p by (auto simp: list_wf_def modify_apply)
qed

lemma retireHead_ok:
  assumes wf: "rob_wf r h" and t: "t < length (instList r)" and L: "instList r ! t = p # L"
    and rdy: "readyToCommit (h p)"
  shows "\<exists>r' h'. retireHead t (r, h, c) = Some (r', h', removeFrontInst p c) \<and> rob_wf r' h' \<and>
    instList r' = (instList r)[t := L] \<and>
    args_shrink (modify p (set_status Committed \<circ> reset_status RobEntry) h) h' \<and>
    (\<forall>i<numSrcRegs (h p). argProducers (h' p) ! i = None)"
proof -
  let ?h = "modify p (set_status Committed \<circ> reset_status RobEntry) h"
  note w = rob_wf_list [OF wf t]
  have iw: "numSrcRegs (h q) \<le> length (argProducers (h q))" if "q \<in> set (p # L)" for q
    using list_wfD(6) [OF w(2)] that L by (auto simp: inst_wf_def)
  obtain h1 where h1: "foldM (clear_next p) ?h (tl L) = Some h1" "args_shrink ?h h1"
  proof -
    have "\<exists>h2. clear_next p h1 q = Some h2 \<and> args_shrink ?h h2"
      if "args_shrink ?h h1" "q \<in> set (tl L)" for h1 q
    proof -
      have "q \<in> set L" using that(2) by (cases L) auto
      then show ?thesis
        using shrink_clear_all(1) [OF that(1), of q p] iw [of q] args_shrinkD(2) [OF that(1), of q]
        by (auto simp: clear_next_def modify_apply split: if_splits)
    qed
    from foldM_invariant [where I = "args_shrink ?h" and f = "clear_next p" and xs = "tl L", OF args_shrink_refl this] that
    show thesis by blast
  qed
  obtain h2 where h2: "foldM (\<lambda>h i. modifyM p (clearArgProducer i) h) h1 [0..<numSrcRegs (h1 p)] = Some h2"
    "args_shrink ?h h2"
    using shrink_clear_all(2) [OF h1(2), of p] iw [of p] args_shrinkD(2) [OF h1(2), of p] by auto
  have own: "\<forall>i<numSrcRegs (h p). argProducers (h2 p) ! i = None"
    using clear_own [OF h2(1)] args_shrinkD(2) [OF h1(2), of p] by simp
  define r1 where "r1 = r\<lparr>robWrites := robWrites r + 1, numInstsInROB := numInstsInROB r - 1,
    threadEntries := (threadEntries r)[t := threadEntries r ! t - 1], instList := (instList r)[t := L]\<rparr>"
  have lw: "list_wf h2 u ((instList r)[t := L] ! u)" if "u < length (instList r)" for u
  proof (rule shrink_list_wf [OF h2(2)], cases "u = t")
    case True
    then show "list_wf ?h u ((instList r)[t := L] ! u)" using retire_list_wf w(2) L t by simp
  next
    case False
    have "p \<notin> set (instList r ! u)"
      using False list_wfD(3) [OF w(2), of p] list_wfD(3) [OF rob_wf_list(2) [OF wf that], of p] L by auto
    then have "list_wf ?h u (instList r ! u)"
      using rob_wf_list(2) [OF wf that] by (elim other_list_wf) (auto simp: modify_apply)
    then show "list_wf ?h u ((instList r)[t := L] ! u)" using False by simp
  qed
  have sz: "unat (threadEntries r ! t - 1) = length L"
    using w(3) L by (simp add: unat_minus_one unat_gt_0 [symmetric])
  have "int (sum_list (map length ((instList r)[t := L]))) = numInstsInROB r - 1"
    using sum_list_length_update [OF t, of L] wf L by (simp add: rob_wf_def)
  then have r1: "rob_wf r1 h2"
    using wf lw sz t by (auto simp: rob_wf_def r1_def nth_upd_in)
  have len: "length (threadEntries r) = length (instList r)" "0 < numInstsInROB r"
    using wf length_le_sum_list [OF t] L by (auto simp: rob_wf_def)
  obtain q where q: "updateHead h2 r1 = Some (r1\<lparr>head := q\<rparr>)" using updateHead_total [OF r1] by blast
  have "retireHead t (r, h, c) = Some (r1\<lparr>head := q\<rparr>, h2, removeFrontInst p c)"
    using rdy t L h1(1) h2(1) q len unfolding r1_def
    by (simp add: retireHead_def the_list_def Let_def)
  moreover have "rob_wf (r1\<lparr>head := q\<rparr>) h2" using r1 by (simp add: rob_wf_def)
  ultimately show ?thesis using h2(2) own by (auto simp: r1_def)
qed

end
