(* ===== verification/ROB_Security.thy ===== *)
theory ROB_Security
  imports ROB_Props
begin

text \<open>
  What the reorder buffer guarantees to the defence: taint is exactly reachability
  from unsafe loads along uncommitted producers, an instruction passes its
  visibility point only behind resolved branches (or completed instructions), and
  a delayed squash is released oldest first and only with untainted operands.
\<close>

section \<open>Taint as reachability\<close>

text \<open>
  The result of an instruction is tainted if the instruction is a load that can
  still be squashed, or if one of its operands is produced by an instruction in
  flight whose result is tainted.
\<close>

inductive dest_taint :: "inst_heap \<Rightarrow> DynInstPtr \<Rightarrow> bool" for h where
  access: "isAccess (h p) \<Longrightarrow> \<not> isUnsquashable (h p) \<Longrightarrow> dest_taint h p"
| flow: "i < numSrcRegs (h p) \<Longrightarrow> argProducers (h p) ! i = Some q \<Longrightarrow> \<not> isCommitted (h q) \<Longrightarrow>
    dest_taint h q \<Longrightarrow> dest_taint h p"

definition operand_taint :: "inst_heap \<Rightarrow> DynInstPtr \<Rightarrow> nat \<Rightarrow> bool" where
  "operand_taint h p i \<longleftrightarrow> i < numSrcRegs (h p) \<and>
     (\<exists>q. argProducers (h p) ! i = Some q \<and> \<not> isCommitted (h q) \<and> dest_taint h q)"

lemma dest_taint_iff: "dest_taint h p \<longleftrightarrow> (isAccess (h p) \<and> \<not> isUnsquashable (h p)) \<or> (\<exists>i. operand_taint h p i)"
  by (subst dest_taint.simps, unfold operand_taint_def) blast

text \<open>What taint propagation leaves alone.\<close>

definition taint_eq :: "DynInst \<Rightarrow> DynInst \<Rightarrow> bool" where
  "taint_eq i j \<longleftrightarrow> frame_eq i j \<and> status j = status i \<and> fault j = fault i \<and>
     (\<forall>f. f \<notin> {HasExplicitFlow, IsAddrTainted, IsArgsTainted, IsDestTainted} \<longrightarrow> instFlags j f = instFlags i f)"

definition heap_taint_eq :: "inst_heap \<Rightarrow> inst_heap \<Rightarrow> bool" where
  "heap_taint_eq h h' \<longleftrightarrow> (\<forall>p. taint_eq (h p) (h' p))"

lemma heap_taint_eqD:
  assumes "heap_taint_eq h h'"
  shows "staticInst (h' p) = staticInst (h p)" "argProducers (h' p) = argProducers (h p)"
    "status (h' p) = status (h p)" "threadNumber (h' p) = threadNumber (h p)"
    "isUnsquashable (h' p) = isUnsquashable (h p)"
  using assms by (auto simp: heap_taint_eq_def taint_eq_def frame_eq_def)

lemma heap_taint_frame: "heap_taint_eq h h' \<Longrightarrow> heap_frame h h'"
  by (simp add: heap_taint_eq_def taint_eq_def heap_frame_def)

lemma heap_taint_eq_refl [simp]: "heap_taint_eq h h"
  by (simp add: heap_taint_eq_def taint_eq_def frame_eq_def)

lemma heap_taint_eq_modify:
  "heap_taint_eq h h' \<Longrightarrow> taint_eq (h' p) (f (h' p)) \<Longrightarrow> heap_taint_eq h (modify p f h')"
  by (auto simp: heap_taint_eq_def taint_eq_def frame_eq_def modify_apply)

definition taint_ok :: "inst_heap \<Rightarrow> inst_heap \<Rightarrow> DynInstPtr \<Rightarrow> bool" where
  "taint_ok h h' p \<longleftrightarrow>
     isDestTainted (h' p) = dest_taint h p \<and>
     isArgsTainted (h' p) = (\<exists>i. operand_taint h p i) \<and>
     isAddrTainted (h' p) = (isMemRef (h p) \<and> (\<exists>i. operand_taint h p i \<and> (isStore (h p) \<longrightarrow> 1 \<le> i))) \<and>
     taint_prop_done (h' p)"

lemma flow_loop_eq:
  assumes "heap_taint_eq h0 h" "argProducers inst = argProducers (h0 p)"
    and "args_ok h0 t S p" "numSrcRegs (h0 p) \<le> length (argProducers (h0 p))"
    and "\<forall>q\<in>S. isDestTainted (h q) = dest_taint h0 q" "\<forall>i\<in>set is. i < numSrcRegs (h0 p)"
  shows "flow_loop t h inst is = Some (\<exists>i\<in>set is. operand_taint h0 p i)"
  using assms(6)
proof (induction "is")
  case (Cons i "is")
  have i: "i < numSrcRegs (h0 p)" "getArgProducer inst i = Some (argProducers (h0 p) ! i)"
    using Cons.prems assms(2,4) by (auto simp: getArgProducer_def)
  show ?case
  proof (cases "argProducers (h0 p) ! i")
    case None
    then show ?thesis using Cons i by (auto simp: operand_taint_def)
  next
    case (Some q)
    then have q: "threadNumber (h0 q) = t" "isCommitted (h0 q) \<or> q \<in> S"
      using assms(3) i(1) by (auto simp: args_ok_def)
    have "(isDestTainted (h q) \<and> \<not> isCommitted (h q)) = operand_taint h0 p i"
      using q(2) assms(5) i(1) Some heap_taint_eqD(3) [OF assms(1), of q]
      by (auto simp: operand_taint_def)
    then show ?thesis
      using Cons i Some q(1) heap_taint_eqD(4) [OF assms(1), of q] by auto
  qed
qed simp

lemma taint_inst_ok:
  assumes eq: "heap_taint_eq h0 h" and args: "args_ok h0 t S p" and wf: "inst_wf (h0 p)" and p: "p \<notin> S"
    and S: "\<forall>q\<in>S. isDestTainted (h q) = dest_taint h0 q"
  shows "\<exists>h'. taint_inst t h p = Some h' \<and> heap_taint_eq h0 h' \<and> (\<forall>q. q \<noteq> p \<longrightarrow> h' q = h q) \<and> taint_ok h0 h' p"
proof -
  note d = heap_taint_eqD [OF eq, of p]
  have len: "numSrcRegs (h0 p) \<le> length (argProducers (h0 p))" using wf by (simp add: inst_wf_def)
  let ?b = "\<exists>i. operand_taint h0 p i"
  define h1 where "h1 = modify p (set_flag HasExplicitFlow ?b) h"
  have sub: "(\<exists>i\<in>set [0..<numSrcRegs (h0 p)]. operand_taint h0 p i) = ?b"
    by (auto simp: operand_taint_def)
  have 1: "explicit_flow t p h = Some h1"
    using flow_loop_eq [OF eq _ args len S, of "h p" "[0..<numSrcRegs (h0 p)]"] d sub
    by (simp add: explicit_flow_def h1_def)
  have eq1: "heap_taint_eq h0 h1"
    unfolding h1_def by (rule heap_taint_eq_modify [OF eq]) (simp add: taint_eq_def frame_eq_def)
  have S1: "\<forall>q\<in>S. isDestTainted (h1 q) = dest_taint h0 q" using S p by (auto simp: h1_def modify_apply)
  let ?a = "isMemRef (h0 p) \<and> (\<exists>i. operand_taint h0 p i \<and> (isStore (h0 p) \<longrightarrow> 1 \<le> i))"
  define h2 where "h2 = modify p (set_flag IsAddrTainted ?a) h1"
  note d1 = heap_taint_eqD [OF eq1, of p]
  note fl = flow_loop_eq [OF eq1 _ args len S1, of "h1 p"]
  have "(\<exists>i\<in>set [1..<numSrcRegs (h0 p)]. operand_taint h0 p i) = (\<exists>i. operand_taint h0 p i \<and> 1 \<le> i)"
    by (auto simp: operand_taint_def)
  then have 2: "address_flow t p h1 = Some h2"
    using fl [of "[0..<numSrcRegs (h0 p)]"] fl [of "[1..<numSrcRegs (h0 p)]"] d1 sub wf
    by (auto simp: address_flow_def h2_def inst_wf_def)
  have eq2: "heap_taint_eq h0 h2"
    unfolding h2_def by (rule heap_taint_eq_modify [OF eq1]) (simp add: taint_eq_def frame_eq_def)
  have "heap_taint_eq h0 (modify p taint_dest h2)"
    by (rule heap_taint_eq_modify [OF eq2]) (simp add: taint_eq_def frame_eq_def taint_dest_def Let_def)
  moreover have "taint_ok h0 (modify p taint_dest h2) p"
    using heap_taint_eqD [OF eq2, of p] d
    by (auto simp: taint_ok_def taint_dest_def Let_def dest_taint_iff [of h0 p] h2_def h1_def set_flag_def)
  moreover have "\<forall>q. q \<noteq> p \<longrightarrow> modify p taint_dest h2 q = h q" by (simp add: h2_def h1_def)
  ultimately show ?thesis using 1 2 by (simp add: taint_inst_def)
qed

lemma taint_list_ok:
  assumes "heap_taint_eq h0 h" "producers_ok h0 t S L" "distinct L" "set L \<inter> S = {}"
    and "\<forall>p\<in>set L. inst_wf (h0 p)" "\<forall>q\<in>S. isDestTainted (h q) = dest_taint h0 q"
  shows "\<exists>h'. foldM (taint_inst t) h L = Some h' \<and> heap_taint_eq h0 h' \<and>
    (\<forall>q. q \<notin> set L \<longrightarrow> h' q = h q) \<and> (\<forall>p\<in>set L. taint_ok h0 h' p)"
  using assms
proof (induction L arbitrary: h S)
  case (Cons p L)
  obtain h1 where h1: "taint_inst t h p = Some h1" "heap_taint_eq h0 h1" "\<forall>q. q \<noteq> p \<longrightarrow> h1 q = h q"
    "taint_ok h0 h1 p"
    using taint_inst_ok [OF Cons.prems(1), of t S p] Cons.prems by auto
  have S1: "\<forall>q\<in>insert p S. isDestTainted (h1 q) = dest_taint h0 q"
    using h1 Cons.prems(4,6) by (auto simp: taint_ok_def)
  have d: "distinct L" "set L \<inter> insert p S = {}" "\<forall>p\<in>set L. inst_wf (h0 p)" "producers_ok h0 t (insert p S) L"
    using Cons.prems by auto
  obtain h2 where h2: "foldM (taint_inst t) h1 L = Some h2" "heap_taint_eq h0 h2"
    "\<forall>q. q \<notin> set L \<longrightarrow> h2 q = h1 q" "\<forall>p\<in>set L. taint_ok h0 h2 p"
    using Cons.IH [OF h1(2) d(4,1,2,3) S1] by auto
  moreover have "taint_ok h0 h2 p" using h1(4) h2(3) Cons.prems(3) by (simp add: taint_ok_def)
  ultimately show ?case using h1 by simp
qed simp

lemma compute_taint_threads:
  assumes "rob_wf r h0" "set ts \<subseteq> set (activeThreads r)"
  shows "\<exists>h'. foldM (taint_thread r) h0 ts = Some h' \<and> heap_taint_eq h0 h' \<and>
    (\<forall>t\<in>set ts. \<forall>p\<in>set (instList r ! t). taint_ok h0 h' p)"
  using assms(2)
proof (induction ts rule: rev_induct)
  case (snoc t ts)
  then obtain h where h: "foldM (taint_thread r) h0 ts = Some h" "heap_taint_eq h0 h"
    "\<forall>t\<in>set ts. \<forall>p\<in>set (instList r ! t). taint_ok h0 h p"
    by auto
  have t: "t < length (instList r)" using snoc.prems rob_wf_active [OF assms(1)] by auto
  note w = rob_wf_list [OF assms(1) t]
  obtain h' where h': "foldM (taint_inst t) h (instList r ! t) = Some h'" "heap_taint_eq h0 h'"
    "\<forall>q. q \<notin> set (instList r ! t) \<longrightarrow> h' q = h q" "\<forall>p\<in>set (instList r ! t). taint_ok h0 h' p"
    using taint_list_ok [OF h(2) list_wfD(2) [OF w(2)] list_wf_distinct [OF w(2)]] list_wfD(6) [OF w(2)] by auto
  have "taint_ok h0 h' p" if "u \<in> set ts" "p \<in> set (instList r ! u)" for u p
    using h(3) that h'(3,4) by (cases "p \<in> set (instList r ! t)") (auto simp: taint_ok_def)
  moreover have "taint_thread r h t = Some h'" using h'(1) w(1) by (simp add: taint_thread_def)
  ultimately show ?case using h h' by (auto simp: foldM_append)
qed simp

text \<open>
  (C1) Taint propagation computes exactly the least taint that unsafe loads cause: for
  every instruction of an active thread, the result flag says whether the
  instruction is reachable from a squashable load along producers that have not
  committed, the operand flag whether some operand is, and the address flag whether
  some address operand of a memory instruction is (operand 0 of a store is its
  data). The propagation never trips an assertion, and changes nothing else that
  the buffer depends on, so the invariant is kept.
\<close>

theorem compute_taint_reachability:
  assumes "rob_wf r h" "STT c"
  shows "\<exists>h'. compute_taint c (r, h) = Some h' \<and> rob_wf r h' \<and>
    (\<forall>t\<in>set (activeThreads r). \<forall>p\<in>set (instList r ! t).
       isDestTainted (h' p) = dest_taint h p \<and>
       isArgsTainted (h' p) = (\<exists>i. operand_taint h p i) \<and>
       isAddrTainted (h' p) = (isMemRef (h p) \<and> (\<exists>i. operand_taint h p i \<and> (isStore (h p) \<longrightarrow> 1 \<le> i))))"
  using compute_taint_threads [OF assms(1) order.refl] heap_frame_rob_wf [of h _ r] heap_taint_frame [of h] assms
  by (auto simp: compute_taint_def taint_ok_def)

section \<open>The visibility point\<close>

text \<open>The condition the threat model asks of the instructions older than a given one.\<close>

definition older_ok :: "cpu_config \<Rightarrow> inst_heap \<Rightarrow> DynInstPtr list \<Rightarrow> bool" where
  "older_ok c h older \<longleftrightarrow>
     (if isFuturistic c then \<forall>q\<in>set older. \<not> incomplete (h q)
      else \<forall>q\<in>set older. isControl (h q) \<longrightarrow> \<not> unresolved (h q))"

text \<open>The status bit that records it, and the invariant that ties the flag to the bit.\<close>

definition vp_bit :: "cpu_config \<Rightarrow> DynInst \<Rightarrow> bool" where
  "vp_bit c i \<longleftrightarrow> (if isFuturistic c then isPrevInstsCompleted i else isPrevBrsResolved i)"

definition vp_inv :: "cpu_config \<Rightarrow> DynInst \<Rightarrow> bool" where
  "vp_inv c i \<longleftrightarrow> isUnsquashable i = vp_bit c i"

definition vp_cond :: "cpu_config \<Rightarrow> vis \<Rightarrow> bool" where
  "vp_cond c v \<longleftrightarrow> (if isFuturistic c then prevInstsComplete v else prevBrsResolved v)"

definition safe_scheme :: "cpu_config \<Rightarrow> bool" where
  "safe_scheme c \<longleftrightarrow> \<not> loadInExec c \<or> isInvisibleSpec c"

lemma visible_inst_facts:
  assumes "safe_scheme c"
  shows "isUnsquashable (visible_inst c v i) = vp_bit c (visible_inst c v i)"
    "vp_bit c (visible_inst c v i) = (vp_bit c i \<or> vp_cond c v)"
    "frame_eq i (visible_inst c v i)"
  using assms
  by (auto simp: visible_inst_def Let_def vp_bit_def vp_cond_def safe_scheme_def frame_eq_def)

lemma vp_cond_next: "vp_cond c (visible_next v i) = (vp_cond c v \<and>
    (if isFuturistic c then \<not> incomplete i else isControl i \<longrightarrow> \<not> unresolved i))"
  by (auto simp: vp_cond_def visible_next_def Let_def)

lemma visible_read_only: "visible_next v (i\<lparr>robUpdateVisibleState := b\<rparr>) = visible_next v i"
  "vp_bit c (i\<lparr>robUpdateVisibleState := b\<rparr>) = vp_bit c i"
  by (simp_all add: visible_next_def unresolved_def incomplete_def readyToCommit_def isLoadSafeToCommit_def vp_bit_def)

lemma older_ok_cong: "(\<And>q. q \<in> set L \<Longrightarrow> h' q = h q) \<Longrightarrow> older_ok c h' L = older_ok c h L"
  by (auto simp: older_ok_def)

declare visible_loop.simps(2) [simp del]

lemma visible_loop_ok:
  assumes "safe_scheme c" "distinct L" "\<forall>p\<in>set L. vp_inv c (h p)"
  shows "heap_frame h (visible_loop c v h L) \<and> (\<forall>q. q \<notin> set L \<longrightarrow> visible_loop c v h L q = h q) \<and>
    (\<forall>k<length L. vp_inv c (visible_loop c v h L (L ! k)) \<and>
       vp_bit c (visible_loop c v h L (L ! k)) =
         (vp_bit c (h (L ! k)) \<or> (vp_cond c v \<and> older_ok c h (take k L))))"
  using assms(2,3)
proof (induction L arbitrary: v h)
  case (Cons p L)
  define h1 where "h1 = modify p (\<lambda>i. i\<lparr>robUpdateVisibleState := True\<rparr>) h"
  have h1: "heap_frame h h1" "\<And>q. q \<noteq> p \<Longrightarrow> h1 q = h q" "h1 p = (h p)\<lparr>robUpdateVisibleState := True\<rparr>"
    unfolding h1_def by (auto intro!: heap_frame_modify simp: frame_eq_def)
  show ?case
  proof (cases "\<not> prevInstsComplete v \<and> \<not> prevBrsResolved v")
    case True
    then have "visible_loop c v h (p # L) = h1" by (simp add: h1_def visible_loop.simps(2))
    moreover have "\<not> vp_cond c v" using True by (simp add: vp_cond_def)
    moreover have "vp_bit c (h1 q) = vp_bit c (h q)" "vp_inv c (h1 q) = vp_inv c (h q)" for q
      by (cases "q = p"; simp add: h1 visible_read_only vp_inv_def)+
    ultimately show ?thesis using h1 Cons.prems(2) by (auto simp: nth_Cons')
  next
    case False
    define h2 where "h2 = modify p (visible_inst c v) h1"
    have eq: "visible_loop c v h (p # L) = visible_loop c (visible_next v (h1 p)) h2 L"
      using False by (auto simp: h1_def h2_def Let_def visible_loop.simps(2))
    have h2: "heap_frame h h2" "\<And>q. q \<noteq> p \<Longrightarrow> h2 q = h q" "h2 p = visible_inst c v (h1 p)"
      using h1 visible_inst_facts(3) [OF assms(1)] unfolding h2_def by (auto intro!: heap_frame_modify)
    have inv: "\<forall>q\<in>set L. vp_inv c (h2 q)" using Cons.prems h2(2) by (metis distinct.simps(2) list.set_intros(2))
    have pL: "p \<notin> set L" "distinct L" using Cons.prems by auto
    note IH = Cons.IH [OF pL(2) inv, of "visible_next v (h1 p)"]
    have p: "vp_inv c (visible_loop c v h (p # L) p)"
      "vp_bit c (visible_loop c v h (p # L) p) = (vp_bit c (h p) \<or> vp_cond c v)"
      using IH pL visible_inst_facts [OF assms(1), where v = v and i = "h1 p"] h1(3) h2(3)
      by (simp_all add: eq vp_inv_def visible_read_only)
    have L: "vp_inv c (visible_loop c v h (p # L) (L ! k))"
      "vp_bit c (visible_loop c v h (p # L) (L ! k)) =
         (vp_bit c (h (L ! k)) \<or> (vp_cond c v \<and> older_ok c h (p # take k L)))" if "k < length L" for k
    proof -
      have "L ! k \<noteq> p" using that pL by auto
      moreover have "older_ok c h2 (take k L) = older_ok c h (take k L)"
        using pL h2(2) by (intro older_ok_cong) (metis in_set_takeD)
      ultimately show "vp_inv c (visible_loop c v h (p # L) (L ! k))"
        "vp_bit c (visible_loop c v h (p # L) (L ! k)) =
         (vp_bit c (h (L ! k)) \<or> (vp_cond c v \<and> older_ok c h (p # take k L)))"
        using IH that h2(2) h1(3) by (auto simp: eq vp_cond_next visible_read_only older_ok_def)
    qed
    have fr: "heap_frame h (visible_loop c v h (p # L))"
      "\<forall>q. q \<notin> set (p # L) \<longrightarrow> visible_loop c v h (p # L) q = h q"
      using IH h2 heap_frame_trans eq by auto
    show ?thesis
      using fr p L by (auto simp: less_Suc_eq_0_disj older_ok_def)
  qed
qed simp

lemma lists_disjoint:
  assumes "rob_wf r h" "t < length (instList r)" "u < length (instList r)" "t \<noteq> u"
  shows "set (instList r ! t) \<inter> set (instList r ! u) = {}"
  using list_wfD(3) [OF rob_wf_list(2) [OF assms(1,2)]] list_wfD(3) [OF rob_wf_list(2) [OF assms(1,3)]] assms(4)
  by blast

definition vp_spec :: "cpu_config \<Rightarrow> inst_heap \<Rightarrow> inst_heap \<Rightarrow> DynInstPtr list \<Rightarrow> bool" where
  "vp_spec c h h' L \<longleftrightarrow> (\<forall>k<length L. vp_inv c (h' (L ! k)) \<and>
     vp_bit c (h' (L ! k)) = (vp_bit c (h (L ! k)) \<or> older_ok c h (take k L)))"

lemma vp_spec_cong:
  "(\<And>q. q \<in> set L \<Longrightarrow> h1 q = h q) \<Longrightarrow> (\<And>q. q \<in> set L \<Longrightarrow> h1' q = h' q) \<Longrightarrow> vp_spec c h1 h1' L = vp_spec c h h' L"
proof -
  assume *: "\<And>q. q \<in> set L \<Longrightarrow> h1 q = h q" "\<And>q. q \<in> set L \<Longrightarrow> h1' q = h' q"
  then have "older_ok c h1 (take k L) = older_ok c h (take k L)" for k
    by (intro older_ok_cong) (metis in_set_takeD)
  with * show ?thesis by (simp add: vp_spec_def)
qed

lemma visible_threads:
  assumes "rob_wf r h0" "safe_scheme c" "\<forall>L\<in>set (instList r). \<forall>p\<in>set L. vp_inv c (h0 p)"
    and "set ts \<subseteq> set (activeThreads r)" "distinct ts"
  shows "\<exists>h'. foldM (visible_thread c r) h0 ts = Some h' \<and> heap_frame h0 h' \<and>
    (\<forall>q. (\<forall>t\<in>set ts. q \<notin> set (instList r ! t)) \<longrightarrow> h' q = h0 q) \<and>
    (\<forall>t\<in>set ts. vp_spec c h0 h' (instList r ! t))"
  using assms(4,5)
proof (induction ts rule: rev_induct)
  case (snoc t ts)
  then obtain h where h: "foldM (visible_thread c r) h0 ts = Some h" "heap_frame h0 h"
    "\<forall>q. (\<forall>t\<in>set ts. q \<notin> set (instList r ! t)) \<longrightarrow> h q = h0 q" "\<forall>t\<in>set ts. vp_spec c h0 h (instList r ! t)"
    by auto
  have ts: "\<forall>u\<in>set (ts @ [t]). u < length (instList r)" using snoc.prems rob_wf_active [OF assms(1)] by auto
  then have t: "t < length (instList r)" by simp
  note w = rob_wf_list [OF assms(1) t]
  have dis: "set (instList r ! t) \<inter> set (instList r ! u) = {}" if "u \<in> set ts" for u
    using that snoc.prems(2) ts by (intro lists_disjoint [OF assms(1) t]) auto
  have same: "h q = h0 q" if "q \<in> set (instList r ! t)" for q using h(3) dis that by blast
  let ?L = "instList r ! t"
  define h' where "h' = visible_loop c \<lparr>prevInstsComplete = True, prevBrsResolved = True,
             prevInstsCommitted = True, prevBrsCommitted = True\<rparr> h ?L"
  have "\<forall>p\<in>set ?L. vp_inv c (h p)" using assms(3) t same by auto
  from visible_loop_ok [OF assms(2) list_wf_distinct [OF w(2)] this]
  have h': "heap_frame h h'" "\<forall>q. q \<notin> set ?L \<longrightarrow> h' q = h q" "vp_spec c h h' ?L"
    by (auto simp: h'_def vp_spec_def vp_cond_def)
  have "vp_spec c h0 h' ?L" using h'(3) vp_spec_cong [of ?L h h0 h' h' c] same by simp
  moreover have "vp_spec c h0 h' (instList r ! u)" if "u \<in> set ts" for u
    using h(4) that vp_spec_cong [of "instList r ! u" h0 h0 h' h c] h'(2) dis [OF that] by auto
  moreover have "visible_thread c r h t = Some h'" using w(1) by (simp add: visible_thread_def h'_def)
  ultimately show ?case
    using h h' heap_frame_trans by (auto simp: foldM_append)
qed simp

text \<open>
  (C2) Under a protecting scheme, one pass of the visibility-point computation
  declares an instruction of an active thread unsquashable exactly if it already
  was, or if at this point every older branch of its thread has executed without a
  fault or a squash (Spectre model), respectively every older instruction has
  completed and needs no further ordering (Futuristic model). The early exit of the
  loop loses nothing, and the invariant that ties the flag to the recorded status
  bit is kept.
\<close>

theorem visibility_point:
  assumes "rob_wf r h" "safe_scheme c" "\<forall>L\<in>set (instList r). \<forall>p\<in>set L. vp_inv c (h p)"
  shows "\<exists>h'. updateVisibleState c (r, h) = Some h' \<and> rob_wf r h' \<and>
    (\<forall>L\<in>set (instList r). \<forall>p\<in>set L. vp_inv c (h' p)) \<and>
    (\<forall>t\<in>set (activeThreads r). \<forall>k<length (instList r ! t).
       isUnsquashable (h' (instList r ! t ! k)) =
         (isUnsquashable (h (instList r ! t ! k)) \<or> older_ok c h (take k (instList r ! t))))"
proof -
  have "distinct (activeThreads r)" using assms(1) by (simp add: rob_wf_def)
  from visible_threads [OF assms order.refl this]
  obtain h' where h': "foldM (visible_thread c r) h (activeThreads r) = Some h'" "heap_frame h h'"
    "\<forall>q. (\<forall>t\<in>set (activeThreads r). q \<notin> set (instList r ! t)) \<longrightarrow> h' q = h q"
    "\<forall>t\<in>set (activeThreads r). vp_spec c h h' (instList r ! t)" by blast
  have inv: "vp_inv c (h' p)" if "L \<in> set (instList r)" "p \<in> set L" for L p
  proof (cases "\<exists>t\<in>set (activeThreads r). p \<in> set (instList r ! t)")
    case True
    then show ?thesis using h'(4) by (auto simp: vp_spec_def in_set_conv_nth)
  next
    case False
    then show ?thesis using h'(3) assms(3) that by auto
  qed
  have "isUnsquashable (h' (instList r ! t ! k)) =
         (isUnsquashable (h (instList r ! t ! k)) \<or> older_ok c h (take k (instList r ! t)))"
    if "t \<in> set (activeThreads r)" "k < length (instList r ! t)" for t k
  proof -
    have "instList r ! t \<in> set (instList r)" using rob_wf_active [OF assms(1) that(1)] by simp
    then have "isUnsquashable (h (instList r ! t ! k)) = vp_bit c (h (instList r ! t ! k))"
      using assms(3) that(2) nth_mem by (fastforce simp: vp_inv_def)
    then show ?thesis using h'(4) that by (auto simp: vp_spec_def vp_inv_def)
  qed
  then show ?thesis
    using h'(1,2) inv heap_frame_rob_wf [OF h'(2)] assms(1) by (auto simp: updateVisibleState_def)
qed

section \<open>Delayed squashes\<close>

lemma resolved_pending_find:
  "fst (resolved_pending h L n) =
     find (\<lambda>p. hasPendingSquash (h p) \<and> \<not> isArgsTainted (h p) \<and> \<not> isSquashed (h p)) L"
  by (induction L arbitrary: n) auto

definition squash_released :: "inst_heap \<Rightarrow> DynInstPtr \<Rightarrow> bool" where
  "squash_released h p \<longleftrightarrow> hasPendingSquash (h p) \<and> \<not> isSquashed (h p) \<and> (\<forall>i. \<not> operand_taint h p i)"

text \<open>
  (C8) After taint propagation, the delayed squash that the commit stage performs
  next is that of the oldest instruction of the thread whose squash is pending,
  which is not itself squashed, and none of whose operands is reachable from an
  unsafe load; there is none exactly if no such instruction is in the buffer.
\<close>

theorem pending_squash_released:
  assumes "rob_wf r h" "STT c" "t \<in> set (activeThreads r)"
  shows "\<exists>h' res r'. compute_taint c (r, h) = Some h' \<and> getResolvedPendingSquashInst t (r, h') = Some (res, r') \<and>
    (case res of
       None \<Rightarrow> \<forall>p\<in>set (instList r ! t). \<not> squash_released h p
     | Some p \<Rightarrow> p \<in> set (instList r ! t) \<and> squash_released h p \<and>
         (\<forall>q\<in>set (instList r ! t). seqNum (h q) < seqNum (h p) \<longrightarrow> \<not> squash_released h q))"
proof -
  let ?L = "instList r ! t"
  obtain h' where h': "foldM (taint_thread r) h (activeThreads r) = Some h'" "heap_taint_eq h h'"
    "\<forall>t\<in>set (activeThreads r). \<forall>p\<in>set (instList r ! t). taint_ok h h' p"
    using compute_taint_threads [OF assms(1) order.refl] by blast
  note w = rob_wf_list [OF assms(1) rob_wf_active [OF assms(1,3)]]
  have rel: "(hasPendingSquash (h' p) \<and> \<not> isArgsTainted (h' p) \<and> \<not> isSquashed (h' p)) = squash_released h p"
    if "p \<in> set ?L" for p
    using h'(2,3) that assms(3) heap_taint_eqD(3) [OF h'(2), of p]
    by (auto simp: squash_released_def taint_ok_def heap_taint_eq_def taint_eq_def)
  define res where "res = fst (resolved_pending h' ?L (totalSquashDelayCycles r))"
  have res: "res = find (squash_released h) ?L"
    unfolding res_def resolved_pending_find using rel by (intro find_cong) auto
  have "case res of
       None \<Rightarrow> \<forall>p\<in>set ?L. \<not> squash_released h p
     | Some p \<Rightarrow> p \<in> set ?L \<and> squash_released h p \<and>
         (\<forall>q\<in>set ?L. seqNum (h q) < seqNum (h p) \<longrightarrow> \<not> squash_released h q)"
  proof (cases res)
    case None
    then have "\<forall>p\<in>set ?L. \<not> squash_released h p" using res by (simp add: find_None_iff)
    then show ?thesis using None by simp
  next
    case (Some p)
    then obtain k where k: "k < length ?L" "p = ?L ! k" "squash_released h p" "\<forall>j<k. \<not> squash_released h (?L ! j)"
      using res by (auto simp: find_Some_iff)
    have "j < k" if "j < length ?L" "seqNum (h (?L ! j)) < seqNum (h p)" for j
      using that k(1,2) list_wfD(1) [OF w(2)]
      by (metis linorder_neqE_nat not_less_iff_gr_or_eq sorted_wrt_iff_nth_less)
    then show ?thesis using Some k by (auto simp: in_set_conv_nth)
  qed
  moreover have "getResolvedPendingSquashInst t (r, h') =
      Some (res, r\<lparr>totalSquashDelayCycles := snd (resolved_pending h' ?L (totalSquashDelayCycles r))\<rparr>)"
    using w(1) by (simp add: getResolvedPendingSquashInst_def res_def split_beta)
  ultimately show ?thesis using h'(1) assms(2) by (auto simp: compute_taint_def)
qed

end
