(* ===== verification/ROB_Squash.thy ===== *)
theory ROB_Squash
  imports ROB_Props
begin

text \<open>
  Squashing in the reorder buffer: \<^verbatim>\<open>squash\<close> starts it, and the commit stage calls
  \<^verbatim>\<open>doSquash\<close> once per cycle until the thread is done. Each call marks at most
  \<^verbatim>\<open>squashWidth\<close> instructions, youngest first; together they mark exactly the
  instructions younger than the squashing one.
\<close>

section \<open>The loop\<close>

text \<open>The commit stage's use of the two operations, with a bound on the cycles.\<close>

fun squash_cycles :: "nat \<Rightarrow> ThreadID \<Rightarrow> rob \<times> inst_heap \<Rightarrow> (rob \<times> inst_heap) option" where
  "squash_cycles n tid s =
     (if doneSquashing (fst s) ! tid then Some s
      else case n of 0 \<Rightarrow> None | Suc m \<Rightarrow> doSquash tid s \<bind> squash_cycles m tid)"

declare squash_cycles.simps [simp del]

definition mark_from :: "nat \<Rightarrow> nat \<Rightarrow> DynInstPtr list \<Rightarrow> inst_heap \<Rightarrow> inst_heap" where
  "mark_from a b L h = (\<lambda>p. if p \<in> set (drop a (take b L)) then mark_squashed (h p) else h p)"

lemma mark_squashed_frame: "frame_eq i (mark_squashed i)"
  and mark_squashed_seqNum [simp]: "seqNum (mark_squashed i) = seqNum i"
  by (simp_all add: mark_squashed_def frame_eq_def)

lemma mark_from_frame: "heap_frame h (mark_from a b L h)"
  by (simp add: heap_frame_def mark_from_def mark_squashed_frame) (simp add: frame_eq_def)

lemma mark_from_seqNum [simp]: "seqNum (mark_from a b L h p) = seqNum (h p)"
  by (simp add: mark_from_def)

lemma mark_from_empty [simp]: "mark_from a a L h = h"
  by (simp add: mark_from_def)

lemma mark_from_step:
  assumes "distinct L" "k < length L" "a \<le> k"
  shows "mark_from a k L (modify (L ! k) mark_squashed h) = mark_from a (Suc k) L h"
proof
  fix p
  have k: "drop a (take (Suc k) L) = drop a (take k L) @ [L ! k]"
    using assms(2,3) by (simp add: take_Suc_conv_app_nth)
  have "L ! k \<notin> set (take k L)" using assms(1,2) by (auto simp: in_set_conv_nth nth_eq_iff_index_eq)
  then have "L ! k \<notin> set (drop a (take k L))" by (meson in_set_dropD)
  then show "mark_from a k L (modify (L ! k) mark_squashed h) p = mark_from a (Suc k) L h p"
    by (auto simp: mark_from_def k modify_apply)
qed

lemma mark_from_join:
  assumes "distinct L" "a \<le> b" "b \<le> c" "c \<le> length L"
  shows "mark_from a b L (mark_from b c L h) = mark_from a c L h"
proof
  fix p
  have t: "take b (take c L) = take b L" using assms(3) by simp
  have "drop a (take c L) = drop a (take b (take c L) @ drop b (take c L))" by (simp only: append_take_drop_id)
  also have "\<dots> = drop a (take b L) @ drop b (take c L)"
    unfolding t drop_append using assms by simp
  finally have s: "drop a (take c L) = drop a (take b L) @ drop b (take c L)" .
  have "distinct (drop a (take c L))" using assms(1) by simp
  then have "\<not> (p \<in> set (drop a (take b L)) \<and> p \<in> set (drop b (take c L)))" unfolding s by auto
  then show "mark_from a b L (mark_from b c L h) p = mark_from a c L h p"
    by (auto simp: mark_from_def s)
qed

lemma pred_in_nth: "distinct L \<Longrightarrow> Suc k < length L \<Longrightarrow> pred_in (L ! Suc k) L = Some (L ! k)"
proof (induction L arbitrary: k)
  case (Cons a L)
  then obtain b M where L: "L = b # M" by (cases L) auto
  show ?case
  proof (cases k)
    case (Suc j)
    then have "b \<noteq> L ! Suc j" using Cons.prems L by (auto simp: nth_eq_iff_index_eq)
    then show ?thesis using Cons Suc L by auto
  qed (simp add: L)
qed simp

lemma squash_loop_spec:
  assumes "distinct L" "k < length L" "\<forall>j<length L. (sq < seqNum (h (L ! j))) = (lo \<le> j)"
  shows "\<exists>upd'. squash_loop n L sq upd (Some (L ! k)) h =
    (if lo = 0 \<and> k < n then Some (True, upd', None, mark_from 0 (Suc k) L h)
     else Some (False, upd', Some (L ! (k - min n (Suc k - lo))), mark_from (Suc k - min n (Suc k - lo)) (Suc k) L h))"
  using assms(2,3)
proof (induction n arbitrary: k h upd)
  case (Suc n)
  have d: "deref L (Some (L ! k)) = Some (L ! k)" using Suc.prems(1) by (simp add: deref_def)
  show ?case
  proof (cases "lo \<le> k")
    case False
    then have "\<not> sq < seqNum (h (L ! k))" "min (Suc n) (Suc k - lo) = 0" using Suc.prems by simp_all
    then show ?thesis using d False by simp
  next
    case True
    let ?h = "modify (L ! k) mark_squashed h"
    have gt: "sq < seqNum (h (L ! k))" using True Suc.prems by simp
    have hd: "hd L = L ! 0" using Suc.prems(1) by (cases L) simp_all
    show ?thesis
    proof (cases k)
      case 0
      then show ?thesis
        using gt d hd True mark_from_step [OF assms(1) Suc.prems(1), of 0 h] by (simp add: Let_def)
    next
      case (Suc j)
      have ne: "L ! k \<noteq> hd L"
      proof -
        have "0 < length L" using Suc.prems(1) by linarith
        from nth_eq_iff_index_eq [OF assms(1) Suc.prems(1) this] show ?thesis using hd Suc by simp
      qed
      have j: "j < length L" "\<forall>i<length L. (sq < seqNum (?h (L ! i))) = (lo \<le> i)"
      proof -
        have "seqNum (?h q) = seqNum (h q)" for q by (simp add: modify_apply)
        then show "j < length L" "\<forall>i<length L. (sq < seqNum (?h (L ! i))) = (lo \<le> i)"
          using Suc Suc.prems by simp_all
      qed
      define m where "m = min n (Suc j - lo)"
      obtain upd' where IH: "squash_loop n L sq (upd \<or> L ! k = last L) (Some (L ! j)) ?h =
        (if lo = 0 \<and> j < n then Some (True, upd', None, mark_from 0 (Suc j) L ?h)
         else Some (False, upd', Some (L ! (j - m)), mark_from (Suc j - m) (Suc j) L ?h))"
        using Suc.IH [OF j] unfolding m_def by blast
      have step: "squash_loop (Suc n) L sq upd (Some (L ! k)) h =
          squash_loop n L sq (upd \<or> L ! k = last L) (Some (L ! j)) ?h"
        using gt d ne pred_in_nth [OF assms(1), of j] Suc Suc.prems(1) by (simp add: Let_def)
      have m: "k - min (Suc n) (Suc k - lo) = j - m" "Suc k - min (Suc n) (Suc k - lo) = Suc j - m"
        using Suc True by (simp_all add: m_def min_def) linarith+
      have mark: "mark_from a (Suc j) L ?h = mark_from a (Suc k) L h" if "a \<le> k" for a
        using mark_from_step [OF assms(1) Suc.prems(1) that] Suc by simp
      show ?thesis
        unfolding step IH m using mark [of 0] mark [of "Suc j - m"] Suc by simp
    qed
  qed
qed simp

section \<open>One cycle\<close>

text \<open>
  The state of a squash in progress: the entries from \<open>k + 1\<close> on are done, entry \<open>k\<close>
  is next and is younger than the squashing instruction.
\<close>

definition at_index :: "rob \<Rightarrow> ThreadID \<Rightarrow> nat \<Rightarrow> bool" where
  "at_index r t k \<longleftrightarrow> \<not> doneSquashing r ! t \<and> k < length (instList r ! t) \<and>
     squashIt r ! t = Some (instList r ! t ! k)"

definition same_lists :: "rob \<Rightarrow> rob \<Rightarrow> bool" where
  "same_lists r r' \<longleftrightarrow> instList r' = instList r \<and> squashedSeqNum r' = squashedSeqNum r \<and>
     squashWidth r' = squashWidth r \<and> activeThreads r' = activeThreads r"

lemma rob_wf_lengths:
  "rob_wf r h \<Longrightarrow> length (squashIt r) = length (instList r) \<and> length (squashedSeqNum r) = length (instList r) \<and>
     length (doneSquashing r) = length (instList r) \<and> length (robStatus r) = length (instList r) \<and>
     length (threadEntries r) = length (instList r)"
  by (simp add: rob_wf_def)

lemma squash_done_facts:
  assumes "rob_wf r h" "t < length (instList r)"
  shows "rob_wf (squash_done t r) h" "doneSquashing (squash_done t r) ! t" "squashIt (squash_done t r) ! t = None"
    "same_lists r (squash_done t r)"
  using assms rob_wf_lengths [OF assms(1)]
  by (simp_all add: squash_done_def same_lists_def) (simp add: rob_wf_def)

lemma rob_wf_misc [simp]:
  "rob_wf (r\<lparr>robWrites := n\<rparr>) h = rob_wf r h" "rob_wf (r\<lparr>tail := q\<rparr>) h = rob_wf r h"
  "length s = length (squashIt r) \<Longrightarrow> rob_wf (r\<lparr>squashIt := s\<rparr>) h = rob_wf r h"
  by (simp_all add: rob_wf_def)

lemma doSquash_end:
  assumes wf: "rob_wf r h" and t: "t < length (instList r)" and k: "k < length (instList r ! t)"
    and it: "squashIt r ! t = Some (instList r ! t ! k)" and nlt: "\<not> seqNum (h (instList r ! t ! k)) < squashedSeqNum r ! t"
    and loop: "squash_loop (unat (squashWidth r)) (instList r ! t) (squashedSeqNum r ! t) False (Some (instList r ! t ! k)) h =
      Some (False, upd, Some (instList r ! t ! j), h')" and j: "j < length (instList r ! t)" and h': "heap_frame h h'"
  defines "r1 \<equiv> r\<lparr>robWrites := robWrites r + 1, squashIt := (squashIt r)[t := Some (instList r ! t ! j)]\<rparr>"
  shows "\<exists>q. doSquash t (r, h) =
    Some ((if seqNum (h' (instList r ! t ! j)) \<le> squashedSeqNum r ! t then squash_done t r1 else r1)\<lparr>tail := q\<rparr>, h')"
proof -
  note len = rob_wf_lengths [OF wf]
  let ?r2 = "if seqNum (h' (instList r ! t ! j)) \<le> squashedSeqNum r ! t then squash_done t r1 else r1"
  have "rob_wf r1 h" using wf len by (simp add: r1_def)
  then have "rob_wf ?r2 h" using squash_done_facts(1) [of r1 h t] t by (simp add: r1_def)
  then obtain q where q: "updateTail h' ?r2 = Some (?r2\<lparr>tail := q\<rparr>)"
    using updateTail_total by blast
  have d: "deref (instList r ! t) (Some (instList r ! t ! i)) = Some (instList r ! t ! i)"
    if "i < length (instList r ! t)" for i using that by (simp add: deref_def)
  have "doSquash t (r, h) = (if upd then updateTail h' ?r2 else Some ?r2) \<bind> (\<lambda>r. Some (r, h'))"
    using t k it nlt loop j len d by (simp add: doSquash_def squash_finish_def Let_def the_list_def r1_def)
  moreover have "(if upd then updateTail h' ?r2 else Some ?r2) = Some (?r2\<lparr>tail := if upd then q else tail ?r2\<rparr>)"
    using q by (cases upd) simp_all
  ultimately show ?thesis by (intro exI [of _ "if upd then q else tail ?r2"]) simp
qed

lemma doSquash_spec:
  assumes wf: "rob_wf r h" and t: "t < length (instList r)" and at: "at_index r t k"
    and lo: "\<forall>j<length (instList r ! t). (squashedSeqNum r ! t < seqNum (h (instList r ! t ! j))) = (lo \<le> j)"
  defines "w \<equiv> unat (squashWidth r)" and "L \<equiv> instList r ! t"
  assumes w: "0 < w"
  shows "\<exists>r'. same_lists r r' \<and> rob_wf r' h \<and>
    (if Suc k - lo \<le> w
     then doSquash t (r, h) = Some (r', mark_from lo (max lo (Suc k)) L h) \<and>
       doneSquashing r' ! t \<and> squashIt r' ! t = None
     else doSquash t (r, h) = Some (r', mark_from (Suc k - w) (Suc k) L h) \<and> at_index r' t (k - w))"
proof -
  note len = rob_wf_lengths [OF wf] and l = rob_wf_list [OF wf t, folded L_def]
  let ?sq = "squashedSeqNum r ! t"
  have k: "k < length L" "squashIt r ! t = Some (L ! k)" "\<not> doneSquashing r ! t"
    using at by (auto simp: at_index_def L_def)
  have d: "deref L (Some (L ! k)) = Some (L ! k)" using k by (simp add: deref_def)
  define m where "m = min w (Suc k - lo)"
  obtain upd where loop: "squash_loop w L ?sq False (Some (L ! k)) h =
    (if lo = 0 \<and> k < w then Some (True, upd, None, mark_from 0 (Suc k) L h)
     else Some (False, upd, Some (L ! (k - m)), mark_from (Suc k - m) (Suc k) L h))"
    using squash_loop_spec [OF list_wf_distinct [OF l(2)] k(1) lo [folded L_def]] unfolding m_def by blast
  note fin = doSquash_end [OF wf t, folded L_def w_def, OF k(1,2)]
  have le: "seqNum (h (L ! j)) \<le> ?sq \<longleftrightarrow> j < lo" if "j < length L" for j
    using lo that by (auto simp: L_def not_less [symmetric])
  define r1 where "r1 j = r\<lparr>robWrites := robWrites r + 1, squashIt := (squashIt r)[t := Some (L ! j)]\<rparr>" for j
  have r1: "rob_wf (r1 j) h" "same_lists r (r1 j)" for j using wf len by (simp_all add: r1_def same_lists_def)
  have dn: "same_lists r (squash_done t (r1 j)\<lparr>tail := q\<rparr>)" "rob_wf (squash_done t (r1 j)\<lparr>tail := q\<rparr>) h"
    "doneSquashing (squash_done t (r1 j)\<lparr>tail := q\<rparr>) ! t" "squashIt (squash_done t (r1 j)\<lparr>tail := q\<rparr>) ! t = None" for j q
    using squash_done_facts [OF r1(1), of t j] t by (auto simp: r1_def same_lists_def)
  consider (less) "seqNum (h (L ! k)) < ?sq" | (eq) "k < lo" "\<not> seqNum (h (L ! k)) < ?sq"
    | (head) "lo \<le> k" "lo = 0" "k < w" | (all) "lo \<le> k" "0 < lo" "Suc k - lo \<le> w" | (part) "lo \<le> k" "w < Suc k - lo"
    by linarith
  then show ?thesis
  proof cases
    case less
    then have "k < lo" using le [OF k(1)] by simp
    then have "max lo (Suc k) = lo" by simp
    then have "mark_from lo (max lo (Suc k)) L h = h" by simp
    moreover have "doSquash t (r, h) = Some (squash_done t (r\<lparr>robWrites := robWrites r + 1\<rparr>), h)"
      using less t k d len by (simp add: doSquash_def squash_finish_def Let_def the_list_def L_def [symmetric])
    moreover have "same_lists r (r\<lparr>robWrites := robWrites r + 1\<rparr>)" by (simp add: same_lists_def)
    ultimately show ?thesis
      using \<open>k < lo\<close> squash_done_facts [of "r\<lparr>robWrites := robWrites r + 1\<rparr>" h t] wf t
      by (intro exI [of _ "squash_done t (r\<lparr>robWrites := robWrites r + 1\<rparr>)"]) (simp add: same_lists_def)
  next
    case eq
    then have "m = 0" "max lo (Suc k) = lo" by (simp_all add: m_def)
    then show ?thesis
      using fin [OF eq(2), of upd k h] loop eq k(1) le [OF k(1)] dn by (auto simp: r1_def)
  next
    case head
    have "\<not> seqNum (h (L ! k)) < ?sq" using le [OF k(1)] head by simp
    then have "doSquash t (r, h) = Some (squash_done t (r\<lparr>robWrites := robWrites r + 1\<rparr>), mark_from 0 (Suc k) L h)"
      using loop head t k d len by (simp add: doSquash_def squash_finish_def Let_def the_list_def L_def [symmetric] w_def [symmetric])
    then show ?thesis
      using head squash_done_facts [of "r\<lparr>robWrites := robWrites r + 1\<rparr>" h t] wf t
      by (intro exI [of _ "squash_done t (r\<lparr>robWrites := robWrites r + 1\<rparr>)"]) (simp add: same_lists_def)
  next
    case all
    have "\<not> seqNum (h (L ! k)) < ?sq" using le [OF k(1)] all by simp
    moreover have m: "m = Suc k - lo" "k - m = lo - 1" "Suc k - m = lo" using all by (auto simp: m_def)
    moreover have "lo - 1 < length L" using all k(1) by simp
    ultimately show ?thesis
      using fin [of upd "lo - 1" "mark_from lo (Suc k) L h"] loop all le [of "lo - 1"] dn mark_from_frame
      by (auto simp: r1_def max_def)
  next
    case part
    have "\<not> seqNum (h (L ! k)) < ?sq" using le [OF k(1)] part by simp
    moreover have m: "m = w" "\<not> (lo = 0 \<and> k < w)" "lo \<le> k - w" "k - w < length L"
      using part k(1) by (auto simp: m_def)
    ultimately obtain q where "doSquash t (r, h) = Some (r1 (k - w)\<lparr>tail := q\<rparr>, mark_from (Suc k - w) (Suc k) L h)"
      using fin [of upd "k - w" "mark_from (Suc k - w) (Suc k) L h"] loop le [of "k - w"] mark_from_frame
      by (auto simp: r1_def)
    moreover have "at_index (r1 (k - w)\<lparr>tail := q\<rparr>) t (k - w)"
      using m k(3) t len by (simp add: at_index_def r1_def L_def)
    ultimately show ?thesis using part r1 by (auto simp: same_lists_def)
  qed
qed

section \<open>All cycles of a squash\<close>

lemma squash_cycles_spec:
  assumes "rob_wf r h" "t < length (instList r)" "at_index r t k"
    and "\<forall>j<length (instList r ! t). (squashedSeqNum r ! t < seqNum (h (instList r ! t ! j))) = (lo \<le> j)"
    and "0 < unat (squashWidth r)" "Suc k - lo \<le> n"
  shows "\<exists>r'. squash_cycles (Suc n) t (r, h) = Some (r', mark_from lo (max lo (Suc k)) (instList r ! t) h) \<and>
    same_lists r r' \<and> rob_wf r' h \<and> doneSquashing r' ! t"
  using assms
proof (induction n arbitrary: r h k)
  case 0
  obtain r' where "same_lists r r'" "rob_wf r' h" "doneSquashing r' ! t"
    "doSquash t (r, h) = Some (r', mark_from lo (max lo (Suc k)) (instList r ! t) h)"
    using doSquash_spec [OF 0(1-5)] 0(6) by auto
  moreover have "\<not> doneSquashing r ! t" using 0(3) by (simp add: at_index_def)
  ultimately show ?case by (simp add: squash_cycles.simps)
next
  case (Suc n)
  let ?w = "unat (squashWidth r)" and ?L = "instList r ! t"
  have nd: "\<not> doneSquashing r ! t" using Suc.prems(3) by (simp add: at_index_def)
  obtain r' where r': "same_lists r r'" "rob_wf r' h" and
    fin: "Suc k - lo \<le> ?w \<Longrightarrow> doneSquashing r' ! t \<and> doSquash t (r, h) = Some (r', mark_from lo (max lo (Suc k)) ?L h)" and
    more: "\<not> Suc k - lo \<le> ?w \<Longrightarrow> doSquash t (r, h) = Some (r', mark_from (Suc k - ?w) (Suc k) ?L h) \<and> at_index r' t (k - ?w)"
    using doSquash_spec [OF Suc.prems(1-5)] by (auto split: if_splits)
  show ?case
  proof (cases "Suc k - lo \<le> ?w")
    case True
    then show ?thesis using fin r' nd by (simp add: squash_cycles.simps)
  next
    case False
    let ?h = "mark_from (Suc k - ?w) (Suc k) ?L h"
    have same: "instList r' = instList r" "squashedSeqNum r' = squashedSeqNum r" "squashWidth r' = squashWidth r"
      using r'(1) by (simp_all add: same_lists_def)
    have "rob_wf r' ?h" using r'(2) heap_frame_rob_wf [OF mark_from_frame] by blast
    moreover have "Suc (k - ?w) - lo \<le> n" using False Suc.prems(5,6) by linarith
    ultimately obtain r'' where IH: "squash_cycles (Suc n) t (r', ?h) =
        Some (r'', mark_from lo (max lo (Suc (k - ?w))) ?L ?h)" "same_lists r' r''" "rob_wf r'' ?h" "doneSquashing r'' ! t"
      using Suc.IH [of r' ?h "k - ?w"] Suc.prems(2,4,5) more [OF False] same by auto
    have "max lo (Suc (k - ?w)) = Suc k - ?w" "lo \<le> Suc k - ?w" "max lo (Suc k) = Suc k" using False by auto
    moreover have "Suc k \<le> length ?L" using Suc.prems(3) by (simp add: at_index_def)
    ultimately have "mark_from lo (max lo (Suc (k - ?w))) ?L ?h = mark_from lo (max lo (Suc k)) ?L h"
      using mark_from_join [OF list_wf_distinct [OF rob_wf_list(2) [OF Suc.prems(1,2)]], of lo "Suc k - ?w" "Suc k" h] by simp
    moreover have "rob_wf r'' h" using IH(3) heap_frame_rob_wf [OF mark_from_frame] by blast
    moreover have "same_lists r r''" using r'(1) IH(2) by (simp add: same_lists_def)
    moreover have "squash_cycles (Suc (Suc n)) t (r, h) = squash_cycles (Suc n) t (r', ?h)"
      using more [OF False] nd by (simp add: squash_cycles.simps [of "Suc (Suc n)"])
    ultimately show ?thesis using IH(1,4) by auto
  qed
qed

lemma younger_suffix:
  assumes "sorted_wrt (\<lambda>p q. seqNum (h p) < seqNum (h q)) L"
  obtains lo where "lo \<le> length L" "\<forall>j<length L. (sq < seqNum (h (L ! j))) = (lo \<le> j)"
proof
  let ?P = "\<lambda>p. seqNum (h p) \<le> sq" and ?lo = "length (takeWhile (\<lambda>p. seqNum (h p) \<le> sq) L)"
  show "?lo \<le> length L" by (rule length_takeWhile_le)
  show "\<forall>j<length L. (sq < seqNum (h (L ! j))) = (?lo \<le> j)"
  proof (intro allI impI)
    fix j assume j: "j < length L"
    show "(sq < seqNum (h (L ! j))) = (?lo \<le> j)"
    proof
      assume "sq < seqNum (h (L ! j))"
      then show "?lo \<le> j" by (metis linorder_not_le nth_mem set_takeWhileD takeWhile_nth)
    next
      assume le: "?lo \<le> j"
      have "sq < seqNum (h (L ! ?lo))" using nth_length_takeWhile [of ?P L] le j by simp
      moreover have "seqNum (h (L ! ?lo)) \<le> seqNum (h (L ! j))"
        using assms le j by (cases "?lo = j") (auto simp: sorted_wrt_iff_nth_less less_imp_le)
      ultimately show "sq < seqNum (h (L ! j))" by linarith
    qed
  qed
qed

text \<open>
  (C9) Squashing in the reorder buffer is exact and ends: for a thread with at least
  one entry, starting a squash and running the per-cycle step at most once per
  entry finishes, keeps the lists and the invariant, and marks an instruction as
  squashed, ready to drain and without a pending squash exactly if it is an entry
  of the thread younger than the given sequence number.
\<close>

theorem squash_marks_exactly_younger:
  assumes "rob_wf r h" "t < length (instList r)" "instList r ! t \<noteq> []" "squashWidth r \<noteq> 0"
  shows "\<exists>r' h'. (rob_squash sq t (r, h) \<bind> squash_cycles (length (instList r ! t)) t) = Some (r', h') \<and>
    rob_wf r' h' \<and> doneSquashing r' ! t \<and> instList r' = instList r \<and>
    h' = (\<lambda>p. if p \<in> set (instList r ! t) \<and> sq < seqNum (h p) then mark_squashed (h p) else h p)"
proof -
  let ?L = "instList r ! t"
  note len = rob_wf_lengths [OF assms(1)] and w = rob_wf_list [OF assms(1,2)]
  obtain lo where lo: "lo \<le> length ?L" "\<forall>j<length ?L. (sq < seqNum (h (?L ! j))) = (lo \<le> j)"
    using younger_suffix [OF list_wfD(1) [OF w(2)]] by blast
  define r1 where "r1 = r\<lparr>robStatus := (robStatus r)[t := ROBSquashing], doneSquashing := (doneSquashing r)[t := False],
    squashedSeqNum := (squashedSeqNum r)[t := sq], squashIt := (squashIt r)[t := Some (last ?L)]\<rparr>"
  have ne: "threadEntries r ! t \<noteq> 0" using w(3) assms(3) by auto
  have start: "rob_squash sq t (r, h) = doSquash t (r1, h)"
    using assms(2,3) len ne by (simp add: rob_squash_def isEmpty_thread_def the_list_def Let_def r1_def)
  have r1: "rob_wf r1 h" using assms(1) len by (simp add: rob_wf_def r1_def)
  have at: "at_index r1 t (length ?L - 1)"
    using assms(2,3) len by (simp add: at_index_def r1_def last_conv_nth)
  have wd: "0 < unat (squashWidth r1)" using assms(4) by (simp add: r1_def unat_gt_0)
  have r1L: "instList r1 = instList r" "squashedSeqNum r1 ! t = sq" using len assms(2) by (simp_all add: r1_def)
  obtain r' where r': "squash_cycles (Suc (length ?L)) t (r1, h) =
      Some (r', mark_from lo (max lo (Suc (length ?L - 1))) ?L h)" "same_lists r1 r'" "rob_wf r' h" "doneSquashing r' ! t"
    using squash_cycles_spec [OF r1 _ at _ wd, of lo "length ?L"] lo assms(2,3) r1L by auto
  have "squash_cycles (Suc (length ?L)) t (r1, h) = doSquash t (r1, h) \<bind> squash_cycles (length ?L) t"
    using at by (simp add: squash_cycles.simps [of "Suc _"] at_index_def)
  moreover have "max lo (Suc (length ?L - 1)) = length ?L" using lo(1) assms(3) by (cases ?L) auto
  moreover have "p \<in> set (drop lo ?L) \<longleftrightarrow> p \<in> set ?L \<and> sq < seqNum (h p)" for p
  proof
    assume "p \<in> set (drop lo ?L)"
    then obtain i where "i < length ?L - lo" "p = ?L ! (lo + i)" by (auto simp: in_set_conv_nth)
    then show "p \<in> set ?L \<and> sq < seqNum (h p)" using lo by auto
  next
    assume "p \<in> set ?L \<and> sq < seqNum (h p)"
    then obtain i where "i < length ?L" "p = ?L ! i" "lo \<le> i" using lo(2) by (auto simp: in_set_conv_nth)
    then show "p \<in> set (drop lo ?L)" by (auto simp: in_set_conv_nth intro!: exI [of _ "i - lo"])
  qed
  ultimately have "mark_from lo (max lo (Suc (length ?L - 1))) ?L h =
      (\<lambda>p. if p \<in> set ?L \<and> sq < seqNum (h p) then mark_squashed (h p) else h p)"
    by (simp add: mark_from_def)
  moreover have "rob_wf r' (mark_from lo (max lo (Suc (length ?L - 1))) ?L h)"
    using r'(3) heap_frame_rob_wf [OF mark_from_frame] by blast
  moreover have "instList r' = instList r" using r'(2) r1L by (simp add: same_lists_def)
  ultimately show ?thesis
    using start r' \<open>squash_cycles (Suc (length ?L)) t (r1, h) = doSquash t (r1, h) \<bind> squash_cycles (length ?L) t\<close>
    by auto
qed

end
