(* ===== verification/ROB_Example.thy ===== *)
theory ROB_Example
  imports ROB_Run
begin

text \<open>
  A small reorder buffer on which the theorems of \<open>ROB_Security\<close>, \<open>ROB_Squash\<close> and
  \<open>ROB_Run\<close> are applied: instruction 1 loads register 5 and is not yet safe,
  instruction 2 adds and writes register 6, instruction 3 loads from the address in
  register 6, and instruction 4, not yet inserted, stores register 7 to that address.
  One thread, four entries.
\<close>

definition ex_reg :: "nat \<Rightarrow> PhysRegId" where
  "ex_reg n = \<lparr>regClass = IntRegClass, regIdx = n, elemIdx = no_elem, flatIdx = n\<rparr>"

definition ex_arch :: "nat \<Rightarrow> RegId" where
  "ex_arch n = \<lparr>regClass = IntRegClass, regIdx = n, elemIdx = no_elem\<rparr>"

definition ex_static :: "bool \<Rightarrow> bool \<Rightarrow> nat list \<Rightarrow> nat list \<Rightarrow> StaticInst" where
  "ex_static ld st srcs dests =
     \<lparr>si_isMemRef = (ld \<or> st), si_isLoad = ld, si_isStore = st, si_isControl = False,
      si_isStoreConditional = False, si_isInstPrefetch = False, si_isDataPrefetch = False,
      si_isMemBarrier = False, si_isWriteBarrier = False, si_isNonSpeculative = False,
      si_isFloating = False, si_isInteger = True, si_srcRegs = map ex_arch srcs, si_destRegs = map ex_arch dests\<rparr>"

definition ex_inst :: "nat \<Rightarrow> StaticInst \<Rightarrow> nat list \<Rightarrow> nat list \<Rightarrow> DynInstPtr option list \<Rightarrow> bool \<Rightarrow> DynInst" where
  "ex_inst sn st src dest args rob =
     (initVars 2 2 (ex_reg 0) st (of_nat sn) sn)\<lparr>srcRegIdx := map ex_reg src, destRegIdx := map ex_reg dest, argProducers := args,
        status := (\<lambda>s. s = RobEntry \<and> rob \<or> s = CanCommit \<and> sn = 1)\<rparr>"

definition ex_heap :: inst_heap where
  "ex_heap = (\<lambda>p.
     if p = 1 then ex_inst 1 (ex_static True False [1] [2]) [4] [5] [None, None] True
     else if p = 2 then ex_inst 2 (ex_static False False [2] [3]) [5] [6] [Some 1, None] True
     else if p = 3 then set_flag HasPendingSquash True (ex_inst 3 (ex_static True False [3] [7]) [6] [7] [Some 2, None] True)
     else ex_inst 4 (ex_static False True [7, 3] []) [7, 6] [] [None, None] False)"

definition ex_rob :: rob where
  "ex_rob =
     \<lparr>robStatus = [Running], robPolicy = Dynamic, activeThreads = [0], numEntries = 4, threadEntries = [3],
      maxEntries = [4], instList = [[1, 2, 3]], squashWidth = 1, tail = Some 3, head = Some 1, squashIt = [None],
      numInstsInROB = 3, squashedSeqNum = [0], doneSquashing = [True], numThreads = 1, robReads = 0, robWrites = 0,
      totalSquashDelayCycles = 0, critical_delay_count = Map.empty, delay_cause = Map.empty\<rparr>"

definition ex_conf :: cpu_config where
  "ex_conf = \<lparr>safe = True, loadInExec = True, isInvisibleSpec = True, needsTSO = True, isFuturistic = False,
     STT = True, impChannel = False, moreTransTypes = 0\<rparr>"

definition ex_lists :: cpu_lists where
  "ex_lists = \<lparr>removeInstsThisCycle = False, removeList = []\<rparr>"

lemma ex_inst_sel [simp]:
  "seqNum (ex_inst sn st src dest args rob) = sn" "staticInst (ex_inst sn st src dest args rob) = st"
  "threadNumber (ex_inst sn st src dest args rob) = 0" "argProducers (ex_inst sn st src dest args rob) = args"
  "srcRegIdx (ex_inst sn st src dest args rob) = map ex_reg src"
  "destRegIdx (ex_inst sn st src dest args rob) = map ex_reg dest"
  "status (ex_inst sn st src dest args rob) s = (s = RobEntry \<and> rob \<or> s = CanCommit \<and> sn = 1)"
  "instFlags (ex_inst sn st src dest args rob) f = (f = RecordResult \<or> f = Predicate)"
  "fault (ex_inst sn st src dest args rob) = None"
  by (auto simp: ex_inst_def initVars_def)

lemma ex_static_sel [simp]:
  "si_isMemRef (ex_static ld st srcs dests) = (ld \<or> st)" "si_isLoad (ex_static ld st srcs dests) = ld"
  "si_isStore (ex_static ld st srcs dests) = st" "si_isControl (ex_static ld st srcs dests) = False"
  "si_srcRegs (ex_static ld st srcs dests) = map ex_arch srcs" "si_destRegs (ex_static ld st srcs dests) = map ex_arch dests"
  by (simp_all add: ex_static_def)

lemma ex_rob_sel [simp]:
  "instList ex_rob = [[1, 2, 3]]" "activeThreads ex_rob = [0]" "squashWidth ex_rob = 1" "numInstsInROB ex_rob = 3"
  "numEntries ex_rob = 4"
  by (simp_all add: ex_rob_def)

lemma ex_heap_sel [simp]:
  "ex_heap 1 = ex_inst 1 (ex_static True False [1] [2]) [4] [5] [None, None] True"
  "ex_heap (Suc 0) = ex_inst 1 (ex_static True False [1] [2]) [4] [5] [None, None] True"
  "ex_heap 2 = ex_inst 2 (ex_static False False [2] [3]) [5] [6] [Some 1, None] True"
  "ex_heap 3 = set_flag HasPendingSquash True (ex_inst 3 (ex_static True False [3] [7]) [6] [7] [Some 2, None] True)"
  "ex_heap 4 = ex_inst 4 (ex_static False True [7, 3] []) [7, 6] [] [None, None] False"
  by (simp_all add: ex_heap_def)

lemma ex_wf: "rob_wf ex_rob ex_heap"
  by (simp add: rob_wf_def list_wf_def inst_wf_def args_ok_def) (simp add: ex_rob_def)

lemma ex_taint: "dest_taint ex_heap 1" "dest_taint ex_heap 2" "operand_taint ex_heap 3 0"
proof -
  show 1: "dest_taint ex_heap 1" by (rule access) simp_all
  show 2: "dest_taint ex_heap 2" by (rule flow [of 0 _ _ 1]) (use 1 in simp_all)
  show "operand_taint ex_heap 3 0" using 2 by (simp add: operand_taint_def)
qed

theorem compute_taint_reachability_witness:
  "rob_wf ex_rob ex_heap \<and> (\<exists>h'. compute_taint ex_conf (ex_rob, ex_heap) = Some h' \<and>
     isDestTainted (h' 2) \<and> isAddrTainted (h' 3) \<and> \<not> isArgsTainted (h' 1))"
proof -
  have "STT ex_conf" by (simp add: ex_conf_def)
  from compute_taint_reachability [OF ex_wf this] ex_taint ex_wf show ?thesis
    by (auto simp: operand_taint_def)
qed

theorem visibility_point_witness:
  "rob_wf ex_rob ex_heap \<and> safe_scheme ex_conf \<and>
   (\<exists>h'. updateVisibleState ex_conf (ex_rob, ex_heap) = Some h' \<and> isUnsquashable (h' 3))"
proof -
  have s: "safe_scheme ex_conf" by (simp add: ex_conf_def safe_scheme_def)
  have i: "\<forall>L\<in>set (instList ex_rob). \<forall>p\<in>set L. vp_inv ex_conf (ex_heap p)"
    by (simp add: vp_inv_def vp_bit_def ex_conf_def)
  have "older_ok ex_conf ex_heap (take 2 (instList ex_rob ! 0))" by (simp add: older_ok_def ex_conf_def)
  with visibility_point [OF ex_wf s i] s ex_wf show ?thesis by auto
qed

theorem pending_squash_released_witness:
  "rob_wf ex_rob ex_heap \<and> (\<exists>h' r'. compute_taint ex_conf (ex_rob, ex_heap) = Some h' \<and>
     getResolvedPendingSquashInst 0 (ex_rob, h') = Some (None, r'))"
proof -
  have c: "STT ex_conf" "0 \<in> set (activeThreads ex_rob)" by (simp_all add: ex_conf_def)
  have n: "\<forall>p\<in>set (instList ex_rob ! 0). \<not> squash_released ex_heap p"
    using ex_taint(3) by (auto simp: squash_released_def)
  obtain h' res r' where h': "compute_taint ex_conf (ex_rob, ex_heap) = Some h'"
    "getResolvedPendingSquashInst 0 (ex_rob, h') = Some (res, r')"
    "case res of None \<Rightarrow> \<forall>p\<in>set (instList ex_rob ! 0). \<not> squash_released ex_heap p
     | Some p \<Rightarrow> p \<in> set (instList ex_rob ! 0) \<and> squash_released ex_heap p \<and>
         (\<forall>q\<in>set (instList ex_rob ! 0). seqNum (ex_heap q) < seqNum (ex_heap p) \<longrightarrow> \<not> squash_released ex_heap q)"
    using pending_squash_released [OF ex_wf c] by blast
  then have "res = None" using n by (cases res) auto
  with h' ex_wf show ?thesis by blast
qed

theorem squash_marks_exactly_younger_witness:
  "rob_wf ex_rob ex_heap \<and> (\<exists>r' h'. (rob_squash 1 0 (ex_rob, ex_heap) \<bind> squash_cycles 3 0) = Some (r', h') \<and>
     doneSquashing r' ! 0 \<and> isSquashed (h' 3) \<and> isSquashed (h' 2) \<and> \<not> isSquashed (h' 1))"
proof -
  have 3: "length (instList ex_rob ! 0) = 3" by simp
  obtain r' h' where "(rob_squash 1 0 (ex_rob, ex_heap) \<bind> squash_cycles 3 0) = Some (r', h')" "doneSquashing r' ! 0"
    and h': "h' = (\<lambda>p. if p \<in> set (instList ex_rob ! 0) \<and> 1 < seqNum (ex_heap p) then mark_squashed (ex_heap p) else ex_heap p)"
    using squash_marks_exactly_younger [OF ex_wf, of 0 1, unfolded 3] by auto
  moreover have "isSquashed (h' 3) \<and> isSquashed (h' 2) \<and> \<not> isSquashed (h' 1)" by (simp add: h' mark_squashed_def)
  ultimately show ?thesis using ex_wf by blast
qed

theorem rob_reachable_invariant_witness:
  "\<exists>r0 r h. mk_ROB [4] [Running] 1 4 1 1 ''Dynamic'' 0 = Some r0 \<and>
     (rob_step ex_conf)\<^sup>*\<^sup>* (setActiveThreads [0] r0, ex_heap) (r, h) \<and> instList r = [[4]] \<and> rob_wf r h"
proof -
  obtain r0 where r0: "mk_ROB [4] [Running] 1 4 1 1 ''Dynamic'' 0 = Some r0" "instList r0 = [[]]" "numInstsInROB r0 = 0"
    "numEntries r0 = 4"
    by (simp add: mk_ROB_def resetState_def Let_def to_lower_def char_of_def bit_0)
  let ?r = "setActiveThreads [0] r0"
  have wf: "rob_wf ?r ex_heap" by (rule mk_ROB_wf [OF r0(1)]) simp_all
  have fr: "fresh_inst ?r ex_heap 4" using r0 by (simp add: fresh_inst_def inst_wf_def setActiveThreads_def less_Suc_eq)
  have "numInstsInROB ?r < uint (numEntries ?r)" using r0 by (simp add: setActiveThreads_def)
  from insertInst_eq [OF wf fr this] obtain r h where rh: "insertInst 4 (?r, ex_heap) = Some (r, h)" "instList r = [[4]]"
    using r0 by (simp add: setActiveThreads_def)
  then have st: "(rob_step ex_conf)\<^sup>*\<^sup>* (?r, ex_heap) (r, h)" using rob_step.insert [OF fr] by blast
  from rob_reachable_invariant [OF r0(1) _ _ _ st] r0(1) rh(2) st show ?thesis by auto
qed


theorem retire_ready_head_witness:
  "rob_wf ex_rob ex_heap \<and> (\<exists>r' h'. retireHead 0 (ex_rob, ex_heap, ex_lists) = Some (r', h', removeFrontInst 1 ex_lists) \<and>
     rob_wf r' h' \<and> instList r' = [[2, 3]] \<and> isCommitted (h' 1))"
proof -
  have "readyToCommit (ex_heap 1)" by (simp add: readyToCommit_def)
  from retire_ready_head [OF ex_wf, of 0 1 "[2, 3]" ex_lists, OF _ _ this] ex_wf show ?thesis by auto
qed

theorem head_oldest_tail_youngest_witness:
  "rob_wf ex_rob ex_heap \<and> (\<exists>r1. updateHead ex_heap ex_rob = Some r1 \<and> head r1 = Some 1)"
proof -
  have "live ex_rob = {1, 2, 3}" by (auto simp: live_def)
  with head_oldest_tail_youngest [OF ex_wf] ex_wf show ?thesis by (auto split: option.splits)
qed

text \<open>Instruction 5 reads the floating-point register 16, which is the result of load 1.\<close>

definition ex_float :: StaticInst where
  "ex_float = (ex_static False False [] [])\<lparr>si_srcRegs := [\<lparr>regClass = FloatRegClass, regIdx = 16, elemIdx = no_elem\<rparr>]\<rparr>"

definition ex_heap16 :: inst_heap where
  "ex_heap16 = ex_heap(5 := ex_inst 5 ex_float [5] [] [None, None] False)"

theorem index_16_escapes_taint_witness:
  "rob_wf ex_rob ex_heap16 \<and> dest_taint ex_heap16 1 \<and> srcRegIdx (ex_heap16 5) ! 0 \<in> set (destRegIdx (ex_heap16 1)) \<and>
   (\<exists>r' h1 h'. insertInst 5 (ex_rob, ex_heap16) = Some (r', h1) \<and> compute_taint ex_conf (r', h1) = Some h' \<and> \<not> isArgsTainted (h' 5))"
proof -
  have sel: "ex_heap16 1 = ex_heap 1" "ex_heap16 2 = ex_heap 2" "ex_heap16 3 = ex_heap 3" "ex_heap16 (Suc 0) = ex_heap 1"
    "ex_heap16 5 = ex_inst 5 ex_float [5] [] [None, None] False" "si_srcRegs ex_float = [\<lparr>regClass = FloatRegClass, regIdx = 16, elemIdx = no_elem\<rparr>]"
    "si_destRegs ex_float = []" "\<not> si_isMemRef ex_float"
    by (simp_all add: ex_heap16_def ex_float_def)
  have wf: "rob_wf ex_rob ex_heap16"
    using ex_wf by (simp add: rob_wf_def list_wf_def inst_wf_def args_ok_def sel)
  have fr: "fresh_inst ex_rob ex_heap16 5" by (simp add: fresh_inst_def inst_wf_def less_Suc_eq sel)
  have t: "dest_taint ex_heap16 1" by (rule access) (simp_all add: sel)
  have "STT ex_conf" by (simp add: ex_conf_def)
  from index_16_escapes_taint [OF wf fr _ _ this] wf t show ?thesis by (simp add: sel)
qed

end
