(* ===== verification/Free_List.thy ===== *)
theory Free_List
  imports Registers "HOL-Library.Multiset"
begin

text \<open>
  The free lists of physical registers (\<^verbatim>\<open>cpu/o3/free_list.hh\<close>, \<^verbatim>\<open>free_list.cc\<close>) and the
  register identifiers of the physical register file that fill them
  (\<^verbatim>\<open>cpu/o3/regfile.cc\<close>). A \<^verbatim>\<open>std::queue\<close> is a list, front first; the register contents
  are not modelled. The interface that the rename maps rely on is the locale
  \<open>register_pool\<close>: a pool hands out a register it holds and takes registers back.
\<close>

section \<open>A single free list\<close>

type_synonym SimpleFreeList = "PhysRegId list"

definition simple_addReg :: "PhysRegId \<Rightarrow> SimpleFreeList \<Rightarrow> SimpleFreeList" where
  "simple_addReg reg freeRegs = freeRegs @ [reg]"

definition simple_addRegs :: "PhysRegId list \<Rightarrow> SimpleFreeList \<Rightarrow> SimpleFreeList" where
  "simple_addRegs regs freeRegs = foldl (\<lambda>l reg. simple_addReg reg l) freeRegs regs"

definition simple_getReg :: "SimpleFreeList \<Rightarrow> (PhysRegId \<times> SimpleFreeList) option" where
  "simple_getReg freeRegs = do {
     assertion (freeRegs \<noteq> []);
     Some (hd freeRegs, tl freeRegs)
   }"

definition numFreeRegs :: "SimpleFreeList \<Rightarrow> nat" where
  "numFreeRegs freeRegs = length freeRegs"

definition hasFreeRegs :: "SimpleFreeList \<Rightarrow> bool" where
  "hasFreeRegs freeRegs \<longleftrightarrow> freeRegs \<noteq> []"

section \<open>The lists of all classes\<close>

record UnifiedFreeList =
  intList :: SimpleFreeList
  floatList :: SimpleFreeList
  vecList :: SimpleFreeList
  vecElemList :: SimpleFreeList
  ccList :: SimpleFreeList

text \<open>
  The \<^verbatim>\<open>switch\<close> over the class of a register, which panics on the miscellaneous
  class: \<open>on_list c f\<close> applies \<open>f\<close> to the list of class \<open>c\<close>.
\<close>

fun class_list :: "RegClass \<Rightarrow> UnifiedFreeList \<Rightarrow> SimpleFreeList" where
  "class_list IntRegClass u = intList u"
| "class_list FloatRegClass u = floatList u"
| "class_list VecRegClass u = vecList u"
| "class_list VecElemClass u = vecElemList u"
| "class_list CCRegClass u = ccList u"
| "class_list MiscRegClass u = []"

fun on_list :: "RegClass \<Rightarrow> (SimpleFreeList \<Rightarrow> SimpleFreeList) \<Rightarrow> UnifiedFreeList \<Rightarrow> UnifiedFreeList option" where
  "on_list IntRegClass f u = Some (u\<lparr>intList := f (intList u)\<rparr>)"
| "on_list FloatRegClass f u = Some (u\<lparr>floatList := f (floatList u)\<rparr>)"
| "on_list VecRegClass f u = Some (u\<lparr>vecList := f (vecList u)\<rparr>)"
| "on_list VecElemClass f u = Some (u\<lparr>vecElemList := f (vecElemList u)\<rparr>)"
| "on_list CCRegClass f u = Some (u\<lparr>ccList := f (ccList u)\<rparr>)"
| "on_list MiscRegClass f u = None"

definition addReg :: "PhysRegId \<Rightarrow> UnifiedFreeList \<Rightarrow> UnifiedFreeList option" where
  "addReg freed_reg u = on_list (regClass freed_reg) (simple_addReg freed_reg) u"

definition addRegs :: "PhysRegId list \<Rightarrow> UnifiedFreeList \<Rightarrow> UnifiedFreeList option" where
  "addRegs regs u =
     (if regs = [] then Some u
      else do {
        assertion (regClass (hd regs) = regClass (last regs));
        on_list (regClass (hd regs)) (simple_addRegs regs) u
      })"

definition get_class_reg :: "RegClass \<Rightarrow> UnifiedFreeList \<Rightarrow> (PhysRegId \<times> UnifiedFreeList) option" where
  "get_class_reg c u = do {
     (r, l) \<leftarrow> simple_getReg (class_list c u);
     u' \<leftarrow> on_list c (\<lambda>_. l) u;
     Some (r, u')
   }"

abbreviation getIntReg :: "UnifiedFreeList \<Rightarrow> (PhysRegId \<times> UnifiedFreeList) option" where
  "getIntReg \<equiv> get_class_reg IntRegClass"

abbreviation getFloatReg :: "UnifiedFreeList \<Rightarrow> (PhysRegId \<times> UnifiedFreeList) option" where
  "getFloatReg \<equiv> get_class_reg FloatRegClass"

abbreviation getVecReg :: "UnifiedFreeList \<Rightarrow> (PhysRegId \<times> UnifiedFreeList) option" where
  "getVecReg \<equiv> get_class_reg VecRegClass"

abbreviation getVecElem :: "UnifiedFreeList \<Rightarrow> (PhysRegId \<times> UnifiedFreeList) option" where
  "getVecElem \<equiv> get_class_reg VecElemClass"

abbreviation getCCReg :: "UnifiedFreeList \<Rightarrow> (PhysRegId \<times> UnifiedFreeList) option" where
  "getCCReg \<equiv> get_class_reg CCRegClass"

section \<open>The register identifiers\<close>

datatype VecMode = Full | Elem

record PhysRegFile =
  intRegIds :: "PhysRegId list"
  floatRegIds :: "PhysRegId list"
  vecRegIds :: "PhysRegId list"
  vecElemIds :: "PhysRegId list"
  ccRegIds :: "PhysRegId list"
  miscRegIds :: "PhysRegId list"
  rf_vecMode :: VecMode

definition mk_PhysRegId :: "RegClass \<Rightarrow> nat \<Rightarrow> nat \<Rightarrow> PhysRegId" where
  "mk_PhysRegId c i flat = \<lparr>regClass = c, regIdx = i, elemIdx = no_elem, flatIdx = flat\<rparr>"

definition mk_PhysElemId :: "nat \<Rightarrow> nat \<Rightarrow> nat \<Rightarrow> PhysRegId" where
  "mk_PhysElemId i e flat = \<lparr>regClass = VecElemClass, regIdx = i, elemIdx = e, flatIdx = flat\<rparr>"

definition mk_PhysRegFile :: "ISA \<Rightarrow> nat \<Rightarrow> nat \<Rightarrow> nat \<Rightarrow> nat \<Rightarrow> VecMode \<Rightarrow> PhysRegFile" where
  "mk_PhysRegFile isa nInt nFloat nVec nCC vmode =
     (let n = NumVecElemPerVecReg isa;
          b1 = nInt; b2 = b1 + nFloat; b3 = b2 + nVec; b4 = b3 + nVec * n
      in \<lparr>intRegIds = map (\<lambda>i. mk_PhysRegId IntRegClass i i) [0..<nInt],
          floatRegIds = map (\<lambda>i. mk_PhysRegId FloatRegClass i (b1 + i)) [0..<nFloat],
          vecRegIds = map (\<lambda>i. mk_PhysRegId VecRegClass i (b2 + i)) [0..<nVec],
          vecElemIds = concat (map (\<lambda>i. map (\<lambda>e. mk_PhysElemId i e (b3 + i * n + e)) [0..<n]) [0..<nVec]),
          ccRegIds = map (\<lambda>i. mk_PhysRegId CCRegClass i (b4 + i)) [0..<nCC],
          miscRegIds = map (\<lambda>i. mk_PhysRegId MiscRegClass i 0) [0..<NumMiscRegs isa],
          rf_vecMode = vmode\<rparr>)"

fun getRegIds :: "PhysRegFile \<Rightarrow> RegClass \<Rightarrow> PhysRegId list" where
  "getRegIds rf IntRegClass = intRegIds rf"
| "getRegIds rf FloatRegClass = floatRegIds rf"
| "getRegIds rf VecRegClass = vecRegIds rf"
| "getRegIds rf VecElemClass = vecElemIds rf"
| "getRegIds rf CCRegClass = ccRegIds rf"
| "getRegIds rf MiscRegClass = miscRegIds rf"

definition initFreeList :: "ISA \<Rightarrow> PhysRegFile \<Rightarrow> UnifiedFreeList \<Rightarrow> UnifiedFreeList option" where
  "initFreeList isa rf u = do {
     assertion (map regIdx (intRegIds rf) = [0..<length (intRegIds rf)]);
     u \<leftarrow> addRegs (intRegIds rf) u;
     assertion (map regIdx (floatRegIds rf) = [0..<length (floatRegIds rf)]);
     u \<leftarrow> addRegs (floatRegIds rf) u;
     assertion (map regIdx (vecRegIds rf) = [0..<length (vecRegIds rf)]);
     assertion (map (\<lambda>r. (regIdx r, elemIdx r)) (vecElemIds rf) =
                List.product [0..<length (vecRegIds rf)] [0..<NumVecElemPerVecReg isa]);
     u \<leftarrow> (if rf_vecMode rf = Full then addRegs (vecRegIds rf) u else addRegs (vecElemIds rf) u);
     assertion (map regIdx (ccRegIds rf) = [0..<length (ccRegIds rf)]);
     addRegs (ccRegIds rf) u
   }"

definition mk_UnifiedFreeList :: "ISA \<Rightarrow> PhysRegFile \<Rightarrow> UnifiedFreeList option" where
  "mk_UnifiedFreeList isa rf =
     initFreeList isa rf \<lparr>intList = [], floatList = [], vecList = [], vecElemList = [], ccList = []\<rparr>"

section \<open>The interface of a free list\<close>

text \<open>The registers that a rename map (with null entries) maps to.\<close>

fun mapped :: "PhysRegId option list \<Rightarrow> PhysRegId multiset" where
  "mapped [] = {#}"
| "mapped (None # m) = mapped m"
| "mapped (Some p # m) = add_mset p (mapped m)"

lemma mapped_update:
  "i < length m \<Longrightarrow> mapped (m[i := Some q]) + (case m ! i of None \<Rightarrow> {#} | Some p \<Rightarrow> {#p#}) = add_mset q (mapped m)"
proof (induction m arbitrary: i)
  case (Cons a m)
  show ?case
  proof (cases i)
    case 0
    then show ?thesis by (cases a) simp_all
  next
    case (Suc j)
    then show ?thesis using Cons.IH [of j] Cons.prems by (cases a) (auto simp: add_mset_commute split: option.splits)
  qed
qed simp

lemma mapped_replace:
  assumes "i < length m" "m ! i = Some p"
  shows "add_mset p (mapped (m[i := Some q])) = add_mset q (mapped m)"
  using mapped_update [OF assms(1), of q] assms(2) by simp

lemma mapped_nth: "i < length m \<Longrightarrow> m ! i = Some p \<Longrightarrow> p \<in># mapped m"
  by (induction m arbitrary: i rule: mapped.induct) (auto simp: nth_Cons split: nat.splits)

lemma mapped_null [simp]: "mapped (replicate n None) = {#}"
  by (induction n) simp_all

locale register_pool =
  fixes contents :: "'l \<Rightarrow> PhysRegId multiset"
    and get :: "'l \<Rightarrow> (PhysRegId \<times> 'l) option"
    and put :: "PhysRegId \<Rightarrow> 'l \<Rightarrow> 'l"
  assumes get_None: "get l = None \<longleftrightarrow> contents l = {#}"
    and get_Some: "get l = Some (r, l') \<Longrightarrow> contents l = add_mset r (contents l')"
    and put_contents: "contents (put r l) = add_mset r (contents l)"
begin

text \<open>
  Mapping an architectural register to a register of the pool, undoing that
  mapping, and freeing the register that was mapped before.
\<close>

lemma map_conserves:
  assumes "get l = Some (r, l')" "i < length m" "m ! i = Some p"
  shows "contents l' + mapped (m[i := Some r]) + {#p#} = contents l + mapped m"
  using get_Some [OF assms(1)] mapped_replace [OF assms(2,3), of r] by simp

lemma first_map_conserves:
  assumes "get l = Some (r, l')" "i < length m" "m ! i = None"
  shows "contents l' + mapped (m[i := Some r]) = contents l + mapped m"
  using get_Some [OF assms(1)] mapped_update [OF assms(2), of r] assms(3) by simp

lemma undo_conserves:
  assumes "i < length m" "m ! i = Some r"
  shows "contents (put r l) + mapped (m[i := Some p]) = contents l + mapped m + {#p#}"
  using put_contents [of r l] mapped_replace [OF assms, of p] by simp

lemma get_defined: "contents l \<noteq> {#} \<Longrightarrow> \<exists>r l'. get l = Some (r, l')"
  using get_None [of l] by auto

end

interpretation fl: register_pool mset simple_getReg simple_addReg
proof
  show "(simple_getReg l = None) = (mset l = {#})" for l
    by (simp add: simple_getReg_def assertion_def)
  show "simple_getReg l = Some (r, l') \<Longrightarrow> mset l = add_mset r (mset l')" for l r l'
    by (cases l) (auto simp: simple_getReg_def assertion_def)
  show "mset (simple_addReg r l) = add_mset r (mset l)" for r l
    by (simp add: simple_addReg_def)
qed

section \<open>Lemmas\<close>

lemma simple_addRegs_eq: "simple_addRegs regs l = l @ regs"
  by (induction regs arbitrary: l) (simp_all add: simple_addRegs_def simple_addReg_def)

lemma on_list_class_list:
  "on_list c f u = Some u' \<Longrightarrow> class_list d u' = (if d = c then f (class_list c u) else class_list d u)"
  by (cases c; cases d) auto

lemma on_list_defined: "c \<noteq> MiscRegClass \<Longrightarrow> \<exists>u'. on_list c f u = Some u'"
  by (cases c) simp_all

lemma get_class_reg_SomeD:
  assumes "get_class_reg c u = Some (r, u')"
  shows "simple_getReg (class_list c u) = Some (r, class_list c u')" "d \<noteq> c \<Longrightarrow> class_list d u' = class_list d u"
  using assms by (auto simp: get_class_reg_def bind_eq_Some_conv on_list_class_list)

lemma get_class_reg_defined:
  "class_list c u \<noteq> [] \<Longrightarrow> \<exists>r u'. get_class_reg c u = Some (r, u')"
  by (cases c) (auto simp: get_class_reg_def simple_getReg_def assertion_def)

lemma addReg_SomeD:
  assumes "addReg r u = Some u'"
  shows "class_list (regClass r) u' = simple_addReg r (class_list (regClass r) u)"
    and "d \<noteq> regClass r \<Longrightarrow> class_list d u' = class_list d u"
  using assms by (auto simp: addReg_def on_list_class_list)

text \<open>The identifiers of a register file are pairwise different and of their class.\<close>

lemma getRegIds_class: "p \<in> set (getRegIds (mk_PhysRegFile isa a b c d m) k) \<Longrightarrow> regClass p = k"
  by (cases k) (auto simp: mk_PhysRegFile_def Let_def mk_PhysRegId_def mk_PhysElemId_def)

lemma getRegIds_distinct: "k \<noteq> VecElemClass \<Longrightarrow> distinct (getRegIds (mk_PhysRegFile isa a b c d m) k)"
  by (cases k) (auto simp: mk_PhysRegFile_def Let_def mk_PhysRegId_def distinct_map inj_on_def)

lemma addRegs_ids:
  assumes "\<forall>p\<in>set ids. regClass p = k" "k \<noteq> MiscRegClass"
  shows "\<exists>u'. addRegs ids u = Some u' \<and> (\<forall>c. class_list c u' = (if c = k then class_list k u @ ids else class_list c u))"
proof (cases "ids = []")
  case False
  then have "regClass (hd ids) = k" "regClass (last ids) = k" using assms(1) by simp_all
  moreover obtain u' where "on_list k (simple_addRegs ids) u = Some u'" using on_list_defined [OF assms(2)] by blast
  ultimately show ?thesis
    using False on_list_class_list [of k "simple_addRegs ids" u u'] by (simp add: addRegs_def simple_addRegs_eq)
qed (simp add: addRegs_def)

end
