(* ===== verification/Rename_Map.thy ===== *)
theory Rename_Map
  imports Free_List
begin

text \<open>
  The register rename maps (\<^verbatim>\<open>cpu/o3/rename_map.hh\<close>, \<^verbatim>\<open>rename_map.cc\<close>) and the scoreboard
  (\<^verbatim>\<open>cpu/o3/scoreboard.hh\<close>). A null pointer in a map is \<open>None\<close>. The map holds a pointer
  to its free list; here the free list is passed and returned. \<^verbatim>\<open>rename\<close> indexes the
  map with \<^verbatim>\<open>index()\<close>, whereas \<^verbatim>\<open>lookup\<close> and \<^verbatim>\<open>setEntry\<close> use \<^verbatim>\<open>flatIndex()\<close>; the two
  differ for vector elements. Switching the vector mode is not modelled.
\<close>

section \<open>The map of one class\<close>

record SimpleRenameMap =
  arch2phys :: "PhysRegId option list"
  zeroReg :: RegId

text \<open>The assertion of \<^verbatim>\<open>lookup\<close> and \<^verbatim>\<open>setEntry\<close> admits the size itself; the access traps there.\<close>

definition simple_lookup :: "ISA \<Rightarrow> RegId \<Rightarrow> SimpleRenameMap \<Rightarrow> PhysRegId option option" where
  "simple_lookup isa arch_reg m = do {
     assertion (flatIndex isa arch_reg \<le> length (arch2phys m));
     vec_get (arch2phys m) (flatIndex isa arch_reg)
   }"

definition simple_setEntry :: "ISA \<Rightarrow> RegId \<Rightarrow> PhysRegId \<Rightarrow> SimpleRenameMap \<Rightarrow> SimpleRenameMap option" where
  "simple_setEntry isa arch_reg phys_reg m = do {
     assertion (flatIndex isa arch_reg \<le> length (arch2phys m));
     a \<leftarrow> vec_set (arch2phys m) (flatIndex isa arch_reg) (Some phys_reg);
     Some (m\<lparr>arch2phys := a\<rparr>)
   }"

definition simple_init :: "nat \<Rightarrow> nat \<Rightarrow> SimpleRenameMap" where
  "simple_init sz zero =
     \<lparr>arch2phys = replicate sz None, zeroReg = \<lparr>regClass = IntRegClass, regIdx = zero, elemIdx = no_elem\<rparr>\<rparr>"

type_synonym RenameInfo = "PhysRegId \<times> PhysRegId option"

definition simple_rename ::
  "ISA \<Rightarrow> RegId \<Rightarrow> SimpleRenameMap \<times> SimpleFreeList \<Rightarrow> (RenameInfo \<times> SimpleRenameMap \<times> SimpleFreeList) option" where
  "simple_rename isa arch_reg s = do {
     let (m, freeList) = s;
     prev_reg \<leftarrow> vec_get (arch2phys m) (regIdx arch_reg);
     if arch_reg \<noteq> zeroReg m then do {
       (renamed_reg, freeList) \<leftarrow> simple_getReg freeList;
       a \<leftarrow> vec_set (arch2phys m) (regIdx arch_reg) (Some renamed_reg);
       Some ((renamed_reg, prev_reg), m\<lparr>arch2phys := a\<rparr>, freeList)
     } else do {
       p \<leftarrow> prev_reg;
       assertion (isZeroReg isa p);
       Some ((p, prev_reg), m, freeList)
     }
   }"

section \<open>The maps of all classes\<close>

record UnifiedRenameMap =
  intMap :: SimpleRenameMap
  floatMap :: SimpleRenameMap
  ccMap :: SimpleRenameMap
  vecMap :: SimpleRenameMap
  vecElemMap :: SimpleRenameMap
  vecMode :: VecMode

text \<open>\<^verbatim>\<open>(RegIndex)-1\<close>; a \<^verbatim>\<open>RegIndex\<close> is a \<^verbatim>\<open>uint16_t\<close>.\<close>

definition no_zero_reg :: nat where
  "no_zero_reg = 65535"

definition unified_init :: "ISA \<Rightarrow> nat \<Rightarrow> nat \<Rightarrow> VecMode \<Rightarrow> UnifiedRenameMap" where
  "unified_init isa intZeroReg floatZeroReg mode =
     \<lparr>intMap = simple_init (NumIntRegs isa) intZeroReg,
      floatMap = simple_init (NumFloatRegs isa) floatZeroReg,
      ccMap = simple_init (NumCCRegs isa) no_zero_reg,
      vecMap = simple_init (NumVecRegs isa) no_zero_reg,
      vecElemMap = simple_init (NumVecRegs isa * NumVecElemPerVecReg isa) no_zero_reg,
      vecMode = mode\<rparr>"

text \<open>
  The \<^verbatim>\<open>switch\<close> over the class that all operations share: the map of a class, and the
  assertions on the vector mode. The miscellaneous registers have no map.
\<close>

fun class_map :: "RegClass \<Rightarrow> UnifiedRenameMap \<Rightarrow> SimpleRenameMap" where
  "class_map IntRegClass u = intMap u"
| "class_map FloatRegClass u = floatMap u"
| "class_map VecRegClass u = vecMap u"
| "class_map VecElemClass u = vecElemMap u"
| "class_map CCRegClass u = ccMap u"
| "class_map MiscRegClass u = simple_init 0 0"

fun set_class_map :: "RegClass \<Rightarrow> SimpleRenameMap \<Rightarrow> UnifiedRenameMap \<Rightarrow> UnifiedRenameMap" where
  "set_class_map IntRegClass m u = u\<lparr>intMap := m\<rparr>"
| "set_class_map FloatRegClass m u = u\<lparr>floatMap := m\<rparr>"
| "set_class_map VecRegClass m u = u\<lparr>vecMap := m\<rparr>"
| "set_class_map VecElemClass m u = u\<lparr>vecElemMap := m\<rparr>"
| "set_class_map CCRegClass m u = u\<lparr>ccMap := m\<rparr>"
| "set_class_map MiscRegClass m u = u"

definition mode_ok :: "RegClass \<Rightarrow> UnifiedRenameMap \<Rightarrow> bool" where
  "mode_ok c u \<longleftrightarrow> (c = VecRegClass \<longrightarrow> vecMode u = Full) \<and> (c = VecElemClass \<longrightarrow> vecMode u = Elem)"

definition getMiscRegId :: "PhysRegFile \<Rightarrow> nat \<Rightarrow> PhysRegId option" where
  "getMiscRegId rf i = vec_get (miscRegIds rf) i"

definition unified_lookup :: "ISA \<Rightarrow> PhysRegFile \<Rightarrow> RegId \<Rightarrow> UnifiedRenameMap \<Rightarrow> PhysRegId option option" where
  "unified_lookup isa rf arch_reg u =
     (if regClass arch_reg = MiscRegClass then map_option Some (getMiscRegId rf (flatIndex isa arch_reg))
      else do {
        assertion (mode_ok (regClass arch_reg) u);
        simple_lookup isa arch_reg (class_map (regClass arch_reg) u)
      })"

definition unified_rename ::
  "ISA \<Rightarrow> PhysRegFile \<Rightarrow> RegId \<Rightarrow> UnifiedRenameMap \<times> UnifiedFreeList \<Rightarrow>
   (RenameInfo \<times> UnifiedRenameMap \<times> UnifiedFreeList) option" where
  "unified_rename isa rf arch_reg s =
     (let (u, freeList) = s; c = regClass arch_reg in
      if c = MiscRegClass then do {
        p \<leftarrow> unified_lookup isa rf arch_reg u;
        phys_reg \<leftarrow> p;
        Some ((phys_reg, Some phys_reg), u, freeList)
      }
      else do {
        assertion (mode_ok c u);
        (info, m, l) \<leftarrow> simple_rename isa arch_reg (class_map c u, class_list c freeList);
        freeList \<leftarrow> on_list c (\<lambda>_. l) freeList;
        Some (info, set_class_map c m u, freeList)
      })"

text \<open>\<^verbatim>\<open>phys_reg\<close> is dereferenced by the assertions, so a null pointer traps.\<close>

definition unified_setEntry ::
  "ISA \<Rightarrow> PhysRegFile \<Rightarrow> RegId \<Rightarrow> PhysRegId option \<Rightarrow> UnifiedRenameMap \<Rightarrow> UnifiedRenameMap option" where
  "unified_setEntry isa rf arch_reg phys_reg u =
     (let c = regClass arch_reg in
      if c = MiscRegClass then do {
        p \<leftarrow> unified_lookup isa rf arch_reg u;
        assertion (phys_reg = p);
        Some u
      }
      else do {
        p \<leftarrow> phys_reg;
        assertion (regClass p = c);
        assertion (mode_ok c u);
        m \<leftarrow> simple_setEntry isa arch_reg p (class_map c u);
        Some (set_class_map c m u)
      })"

definition map_numFreeEntries :: "UnifiedRenameMap \<Rightarrow> UnifiedFreeList \<Rightarrow> nat" where
  "map_numFreeEntries u l =
     min (min (numFreeRegs (intList l)) (numFreeRegs (floatList l)))
         (if vecMode u = Full then numFreeRegs (vecList l) else numFreeRegs (vecElemList l))"

definition canRename :: "nat \<Rightarrow> nat \<Rightarrow> nat \<Rightarrow> nat \<Rightarrow> nat \<Rightarrow> UnifiedFreeList \<Rightarrow> bool" where
  "canRename intRegs floatRegs vectorRegs vecElemRegs ccRegs l \<longleftrightarrow>
     intRegs \<le> numFreeRegs (intList l) \<and> floatRegs \<le> numFreeRegs (floatList l) \<and>
     vectorRegs \<le> numFreeRegs (vecList l) \<and> vecElemRegs \<le> numFreeRegs (vecElemList l) \<and>
     ccRegs \<le> numFreeRegs (ccList l)"

section \<open>The scoreboard\<close>

type_synonym Scoreboard = "bool list"

definition mk_Scoreboard :: "nat \<Rightarrow> Scoreboard" where
  "mk_Scoreboard numPhysicalRegs = replicate numPhysicalRegs True"

definition sb_getReg :: "ISA \<Rightarrow> PhysRegId \<Rightarrow> Scoreboard \<Rightarrow> bool option" where
  "sb_getReg isa phys_reg sb = do {
     assertion (flatIdx phys_reg < length sb);
     if isFixedMapping phys_reg then Some True
     else do {
       ready \<leftarrow> vec_get sb (flatIdx phys_reg);
       assertion (isZeroReg isa phys_reg \<longrightarrow> ready);
       Some ready
     }
   }"

definition sb_setReg :: "PhysRegId \<Rightarrow> Scoreboard \<Rightarrow> Scoreboard option" where
  "sb_setReg phys_reg sb = do {
     assertion (flatIdx phys_reg < length sb);
     if isFixedMapping phys_reg then Some sb else vec_set sb (flatIdx phys_reg) True
   }"

definition sb_unsetReg :: "ISA \<Rightarrow> PhysRegId \<Rightarrow> Scoreboard \<Rightarrow> Scoreboard option" where
  "sb_unsetReg isa phys_reg sb = do {
     assertion (flatIdx phys_reg < length sb);
     if isFixedMapping phys_reg then Some sb
     else if isZeroReg isa phys_reg then Some sb
     else vec_set sb (flatIdx phys_reg) False
   }"

section \<open>Lemmas\<close>

lemma class_map_set [simp]:
  "c \<noteq> MiscRegClass \<Longrightarrow> class_map d (set_class_map c m u) = (if d = c then m else class_map d u)"
  by (cases c; cases d) auto

lemma vecMode_set [simp]: "vecMode (set_class_map c m u) = vecMode u"
  by (cases c) simp_all

lemma mode_ok_set [simp]: "mode_ok d (set_class_map c m u) = mode_ok d u"
  by (simp add: mode_ok_def)

lemma set_class_map_same [simp]: "set_class_map c (class_map c u) u = u"
  by (cases c) simp_all

lemma set_class_map_twice [simp]: "set_class_map c m (set_class_map c m' u) = set_class_map c m u"
  by (cases c) simp_all

lemma flatIndex_scalar [simp]: "regClass r \<noteq> VecElemClass \<Longrightarrow> flatIndex isa r = regIdx r"
  by simp

declare flatIndex.simps [simp del]

end
