(* ===== verification/Rename.thy ===== *)
theory Rename
  imports Rename_Map DynInst
begin

text \<open>
  The register renaming of the rename stage (\<^verbatim>\<open>cpu/o3/rename_impl.hh\<close>), the construction
  of the maps by the CPU (\<^verbatim>\<open>cpu/o3/cpu.cc\<close>) and the update of the commit stage's map
  (\<^verbatim>\<open>cpu/o3/commit_impl.hh\<close>). The history buffer is a list, youngest rename first. The
  flattening of a register identifier by the thread context depends on the
  instruction set and is the parameter \<open>flatten\<close>. The control of the stage (stalls,
  skid buffers, time buffers) is not modelled.
\<close>

section \<open>State\<close>

record RenameHistory =
  instSeqNum :: InstSeqNum
  archReg :: RegId
  newPhysReg :: PhysRegId
  prevPhysReg :: "PhysRegId option"

record rename_state =
  renameMap :: "UnifiedRenameMap list"
  commitRenameMap :: "UnifiedRenameMap list"
  freeList :: UnifiedFreeList
  scoreboard :: Scoreboard
  historyBuffer :: "RenameHistory list list"

section \<open>Construction\<close>

text \<open>One round of the loops that give the architectural registers their first mapping.\<close>

definition init_reg :: "ISA \<Rightarrow> PhysRegFile \<Rightarrow> ThreadID \<Rightarrow> rename_state \<Rightarrow> RegId \<Rightarrow> rename_state option" where
  "init_reg isa rf tid st rid = do {
     (phys_reg, fl) \<leftarrow> get_class_reg (regClass rid) (freeList st);
     m \<leftarrow> vec_get (renameMap st) tid;
     m \<leftarrow> unified_setEntry isa rf rid (Some phys_reg) m;
     rm \<leftarrow> vec_set (renameMap st) tid m;
     c \<leftarrow> vec_get (commitRenameMap st) tid;
     c \<leftarrow> unified_setEntry isa rf rid (Some phys_reg) c;
     cm \<leftarrow> vec_set (commitRenameMap st) tid c;
     Some (st\<lparr>freeList := fl, renameMap := rm, commitRenameMap := cm\<rparr>)
   }"

definition init_class :: "ISA \<Rightarrow> PhysRegFile \<Rightarrow> ThreadID \<Rightarrow> RegClass \<Rightarrow> nat \<Rightarrow> rename_state \<Rightarrow> rename_state option" where
  "init_class isa rf tid c n st =
     foldM (\<lambda>st ridx. do { rid \<leftarrow> mk_RegId c ridx; init_reg isa rf tid st rid }) st [0..<n]"

definition init_elems :: "ISA \<Rightarrow> PhysRegFile \<Rightarrow> ThreadID \<Rightarrow> rename_state \<Rightarrow> rename_state option" where
  "init_elems isa rf tid st =
     foldM (\<lambda>st ridx.
       foldM (\<lambda>st ldx. do { lrid \<leftarrow> mk_RegId_elem VecElemClass ridx ldx; init_reg isa rf tid st lrid })
         st [0..<NumVecElemPerVecReg isa]) st [0..<NumVecRegs isa]"

definition init_thread :: "ISA \<Rightarrow> PhysRegFile \<Rightarrow> VecMode \<Rightarrow> rename_state \<Rightarrow> ThreadID \<Rightarrow> rename_state option" where
  "init_thread isa rf vmode st tid = do {
     st \<leftarrow> init_class isa rf tid IntRegClass (NumIntRegs isa) st;
     st \<leftarrow> init_class isa rf tid FloatRegClass (NumFloatRegs isa) st;
     st \<leftarrow> (if vmode = Full then init_class isa rf tid VecRegClass (NumVecRegs isa) st
            else init_elems isa rf tid st);
     init_class isa rf tid CCRegClass (NumCCRegs isa) st
   }"

definition mk_rename ::
  "ISA \<Rightarrow> nat \<Rightarrow> nat \<Rightarrow> nat \<Rightarrow> nat \<Rightarrow> VecMode \<Rightarrow> nat \<Rightarrow> nat \<Rightarrow> rename_state option" where
  "mk_rename isa nInt nFloat nVec nCC vmode num_threads active_threads = do {
     let rf = mk_PhysRegFile isa nInt nFloat nVec nCC vmode;
     fl \<leftarrow> mk_UnifiedFreeList isa rf;
     assertion (num_threads * NumIntRegs isa \<le> nInt);
     assertion (num_threads * NumFloatRegs isa \<le> nFloat);
     assertion (num_threads * NumVecRegs isa \<le> nVec);
     assertion (num_threads * NumCCRegs isa \<le> nCC);
     let fpZeroReg = (if is_ALPHA isa then ZeroReg isa else NumFloatRegs isa + 1);
     let m = unified_init isa (ZeroReg isa) fpZeroReg vmode;
     foldM (init_thread isa rf vmode)
       \<lparr>renameMap = replicate num_threads m, commitRenameMap = replicate num_threads m, freeList = fl,
        scoreboard = mk_Scoreboard (nInt + nFloat + nVec + nVec * NumVecElemPerVecReg isa + nCC),
        historyBuffer = replicate num_threads []\<rparr> [0..<active_threads]
   }"

section \<open>Renaming an instruction\<close>

definition rename_src ::
  "ISA \<Rightarrow> PhysRegFile \<Rightarrow> (RegId \<Rightarrow> RegId) \<Rightarrow> UnifiedRenameMap \<Rightarrow> Scoreboard \<Rightarrow> DynInst \<Rightarrow> nat \<Rightarrow> DynInst option" where
  "rename_src isa rf flatten m sb inst src_idx = do {
     src_reg \<leftarrow> vec_get (si_srcRegs (staticInst inst)) src_idx;
     looked_up \<leftarrow> unified_lookup isa rf (flatten src_reg) m;
     assertion (regClass src_reg \<noteq> VecElemClass);
     inst \<leftarrow> do { renamed_reg \<leftarrow> looked_up; renameSrcReg src_idx renamed_reg inst };
     ready \<leftarrow> do { renamed_reg \<leftarrow> looked_up; sb_getReg isa renamed_reg sb };
     Some (if ready then markSrcRegReady_idx src_idx inst else inst)
   }"

definition renameSrcRegs ::
  "ISA \<Rightarrow> PhysRegFile \<Rightarrow> (RegId \<Rightarrow> RegId) \<Rightarrow> ThreadID \<Rightarrow> rename_state \<Rightarrow> DynInst \<Rightarrow> DynInst option" where
  "renameSrcRegs isa rf flatten tid st inst = do {
     m \<leftarrow> vec_get (renameMap st) tid;
     foldM (rename_src isa rf flatten m (scoreboard st)) inst [0..<numSrcRegs inst]
   }"

text \<open>The loop state: the map and history of the thread, the free lists, the scoreboard, the instruction.\<close>

record rename_loop =
  l_map :: UnifiedRenameMap
  l_free :: UnifiedFreeList
  l_sb :: Scoreboard
  l_hist :: "RenameHistory list"
  l_inst :: DynInst

definition rename_dest ::
  "ISA \<Rightarrow> PhysRegFile \<Rightarrow> (RegId \<Rightarrow> RegId) \<Rightarrow> rename_loop \<Rightarrow> nat \<Rightarrow> rename_loop option" where
  "rename_dest isa rf flatten s dest_idx = do {
     dest_reg \<leftarrow> vec_get (si_destRegs (staticInst (l_inst s))) dest_idx;
     let flat_dest_regid = flatten dest_reg;
     ((new, prev), m, fl) \<leftarrow> unified_rename isa rf flat_dest_regid (l_map s, l_free s);
     inst \<leftarrow> flattenDestReg dest_idx flat_dest_regid (l_inst s);
     sb \<leftarrow> sb_unsetReg isa new (l_sb s);
     let hb_entry = \<lparr>instSeqNum = seqNum inst, archReg = flat_dest_regid, newPhysReg = new, prevPhysReg = prev\<rparr>;
     inst \<leftarrow> renameDestReg dest_idx new prev inst;
     Some \<lparr>l_map = m, l_free = fl, l_sb = sb, l_hist = hb_entry # l_hist s, l_inst = inst\<rparr>
   }"

definition renameDestRegs ::
  "ISA \<Rightarrow> PhysRegFile \<Rightarrow> (RegId \<Rightarrow> RegId) \<Rightarrow> ThreadID \<Rightarrow> rename_state \<times> DynInst \<Rightarrow> (rename_state \<times> DynInst) option" where
  "renameDestRegs isa rf flatten tid s = do {
     let (st, inst) = s;
     m \<leftarrow> vec_get (renameMap st) tid;
     H \<leftarrow> vec_get (historyBuffer st) tid;
     l \<leftarrow> foldM (rename_dest isa rf flatten)
            \<lparr>l_map = m, l_free = freeList st, l_sb = scoreboard st, l_hist = H, l_inst = inst\<rparr>
            [0..<numDestRegs inst];
     rm \<leftarrow> vec_set (renameMap st) tid (l_map l);
     hb \<leftarrow> vec_set (historyBuffer st) tid (l_hist l);
     Some (st\<lparr>renameMap := rm, freeList := l_free l, scoreboard := l_sb l, historyBuffer := hb\<rparr>, l_inst l)
   }"

text \<open>
  What \<^verbatim>\<open>renameInsts\<close> does with one instruction that is not squashed and not
  serializing: it renames it if there are enough free registers of every class, and
  \<open>Some None\<close> stands for blocking. The numbers of destination registers per class are
  those of the decoded instruction.
\<close>

definition numClassDestRegs :: "RegClass \<Rightarrow> DynInst \<Rightarrow> nat" where
  "numClassDestRegs c inst = length (filter (\<lambda>r. regClass r = c) (si_destRegs (staticInst inst)))"

definition rename_inst ::
  "ISA \<Rightarrow> PhysRegFile \<Rightarrow> (RegId \<Rightarrow> RegId) \<Rightarrow> rename_state \<times> DynInst \<Rightarrow> (rename_state \<times> DynInst) option option" where
  "rename_inst isa rf flatten s =
     (let (st, inst) = s in
      if \<not> canRename (numClassDestRegs IntRegClass inst) (numClassDestRegs FloatRegClass inst)
             (numClassDestRegs VecRegClass inst) (numClassDestRegs VecElemClass inst)
             (numClassDestRegs CCRegClass inst) (freeList st)
      then Some None
      else do {
        inst \<leftarrow> renameSrcRegs isa rf flatten (threadNumber inst) st inst;
        r \<leftarrow> renameDestRegs isa rf flatten (threadNumber inst) (st, inst);
        Some (Some r)
      })"

section \<open>Squashing and committing\<close>

fun squash_history ::
  "ISA \<Rightarrow> PhysRegFile \<Rightarrow> InstSeqNum \<Rightarrow> UnifiedRenameMap \<Rightarrow> UnifiedFreeList \<Rightarrow> RenameHistory list \<Rightarrow>
   (UnifiedRenameMap \<times> UnifiedFreeList \<times> RenameHistory list) option" where
  "squash_history isa rf sq m fl [] = Some (m, fl, [])"
| "squash_history isa rf sq m fl (hb # H) =
     (if instSeqNum hb > sq then do {
        (m, fl) \<leftarrow>
          (if Some (newPhysReg hb) \<noteq> prevPhysReg hb then do {
             m \<leftarrow> unified_setEntry isa rf (archReg hb) (prevPhysReg hb) m;
             fl \<leftarrow> addReg (newPhysReg hb) fl;
             Some (m, fl)
           } else Some (m, fl));
        squash_history isa rf sq m fl H
      } else Some (m, fl, hb # H))"

definition rename_doSquash :: "ISA \<Rightarrow> PhysRegFile \<Rightarrow> InstSeqNum \<Rightarrow> ThreadID \<Rightarrow> rename_state \<Rightarrow> rename_state option" where
  "rename_doSquash isa rf squashed_seq_num tid st = do {
     H \<leftarrow> vec_get (historyBuffer st) tid;
     m \<leftarrow> vec_get (renameMap st) tid;
     (m, fl, H) \<leftarrow> squash_history isa rf squashed_seq_num m (freeList st) H;
     rm \<leftarrow> vec_set (renameMap st) tid m;
     hb \<leftarrow> vec_set (historyBuffer st) tid H;
     Some (st\<lparr>renameMap := rm, freeList := fl, historyBuffer := hb\<rparr>)
   }"

text \<open>
  The loop over the committed renames runs from the oldest entry; \<open>commit_history\<close>
  takes the reversed buffer. Decrementing \<^verbatim>\<open>begin()\<close> of the erased list gives \<^verbatim>\<open>end()\<close>.
\<close>

fun commit_history ::
  "InstSeqNum \<Rightarrow> UnifiedFreeList \<Rightarrow> RenameHistory list \<Rightarrow> (UnifiedFreeList \<times> RenameHistory list) option" where
  "commit_history sn fl [] = Some (fl, [])"
| "commit_history sn fl (hb # R) =
     (if instSeqNum hb \<le> sn then do {
        fl \<leftarrow> (if Some (newPhysReg hb) \<noteq> prevPhysReg hb
               then do { p \<leftarrow> prevPhysReg hb; addReg p fl }
               else Some fl);
        commit_history sn fl R
      } else Some (fl, hb # R))"

definition removeFromHistory :: "InstSeqNum \<Rightarrow> ThreadID \<Rightarrow> rename_state \<Rightarrow> rename_state option" where
  "removeFromHistory inst_seq_num tid st = do {
     H \<leftarrow> vec_get (historyBuffer st) tid;
     if H = [] then Some st
     else if instSeqNum (last H) > inst_seq_num then Some st
     else do {
       (fl, R) \<leftarrow> commit_history inst_seq_num (freeList st) (rev H);
       hb \<leftarrow> vec_set (historyBuffer st) tid (rev R);
       Some (st\<lparr>freeList := fl, historyBuffer := hb\<rparr>)
     }
   }"

text \<open>The update of the commit stage's map in \<^verbatim>\<open>commitHead\<close>.\<close>

definition commit_dest :: "ISA \<Rightarrow> PhysRegFile \<Rightarrow> DynInst \<Rightarrow> UnifiedRenameMap \<Rightarrow> nat \<Rightarrow> UnifiedRenameMap option" where
  "commit_dest isa rf head_inst m i = do {
     a \<leftarrow> vec_get (flatDestRegIdx head_inst) i;
     p \<leftarrow> vec_get (destRegIdx head_inst) i;
     unified_setEntry isa rf a (Some p) m
   }"

definition commit_rename :: "ISA \<Rightarrow> PhysRegFile \<Rightarrow> ThreadID \<Rightarrow> DynInst \<Rightarrow> rename_state \<Rightarrow> rename_state option" where
  "commit_rename isa rf tid head_inst st = do {
     m \<leftarrow> vec_get (commitRenameMap st) tid;
     m \<leftarrow> foldM (commit_dest isa rf head_inst) m [0..<numDestRegs head_inst];
     cm \<leftarrow> vec_set (commitRenameMap st) tid m;
     Some (st\<lparr>commitRenameMap := cm\<rparr>)
   }"

end
