(* ===== verification/Rename_Props.thy ===== *)
theory Rename_Props
  imports Rename
begin

text \<open>
  Correctness of renaming in the full-vector mode: no physical register is lost or
  handed out twice, a squash restores the map, and the commit stage's map is the
  rename map with all renames in flight undone. \<open>thread_inv\<close> is the invariant of the map,
  the free lists and the history of one thread; each operation keeps it and the
  multiset of the registers that the three hold together.
\<close>

section \<open>One thread\<close>

definition ren_class :: "RegClass \<Rightarrow> bool" where
  "ren_class c \<longleftrightarrow> c \<noteq> MiscRegClass \<and> c \<noteq> VecElemClass"

text \<open>What the proofs use of a register file.\<close>

definition rf_ok :: "PhysRegFile \<Rightarrow> bool" where
  "rf_ok rf \<longleftrightarrow> (\<forall>c. ren_class c \<longrightarrow> distinct (getRegIds rf c) \<and> (\<forall>p\<in>set (getRegIds rf c). regClass p = c)) \<and>
     (\<forall>p\<in>set (miscRegIds rf). regClass p = MiscRegClass)"

lemma rf_ok_mk: "rf_ok (mk_PhysRegFile isa a b c d m)"
  using getRegIds_class getRegIds_class [where k = MiscRegClass] getRegIds_distinct by (auto simp: rf_ok_def ren_class_def)

abbreviation entry :: "UnifiedRenameMap \<Rightarrow> RegId \<Rightarrow> PhysRegId option" where
  "entry u a \<equiv> arch2phys (class_map (regClass a) u) ! regIdx a"

definition in_range :: "UnifiedRenameMap \<Rightarrow> RegId \<Rightarrow> bool" where
  "in_range u a \<longleftrightarrow> regIdx a < length (arch2phys (class_map (regClass a) u))"

definition put_entry :: "RegId \<Rightarrow> PhysRegId option \<Rightarrow> UnifiedRenameMap \<Rightarrow> UnifiedRenameMap" where
  "put_entry a p u = (let m = class_map (regClass a) u in
     set_class_map (regClass a) (m\<lparr>arch2phys := (arch2phys m)[regIdx a := p]\<rparr>) u)"

text \<open>Undoing a rename, and a history that can be undone entry by entry.\<close>

definition undo :: "RenameHistory \<Rightarrow> UnifiedRenameMap \<Rightarrow> UnifiedRenameMap" where
  "undo e u = (if regClass (archReg e) = MiscRegClass then u else put_entry (archReg e) (prevPhysReg e) u)"

definition entry_ok :: "PhysRegFile \<Rightarrow> UnifiedRenameMap \<Rightarrow> RenameHistory \<Rightarrow> bool" where
  "entry_ok rf u e \<longleftrightarrow>
     (if regClass (archReg e) = MiscRegClass
      then prevPhysReg e = Some (newPhysReg e) \<and> getMiscRegId rf (regIdx (archReg e)) = Some (newPhysReg e)
      else ren_class (regClass (archReg e)) \<and> in_range u (archReg e) \<and> entry u (archReg e) = Some (newPhysReg e) \<and>
        regClass (newPhysReg e) = regClass (archReg e) \<and>
        (\<exists>p. prevPhysReg e = Some p \<and> regClass p = regClass (archReg e)))"

fun hist_ok :: "PhysRegFile \<Rightarrow> UnifiedRenameMap \<Rightarrow> RenameHistory list \<Rightarrow> bool" where
  "hist_ok rf u [] \<longleftrightarrow> True"
| "hist_ok rf u (e # H) \<longleftrightarrow> entry_ok rf u e \<and> hist_ok rf (undo e u) H"

fun rollback :: "UnifiedRenameMap \<Rightarrow> RenameHistory list \<Rightarrow> UnifiedRenameMap" where
  "rollback u [] = u"
| "rollback u (e # H) = rollback (undo e u) H"

text \<open>The registers that the history keeps from being reused.\<close>

fun displaced :: "RegClass \<Rightarrow> RenameHistory list \<Rightarrow> PhysRegId multiset" where
  "displaced c [] = {#}"
| "displaced c (e # H) =
     (if regClass (archReg e) = c \<and> prevPhysReg e \<noteq> Some (newPhysReg e)
      then (case prevPhysReg e of None \<Rightarrow> {#} | Some p \<Rightarrow> {#p#}) else {#}) + displaced c H"

abbreviation mapped_class :: "RegClass \<Rightarrow> UnifiedRenameMap \<Rightarrow> PhysRegId multiset" where
  "mapped_class c u \<equiv> mapped (arch2phys (class_map c u))"

definition held :: "RegClass \<Rightarrow> UnifiedRenameMap \<Rightarrow> UnifiedFreeList \<Rightarrow> RenameHistory list \<Rightarrow> PhysRegId multiset" where
  "held c u fl H = mset (class_list c fl) + mapped_class c u + displaced c H"

definition thread_inv :: "PhysRegFile \<Rightarrow> UnifiedRenameMap \<Rightarrow> UnifiedFreeList \<Rightarrow> RenameHistory list \<Rightarrow> bool" where
  "thread_inv rf u fl H \<longleftrightarrow> vecMode u = Full \<and> hist_ok rf u H \<and>
     (\<forall>c. ren_class c \<longrightarrow> held c u fl H \<subseteq># mset (getRegIds rf c))"

definition no_null :: "UnifiedRenameMap \<Rightarrow> bool" where
  "no_null u \<longleftrightarrow> (\<forall>c. ren_class c \<longrightarrow> None \<notin> set (arch2phys (class_map c u)))"

definition same_held ::
  "UnifiedRenameMap \<Rightarrow> UnifiedFreeList \<Rightarrow> RenameHistory list \<Rightarrow>
   UnifiedRenameMap \<Rightarrow> UnifiedFreeList \<Rightarrow> RenameHistory list \<Rightarrow> bool" where
  "same_held u fl H u' fl' H' \<longleftrightarrow> (\<forall>c. ren_class c \<longrightarrow> held c u' fl' H' = held c u fl H)"

lemma same_held_refl [simp]: "same_held u fl H u fl H"
  by (simp add: same_held_def)

lemma same_held_trans:
  "same_held u fl H u' fl' H' \<Longrightarrow> same_held u' fl' H' u'' fl'' H'' \<Longrightarrow> same_held u fl H u'' fl'' H''"
  by (simp add: same_held_def)

lemma same_held_inv:
  "same_held u fl H u' fl' H' \<Longrightarrow> thread_inv rf u fl H \<Longrightarrow> vecMode u' = vecMode u \<Longrightarrow> hist_ok rf u' H' \<Longrightarrow>
   thread_inv rf u' fl' H'"
  by (simp add: thread_inv_def same_held_def)

lemma put_entry_simps [simp]:
  assumes "regClass a \<noteq> MiscRegClass"
  shows "class_map c (put_entry a p u) =
      (if c = regClass a then (class_map c u)\<lparr>arch2phys := (arch2phys (class_map c u))[regIdx a := p]\<rparr> else class_map c u)"
    "vecMode (put_entry a p u) = vecMode u" "put_entry a p (put_entry a q u) = put_entry a p u"
    "put_entry a (entry u a) u = u" "in_range (put_entry a p u) b = in_range u b"
  using assms by (simp_all add: put_entry_def Let_def in_range_def)

lemma undo_vecMode [simp]: "vecMode (undo e u) = vecMode u"
  by (simp add: undo_def)

lemma mode_ok_Full: "vecMode u = Full \<Longrightarrow> mode_ok c u \<longleftrightarrow> c \<noteq> VecElemClass"
  by (auto simp: mode_ok_def)

lemma on_list_same: "on_list c (\<lambda>_. class_list c fl) fl = Some fl' \<Longrightarrow> fl' = fl"
  by (cases c) auto

lemma setEntry_eq:
  assumes "vecMode u = Full" "ren_class (regClass a)" "in_range u a" "regClass p = regClass a"
  shows "unified_setEntry isa rf a (Some p) u = Some (put_entry a (Some p) u)"
  using assms
  by (simp add: unified_setEntry_def Let_def ren_class_def mode_ok_Full simple_setEntry_def in_range_def put_entry_def)

lemma rename_cases:
  assumes "unified_rename isa rf a (u, fl) = Some ((new, prev), u', fl')" "vecMode u = Full"
  obtains (misc) "regClass a = MiscRegClass" "prev = Some new" "getMiscRegId rf (regIdx a) = Some new" "u' = u" "fl' = fl"
  | (zero) "ren_class (regClass a)" "in_range u a" "entry u a = Some new" "prev = Some new" "u' = u" "fl' = fl"
      "a = zeroReg (class_map (regClass a) u)" "isZeroReg isa new"
  | (fresh) "ren_class (regClass a)" "in_range u a" "prev = entry u a" "u' = put_entry a (Some new) u"
      "simple_getReg (class_list (regClass a) fl) = Some (new, class_list (regClass a) fl')"
      "\<And>d. d \<noteq> regClass a \<Longrightarrow> class_list d fl' = class_list d fl"
proof -
  let ?c = "regClass a"
  show ?thesis
  proof (cases "?c = MiscRegClass")
    case True
    then show ?thesis using assms(1) by (intro misc) (auto simp: unified_rename_def unified_lookup_def bind_eq_Some_conv)
  next
    case False
    then have c: "ren_class ?c" using assms by (auto simp: unified_rename_def Let_def mode_ok_Full ren_class_def bind_eq_Some_conv)
    obtain m l where m: "simple_rename isa a (class_map ?c u, class_list ?c fl) = Some ((new, prev), m, l)"
      "on_list ?c (\<lambda>_. l) fl = Some fl'" "u' = set_class_map ?c m u"
      using assms False by (auto simp: unified_rename_def Let_def bind_eq_Some_conv)
    show ?thesis
    proof (cases "a = zeroReg (class_map ?c u)")
      case True
      then have "m = class_map ?c u \<and> l = class_list ?c fl \<and> in_range u a \<and> entry u a = Some new \<and> prev = Some new \<and> isZeroReg isa new"
        using m(1) by (auto simp: simple_rename_def bind_eq_Some_conv in_range_def vec_get_Some_iff)
      then show ?thesis using m(2,3) c on_list_same [of ?c fl fl'] True by (intro zero) auto
    next
      case False
      then have s: "simple_getReg (class_list ?c fl) = Some (new, l)" "in_range u a" "prev = entry u a"
        "m = (class_map ?c u)\<lparr>arch2phys := (arch2phys (class_map ?c u))[regIdx a := Some new]\<rparr>"
        using m(1) by (auto simp: simple_rename_def bind_eq_Some_conv in_range_def vec_get_Some_iff vec_set_Some_iff)
      have "class_list ?c fl' = l" "\<And>d. d \<noteq> ?c \<Longrightarrow> class_list d fl' = class_list d fl"
        using on_list_class_list [OF m(2)] by simp_all
      then show ?thesis using s m(3) c by (intro fresh) (simp_all add: put_entry_def Let_def)
    qed
  qed
qed

lemma held_class:
  assumes "rf_ok rf" "thread_inv rf u fl H" "ren_class c" "p \<in># held c u fl H"
  shows "regClass p = c"
proof -
  have "held c u fl H \<subseteq># mset (getRegIds rf c)" using assms(2,3) by (simp add: thread_inv_def)
  then have "p \<in># mset (getRegIds rf c)" using assms(4) by (rule mset_subset_eqD)
  then show ?thesis using assms(1,3) by (simp add: rf_ok_def)
qed

lemma held_distinct:
  assumes "rf_ok rf" "thread_inv rf u fl H" "ren_class c"
  shows "count (held c u fl H) p \<le> 1"
proof -
  have "held c u fl H \<subseteq># mset (getRegIds rf c)" using assms(2,3) by (simp add: thread_inv_def)
  then have "count (held c u fl H) p \<le> count (mset (getRegIds rf c)) p" by (rule mset_subset_eq_count)
  also have "\<dots> \<le> 1"
    using assms(1,3) distinct_count_atmost_1 [of "getRegIds rf c"] by (simp add: rf_ok_def)
  finally show ?thesis .
qed

lemma rename_ok:
  fixes sn :: InstSeqNum
  assumes "unified_rename isa rf a (u, fl) = Some ((new, prev), u', fl')"
    and rf: "rf_ok rf" and inv: "thread_inv rf u fl H" and nn: "no_null u"
  defines "e \<equiv> \<lparr>instSeqNum = sn, archReg = a, newPhysReg = new, prevPhysReg = prev\<rparr>"
  shows "same_held u fl H u' fl' (e # H) \<and> thread_inv rf u' fl' (e # H) \<and> no_null u' \<and> undo e u' = u"
proof -
  have full: "vecMode u = Full" and hk: "hist_ok rf u H" using inv by (auto simp: thread_inv_def)
  show ?thesis
    using assms(1) full
  proof (cases rule: rename_cases)
    case misc
    have sh: "same_held u fl H u fl (e # H)" using misc by (auto simp: same_held_def held_def e_def)
    have "hist_ok rf u (e # H)" using misc hk by (simp add: e_def entry_ok_def undo_def)
    from same_held_inv [OF sh inv refl this] sh misc nn show ?thesis by (simp add: e_def undo_def)
  next
    case zero
    then have z: "regClass a \<noteq> MiscRegClass" by (auto simp: ren_class_def)
    have "new \<in># mapped_class (regClass a) u" using zero(2,3) mapped_nth by (auto simp: in_range_def)
    then have "regClass new = regClass a" using held_class [OF rf inv zero(1)] by (simp add: held_def)
    moreover have u: "undo e u = u" using z zero(3,4) put_entry_simps(4) [OF z, of u] by (simp add: undo_def e_def)
    ultimately have hk': "hist_ok rf u (e # H)" using zero z hk by (simp add: e_def entry_ok_def)
    have sh: "same_held u fl H u fl (e # H)" using zero by (auto simp: same_held_def held_def e_def)
    from same_held_inv [OF sh inv refl hk'] sh zero(5,6) nn u show ?thesis by blast
  next
    case fresh
    let ?c = "regClass a"
    have z: "?c \<noteq> MiscRegClass" using fresh(1) by (auto simp: ren_class_def)
    have "entry u a \<in> set (arch2phys (class_map ?c u))" using fresh(2) by (simp add: in_range_def)
    then obtain p where p: "entry u a = Some p" using nn fresh(1) by (metis no_null_def not_None_eq)
    have new_free: "new \<in># mset (class_list ?c fl)" using fl.get_Some [OF fresh(5)] by simp
    then have cn: "regClass new = ?c" using held_class [OF rf inv fresh(1)] by (simp add: held_def)
    have pin: "p \<in># mapped_class ?c u" using fresh(2) p mapped_nth by (auto simp: in_range_def)
    then have cp: "regClass p = ?c" using held_class [OF rf inv fresh(1)] by (simp add: held_def)
    have np: "new \<noteq> p"
    proof
      assume eq: "new = p"
      have "count (held ?c u fl H) p \<ge> 2"
        using iffD2 [OF count_greater_zero_iff pin] iffD2 [OF count_greater_zero_iff new_free [unfolded eq]]
        unfolding held_def count_union by linarith
      then show False using held_distinct [OF rf inv fresh(1), of p] by simp
    qed
    have m: "mset (class_list ?c fl') + mapped_class ?c u' + {#p#} = mset (class_list ?c fl) + mapped_class ?c u"
      using fl.map_conserves [OF fresh(5) _ p] fresh(2,4) z by (simp add: in_range_def)
    have sh: "same_held u fl H u' fl' (e # H)"
      unfolding same_held_def
    proof (intro allI impI)
      fix c assume "ren_class c"
      show "held c u' fl' (e # H) = held c u fl H"
      proof (cases "c = ?c")
        case True
        have "displaced ?c (e # H) = {#p#} + displaced ?c H" using np p fresh(3) by (simp add: e_def)
        then have "held ?c u' fl' (e # H) = (mset (class_list ?c fl') + mapped_class ?c u' + {#p#}) + displaced ?c H"
          by (simp add: held_def)
        then show ?thesis unfolding m True by (simp add: held_def)
      next
        case False
        then show ?thesis using fresh(4,6) z by (auto simp: held_def e_def)
      qed
    qed
    have un: "undo e u' = u" using z fresh(3,4) by (simp add: undo_def e_def)
    have "entry u' a = Some new" "in_range u' a" using z fresh(2,4) by (simp_all add: in_range_def)
    then have hk': "hist_ok rf u' (e # H)"
      using hk z fresh(1,3) cn cp p un by (simp add: e_def entry_ok_def)
    have nn': "no_null u'" using nn fresh(4) z by (auto simp: no_null_def dest!: subsetD [OF set_update_subset_insert])
    have "vecMode u' = vecMode u" using fresh(4) z by simp
    from same_held_inv [OF sh inv this hk'] sh nn' un show ?thesis by blast
  qed
qed

section \<open>Undoing and committing renames\<close>

lemma displaced_append: "displaced c (H @ H') = displaced c H + displaced c H'"
  by (induction H) simp_all

lemma rollback_append: "rollback u (H @ H') = rollback (rollback u H) H'"
  by (induction H arbitrary: u) simp_all

lemma hist_ok_append: "hist_ok rf u (H @ H') \<longleftrightarrow> hist_ok rf u H \<and> hist_ok rf (rollback u H) H'"
  by (induction H arbitrary: u) auto

lemma addReg_defined: "ren_class (regClass p) \<Longrightarrow> \<exists>fl'. addReg p fl = Some fl'"
  using on_list_defined [of "regClass p"] by (auto simp: addReg_def ren_class_def)

lemma addReg_mset:
  assumes "addReg p fl = Some fl'"
  shows "mset (class_list c fl') = (if c = regClass p then add_mset p (mset (class_list c fl)) else mset (class_list c fl))"
  using addReg_SomeD [OF assms] fl.put_contents [of p] by auto

lemma undo_one:
  assumes inv: "thread_inv rf u fl (e # H)" and ch: "Some (newPhysReg e) \<noteq> prevPhysReg e"
  shows "\<exists>fl'. unified_setEntry isa rf (archReg e) (prevPhysReg e) u = Some (undo e u) \<and>
    addReg (newPhysReg e) fl = Some fl' \<and> same_held u fl (e # H) (undo e u) fl' H \<and> thread_inv rf (undo e u) fl' H"
proof -
  let ?a = "archReg e" and ?c = "regClass (archReg e)"
  have full: "vecMode u = Full" and hk: "entry_ok rf u e" "hist_ok rf (undo e u) H"
    using inv by (auto simp: thread_inv_def)
  have ok: "ren_class ?c" "in_range u ?a" "entry u ?a = Some (newPhysReg e)" "regClass (newPhysReg e) = ?c"
    using hk(1) ch by (auto simp: entry_ok_def split: if_splits)
  obtain p where p: "prevPhysReg e = Some p" "regClass p = ?c"
    using hk(1) ch by (auto simp: entry_ok_def split: if_splits)
  have z: "?c \<noteq> MiscRegClass" using ok(1) by (simp add: ren_class_def)
  then have un: "undo e u = put_entry ?a (Some p) u" using p by (simp add: undo_def)
  obtain fl' where fl': "addReg (newPhysReg e) fl = Some fl'" using addReg_defined ok(1,4) by metis
  have sh: "same_held u fl (e # H) (undo e u) fl' H"
    unfolding same_held_def
  proof (intro allI impI)
    fix c
    show "held c (undo e u) fl' H = held c u fl (e # H)"
    proof (cases "c = ?c")
      case True
      have "mset (class_list c fl') + mapped_class c (undo e u) = mset (class_list c fl) + mapped_class c u + {#p#}"
        using fl.undo_conserves [of "regIdx ?a" "arch2phys (class_map c u)" "newPhysReg e" "class_list c fl" p]
          ok(2,3,4) True addReg_SomeD(1) [OF fl'] un z by (simp add: in_range_def)
      moreover have "displaced c (e # H) = {#p#} + displaced c H" using True p ch by simp
      ultimately show ?thesis unfolding held_def by (simp only: union_assoc)
    next
      case False
      then show ?thesis using addReg_mset [OF fl'] ok(4) un z by (simp add: held_def)
    qed
  qed
  have "unified_setEntry isa rf ?a (prevPhysReg e) u = Some (undo e u)"
    using setEntry_eq [OF full ok(1,2) p(2)] p un by simp
  then show ?thesis using fl' sh same_held_inv [OF sh inv _ hk(2)] by simp
qed

lemma undo_same:
  assumes "thread_inv rf u fl (e # H)" "Some (newPhysReg e) = prevPhysReg e"
  shows "undo e u = u" "same_held u fl (e # H) u fl H" "thread_inv rf u fl H"
proof -
  have hk: "entry_ok rf u e" "hist_ok rf (undo e u) H" using assms(1) by (auto simp: thread_inv_def)
  show u: "undo e u = u"
    using hk(1) assms(2) put_entry_simps(4) [of "archReg e" u] by (auto simp: undo_def entry_ok_def split: if_splits)
  show sh: "same_held u fl (e # H) u fl H" using assms(2) by (auto simp: same_held_def held_def)
  show "thread_inv rf u fl H" using same_held_inv [OF sh assms(1) refl] hk(2) u by simp
qed

lemma squash_history_ok:
  assumes "thread_inv rf u fl H"
  shows "\<exists>fl'. squash_history isa rf sq u fl H =
      Some (rollback u (takeWhile (\<lambda>e. sq < instSeqNum e) H), fl', dropWhile (\<lambda>e. sq < instSeqNum e) H) \<and>
    same_held u fl H (rollback u (takeWhile (\<lambda>e. sq < instSeqNum e) H)) fl' (dropWhile (\<lambda>e. sq < instSeqNum e) H) \<and>
    thread_inv rf (rollback u (takeWhile (\<lambda>e. sq < instSeqNum e) H)) fl' (dropWhile (\<lambda>e. sq < instSeqNum e) H)"
  using assms
proof (induction H arbitrary: u fl)
  case (Cons e H)
  show ?case
  proof (cases "sq < instSeqNum e")
    case True
    show ?thesis
    proof (cases "Some (newPhysReg e) = prevPhysReg e")
      case same: True
      from Cons.IH [OF undo_same(3) [OF Cons.prems same]] undo_same(1,2) [OF Cons.prems same] True same
      show ?thesis by (auto intro: same_held_trans)
    next
      case False
      obtain fl' where fl': "unified_setEntry isa rf (archReg e) (prevPhysReg e) u = Some (undo e u)"
        "addReg (newPhysReg e) fl = Some fl'" "same_held u fl (e # H) (undo e u) fl' H" "thread_inv rf (undo e u) fl' H"
        using undo_one [OF Cons.prems False] by blast
      from Cons.IH [OF fl'(4)] fl'(1-3) True False show ?thesis by (auto intro: same_held_trans)
    qed
  qed (use Cons.prems in simp)
qed simp

lemma commit_one:
  assumes inv: "thread_inv rf u fl (H @ [e])"
  shows "\<exists>fl'. (if Some (newPhysReg e) \<noteq> prevPhysReg e then do { p \<leftarrow> prevPhysReg e; addReg p fl } else Some fl) = Some fl' \<and>
    same_held u fl (H @ [e]) u fl' H \<and> thread_inv rf u fl' H"
proof -
  have hk: "hist_ok rf u H" "entry_ok rf (rollback u H) e" using inv by (auto simp: thread_inv_def hist_ok_append)
  show ?thesis
  proof (cases "Some (newPhysReg e) = prevPhysReg e")
    case True
    have sh: "same_held u fl (H @ [e]) u fl H" using True by (auto simp: same_held_def held_def displaced_append)
    from same_held_inv [OF sh inv refl hk(1)] sh True show ?thesis by auto
  next
    case False
    then obtain p where p: "prevPhysReg e = Some p" "regClass p = regClass (archReg e)" "ren_class (regClass (archReg e))"
      using hk(2) by (auto simp: entry_ok_def split: if_splits)
    then obtain fl' where fl': "addReg p fl = Some fl'" using addReg_defined by metis
    have sh: "same_held u fl (H @ [e]) u fl' H"
      using p False addReg_mset [OF fl'] by (auto simp: same_held_def held_def displaced_append)
    from same_held_inv [OF sh inv refl hk(1)] sh False p fl' show ?thesis by auto
  qed
qed

lemma commit_history_ok:
  assumes "thread_inv rf u fl (rev R)"
  shows "\<exists>fl'. commit_history sn fl R = Some (fl', dropWhile (\<lambda>e. instSeqNum e \<le> sn) R) \<and>
    same_held u fl (rev R) u fl' (rev (dropWhile (\<lambda>e. instSeqNum e \<le> sn) R)) \<and>
    thread_inv rf u fl' (rev (dropWhile (\<lambda>e. instSeqNum e \<le> sn) R))"
  using assms
proof (induction R arbitrary: fl)
  case (Cons e R)
  show ?case
  proof (cases "instSeqNum e \<le> sn")
    case True
    obtain fl' where fl': "(if Some (newPhysReg e) \<noteq> prevPhysReg e then do { p \<leftarrow> prevPhysReg e; addReg p fl } else Some fl) = Some fl'"
      "same_held u fl (rev R @ [e]) u fl' (rev R)" "thread_inv rf u fl' (rev R)"
      using commit_one [of rf u fl "rev R" e] Cons.prems by auto
    from Cons.IH [OF fl'(3)] fl'(1,2) True show ?thesis by (auto intro: same_held_trans)
  qed (use Cons.prems in simp)
qed simp

end
