(* ===== verification/Rename_Run.thy ===== *)
theory Rename_Run
  imports Rename_Props
begin

text \<open>
  Runs of the rename stage. The state is the stage's state, the heap of instructions
  and, as a ghost, the list of the instructions of each thread that have been renamed
  and neither committed nor squashed, oldest first. The steps rename an instruction,
  squash a thread, commit the oldest instruction of a thread (the update of the
  commit stage's map followed by \<^verbatim>\<open>removeFromHistory\<close>), and let other stages execute.
\<close>

section \<open>The renames of an instruction\<close>

definition entry_of :: "DynInst \<Rightarrow> nat \<Rightarrow> RenameHistory" where
  "entry_of inst i = \<lparr>instSeqNum = seqNum inst, archReg = flatDestRegIdx inst ! i,
     newPhysReg = destRegIdx inst ! i, prevPhysReg = prevDestRegIdx inst ! i\<rparr>"

definition entries :: "DynInst \<Rightarrow> RenameHistory list" where
  "entries inst = map (entry_of inst) [0..<numDestRegs inst]"

text \<open>Two instructions that differ at most in the arrays that renaming the destinations fills.\<close>

definition dest_frame :: "DynInst \<Rightarrow> DynInst \<Rightarrow> bool" where
  "dest_frame i j \<longleftrightarrow> (\<exists>a b c. j = i\<lparr>flatDestRegIdx := a, destRegIdx := b, prevDestRegIdx := c\<rparr> \<and>
     length a = length (flatDestRegIdx i) \<and> length b = length (destRegIdx i) \<and> length c = length (prevDestRegIdx i))"

lemma dest_frameD:
  assumes "dest_frame i j"
  shows "seqNum j = seqNum i" "staticInst j = staticInst i" "threadNumber j = threadNumber i"
    "srcRegIdx j = srcRegIdx i" "argProducers j = argProducers i" "status j = status i"
    "length (flatDestRegIdx j) = length (flatDestRegIdx i)" "length (destRegIdx j) = length (destRegIdx i)"
    "length (prevDestRegIdx j) = length (prevDestRegIdx i)"
  using assms by (auto simp: dest_frame_def)

lemma dest_frameI:
  "length a = length (flatDestRegIdx i) \<Longrightarrow> length b = length (destRegIdx i) \<Longrightarrow> length c = length (prevDestRegIdx i) \<Longrightarrow>
   dest_frame i (i\<lparr>flatDestRegIdx := a, destRegIdx := b, prevDestRegIdx := c\<rparr>)"
  unfolding dest_frame_def by blast

lemma dest_frame_refl: "dest_frame i i"
  using dest_frameI [of "flatDestRegIdx i" i "destRegIdx i" "prevDestRegIdx i"] by simp

lemma dest_frame_trans: "dest_frame i j \<Longrightarrow> dest_frame j k \<Longrightarrow> dest_frame i k"
  unfolding dest_frame_def [of i j] dest_frame_def [of j k] by (auto intro!: dest_frameI)

lemma rename_dest_SomeD:
  assumes "rename_dest isa rf flatten s k = Some s'"
  obtains new prev where
    "unified_rename isa rf (flatten (si_destRegs (staticInst (l_inst s)) ! k)) (l_map s, l_free s) =
       Some ((new, prev), l_map s', l_free s')"
    "l_hist s' = \<lparr>instSeqNum = seqNum (l_inst s), archReg = flatten (si_destRegs (staticInst (l_inst s)) ! k),
       newPhysReg = new, prevPhysReg = prev\<rparr> # l_hist s"
    "l_inst s' = (l_inst s)\<lparr>
       flatDestRegIdx := (flatDestRegIdx (l_inst s))[k := flatten (si_destRegs (staticInst (l_inst s)) ! k)],
       destRegIdx := (destRegIdx (l_inst s))[k := new], prevDestRegIdx := (prevDestRegIdx (l_inst s))[k := prev]\<rparr>"
    "k < length (flatDestRegIdx (l_inst s))" "k < length (destRegIdx (l_inst s))" "k < length (prevDestRegIdx (l_inst s))"
    "sb_unsetReg isa new (l_sb s) = Some (l_sb s')" "k < numDestRegs (l_inst s)"
  using assms
  by (auto simp: rename_dest_def flattenDestReg_def renameDestReg_def Let_def bind_eq_Some_conv
      vec_get_Some_iff vec_set_Some_iff)

definition loop_ok :: "PhysRegFile \<Rightarrow> (RegId \<Rightarrow> RegId) \<Rightarrow> rename_loop \<Rightarrow> nat \<Rightarrow> rename_loop \<Rightarrow> bool" where
  "loop_ok rf flatten s k s' \<longleftrightarrow>
     thread_inv rf (l_map s') (l_free s') (l_hist s') \<and> no_null (l_map s') \<and>
     same_held (l_map s) (l_free s) (l_hist s) (l_map s') (l_free s') (l_hist s') \<and>
     dest_frame (l_inst s) (l_inst s') \<and> k \<le> length (flatDestRegIdx (l_inst s)) \<and>
     k \<le> length (destRegIdx (l_inst s)) \<and> k \<le> length (prevDestRegIdx (l_inst s)) \<and>
     (\<forall>i<k. flatDestRegIdx (l_inst s') ! i = flatten (si_destRegs (staticInst (l_inst s)) ! i)) \<and>
     l_hist s' = rev (map (entry_of (l_inst s')) [0..<k]) @ l_hist s \<and>
     rollback (l_map s') (rev (map (entry_of (l_inst s')) [0..<k])) = l_map s"

lemma rename_loop_ok:
  assumes "rf_ok rf" "thread_inv rf (l_map s) (l_free s) (l_hist s)" "no_null (l_map s)"
    and "foldM (rename_dest isa rf flatten) s [0..<k] = Some s'"
  shows "loop_ok rf flatten s k s'"
  using assms(4)
proof (induction k arbitrary: s')
  case 0
  then show ?case using assms by (simp add: loop_ok_def dest_frame_refl)
next
  case (Suc k)
  then obtain s1 where s1: "foldM (rename_dest isa rf flatten) s [0..<k] = Some s1"
    "rename_dest isa rf flatten s1 k = Some s'"
    by (auto simp: foldM_append bind_eq_Some_conv)
  have IH: "loop_ok rf flatten s k s1" by (rule Suc.IH [OF s1(1)])
  let ?i = "l_inst s1"
  have st: "staticInst ?i = staticInst (l_inst s)" using IH dest_frameD by (auto simp: loop_ok_def)
  from s1(2) obtain new prev where r:
    "unified_rename isa rf (flatten (si_destRegs (staticInst ?i) ! k)) (l_map s1, l_free s1) =
       Some ((new, prev), l_map s', l_free s')"
    "l_hist s' = \<lparr>instSeqNum = seqNum ?i, archReg = flatten (si_destRegs (staticInst ?i) ! k),
       newPhysReg = new, prevPhysReg = prev\<rparr> # l_hist s1"
    "l_inst s' = ?i\<lparr>flatDestRegIdx := (flatDestRegIdx ?i)[k := flatten (si_destRegs (staticInst ?i) ! k)],
       destRegIdx := (destRegIdx ?i)[k := new], prevDestRegIdx := (prevDestRegIdx ?i)[k := prev]\<rparr>"
    "k < length (flatDestRegIdx ?i)" "k < length (destRegIdx ?i)" "k < length (prevDestRegIdx ?i)"
    by (rule rename_dest_SomeD)
  define e where "e = \<lparr>instSeqNum = seqNum ?i, archReg = flatten (si_destRegs (staticInst ?i) ! k),
    newPhysReg = new, prevPhysReg = prev\<rparr>"
  have ok: "same_held (l_map s1) (l_free s1) (l_hist s1) (l_map s') (l_free s') (e # l_hist s1)"
    "thread_inv rf (l_map s') (l_free s') (e # l_hist s1)" "no_null (l_map s')" "undo e (l_map s') = l_map s1"
    using rename_ok [OF r(1) assms(1), of "l_hist s1" "seqNum ?i"] IH unfolding loop_ok_def e_def by blast+
  have fr: "dest_frame ?i (l_inst s')" unfolding r(3) by (rule dest_frameI) simp_all
  have new: "entry_of (l_inst s') k = e" using r(3-6) by (simp add: entry_of_def e_def)
  have old: "map (entry_of (l_inst s')) [0..<k] = map (entry_of ?i) [0..<k]"
    using r(3) by (auto simp: entry_of_def)
  have revs: "rev (map (entry_of (l_inst s')) [0..<Suc k]) = e # rev (map (entry_of ?i) [0..<k])"
    unfolding old [symmetric] using new by simp
  have hist: "l_hist s' = rev (map (entry_of (l_inst s')) [0..<Suc k]) @ l_hist s"
    using IH r(2) unfolding revs by (simp add: loop_ok_def e_def)
  have roll: "rollback (l_map s') (rev (map (entry_of (l_inst s')) [0..<Suc k])) = l_map s"
    using IH ok(4) unfolding revs by (simp add: loop_ok_def)
  have flat: "\<forall>i<Suc k. flatDestRegIdx (l_inst s') ! i = flatten (si_destRegs (staticInst (l_inst s)) ! i)"
    using IH r(3,4) st by (auto simp: loop_ok_def less_Suc_eq)
  have held: "same_held (l_map s) (l_free s) (l_hist s) (l_map s') (l_free s') (l_hist s')"
    using same_held_trans [OF _ ok(1)] IH r(2) unfolding loop_ok_def e_def by metis
  have f1: "dest_frame (l_inst s) ?i" using IH by (simp add: loop_ok_def)
  then have len: "Suc k \<le> length (flatDestRegIdx (l_inst s))" "Suc k \<le> length (destRegIdx (l_inst s))"
    "Suc k \<le> length (prevDestRegIdx (l_inst s))" using r(4-6) dest_frameD(7-9) [OF f1] by simp_all
  have "thread_inv rf (l_map s') (l_free s') (l_hist s')" using ok(2) r(2) by (simp add: e_def)
  then show ?case
    unfolding loop_ok_def using ok(3) held dest_frame_trans [OF f1 fr] len flat hist roll by blast
qed

section \<open>The invariant\<close>

text \<open>
  \<open>regs_conserved\<close>: the free registers, the mapped ones and those that the histories
  keep are together exactly the registers of the file, each once.
\<close>

definition regs_conserved :: "PhysRegFile \<Rightarrow> rename_state \<Rightarrow> bool" where
  "regs_conserved rf st \<longleftrightarrow> (\<forall>c. ren_class c \<longrightarrow> mset (class_list c (freeList st)) +
     (\<Sum>t<length (renameMap st). mapped_class c (renameMap st ! t) + displaced c (historyBuffer st ! t)) =
     mset (getRegIds rf c))"

definition hist_of :: "inst_heap \<Rightarrow> DynInstPtr list \<Rightarrow> RenameHistory list" where
  "hist_of h L = rev (concat (map (\<lambda>p. entries (h p)) L))"

definition map_inv ::
  "PhysRegFile \<Rightarrow> inst_heap \<Rightarrow> bool \<Rightarrow> ThreadID \<Rightarrow> UnifiedRenameMap \<Rightarrow> UnifiedRenameMap \<Rightarrow> RenameHistory list \<Rightarrow>
   DynInstPtr list \<Rightarrow> bool" where
  "map_inv rf h active t u c H L \<longleftrightarrow> vecMode u = Full \<and> (active \<longrightarrow> no_null u) \<and> hist_ok rf u H \<and> rollback u H = c \<and>
     H = hist_of h L \<and> sorted_wrt (\<lambda>p q. seqNum (h p) < seqNum (h q)) L \<and> (\<forall>p\<in>set L. threadNumber (h p) = t)"

definition rn_inv ::
  "PhysRegFile \<Rightarrow> nat \<Rightarrow> rename_state \<Rightarrow> inst_heap \<Rightarrow> DynInstPtr list list \<Rightarrow> bool" where
  "rn_inv rf act st h Q \<longleftrightarrow>
     length (commitRenameMap st) = length (renameMap st) \<and> length (historyBuffer st) = length (renameMap st) \<and>
     length Q = length (renameMap st) \<and> regs_conserved rf st \<and>
     (\<forall>t<length (renameMap st).
        map_inv rf h (t < act) t (renameMap st ! t) (commitRenameMap st ! t) (historyBuffer st ! t) (Q ! t))"

lemma rn_invD:
  assumes "rn_inv rf act st h Q" "t < length (renameMap st)"
  shows "vecMode (renameMap st ! t) = Full" "t < act \<Longrightarrow> no_null (renameMap st ! t)"
    "hist_ok rf (renameMap st ! t) (historyBuffer st ! t)"
    "rollback (renameMap st ! t) (historyBuffer st ! t) = commitRenameMap st ! t"
    "historyBuffer st ! t = hist_of h (Q ! t)"
    "sorted_wrt (\<lambda>p q. seqNum (h p) < seqNum (h q)) (Q ! t)" "\<And>p. p \<in> set (Q ! t) \<Longrightarrow> threadNumber (h p) = t"
  using assms unfolding rn_inv_def map_inv_def by blast+

lemma rn_inv_len:
  assumes "rn_inv rf act st h Q"
  shows "length (commitRenameMap st) = length (renameMap st)" "length (historyBuffer st) = length (renameMap st)"
    "length Q = length (renameMap st)" "regs_conserved rf st"
  using assms unfolding rn_inv_def by blast+

lemma map_inv_cong:
  assumes "\<And>p. p \<in> set L \<Longrightarrow> h' p = h p"
  shows "map_inv rf h' act t u c H L = map_inv rf h act t u c H L"
proof -
  have "map (\<lambda>p. entries (h' p)) L = map (\<lambda>p. entries (h p)) L" using assms by simp
  then have "hist_of h' L = hist_of h L" unfolding hist_of_def by metis
  moreover have "sorted_wrt (\<lambda>p q. seqNum (h' p) < seqNum (h' q)) L = sorted_wrt (\<lambda>p q. seqNum (h p) < seqNum (h q)) L"
    using assms by (auto simp: sorted_wrt_iff_nth_less)
  ultimately show ?thesis using assms by (simp add: map_inv_def)
qed

lemma sum_thread:
  fixes g :: "nat \<Rightarrow> 'a multiset"
  assumes "t < n"
  shows "(\<Sum>i<n. g i) = g t + (\<Sum>i\<in>{..<n} - {t}. g i)"
  using assms by (subst sum.remove [of _ t]) auto

lemma rn_inv_thread:
  assumes "rn_inv rf act st h Q" "t < length (renameMap st)"
  shows "thread_inv rf (renameMap st ! t) (freeList st) (historyBuffer st ! t)"
proof -
  have "held c (renameMap st ! t) (freeList st) (historyBuffer st ! t) \<subseteq># mset (getRegIds rf c)" if "ren_class c" for c
  proof -
    let ?g = "\<lambda>t. mapped_class c (renameMap st ! t) + displaced c (historyBuffer st ! t)"
    have "mset (getRegIds rf c) = mset (class_list c (freeList st)) + (\<Sum>t<length (renameMap st). ?g t)"
      using rn_inv_len(4) [OF assms(1)] that by (simp add: regs_conserved_def)
    also have "\<dots> = held c (renameMap st ! t) (freeList st) (historyBuffer st ! t) +
        (\<Sum>i\<in>{..<length (renameMap st)} - {t}. ?g i)"
      unfolding sum_thread [OF assms(2), of ?g] by (simp add: held_def)
    finally show ?thesis by simp
  qed
  then show ?thesis using rn_invD(1,3) [OF assms] by (simp add: thread_inv_def)
qed

text \<open>An operation of one thread keeps the registers of all threads together.\<close>

lemma conserve_update:
  assumes "rn_inv rf act st h Q" "t < length (renameMap st)" "ren_class c"
    and "same_held (renameMap st ! t) (freeList st) (historyBuffer st ! t) u' fl' H'"
  shows "mset (class_list c fl') + (\<Sum>i<length (renameMap st).
      mapped_class c ((renameMap st)[t := u'] ! i) + displaced c ((historyBuffer st)[t := H'] ! i)) = mset (getRegIds rf c)"
proof -
  let ?g = "\<lambda>t. mapped_class c (renameMap st ! t) + displaced c (historyBuffer st ! t)"
  let ?g' = "\<lambda>i. mapped_class c ((renameMap st)[t := u'] ! i) + displaced c ((historyBuffer st)[t := H'] ! i)"
  let ?n = "length (renameMap st)"
  have rest: "(\<Sum>i\<in>{..<?n} - {t}. ?g' i) = (\<Sum>i\<in>{..<?n} - {t}. ?g i)" by (rule sum.cong) auto
  have "held c u' fl' H' = held c (renameMap st ! t) (freeList st) (historyBuffer st ! t)"
    using assms(3,4) by (simp add: same_held_def)
  then have one: "mset (class_list c fl') + ?g' t = mset (class_list c (freeList st)) + ?g t"
    using assms(2) rn_inv_len(2) [OF assms(1)] by (simp only: held_def union_assoc nth_list_update_eq)
  have "mset (class_list c fl') + (\<Sum>i<?n. ?g' i) = mset (class_list c (freeList st)) + (\<Sum>i<?n. ?g i)"
    unfolding sum_thread [OF assms(2), of ?g] sum_thread [OF assms(2), of ?g'] rest
    by (simp only: union_assoc [symmetric] one [unfolded union_assoc [symmetric]])
  then show ?thesis using rn_inv_len(4) [OF assms(1)] assms(3) by (simp add: regs_conserved_def)
qed

lemma rn_inv_update:
  assumes "rn_inv rf act st h Q" "t < length (renameMap st)"
    and "same_held (renameMap st ! t) (freeList st) (historyBuffer st ! t) u' fl' H'"
    and "map_inv rf h' (t < act) t u' c' H' L'" "\<And>i p. i < length Q \<Longrightarrow> i \<noteq> t \<Longrightarrow> p \<in> set (Q ! i) \<Longrightarrow> h' p = h p"
  shows "rn_inv rf act (st\<lparr>renameMap := (renameMap st)[t := u'], freeList := fl', scoreboard := sb,
      historyBuffer := (historyBuffer st)[t := H'], commitRenameMap := (commitRenameMap st)[t := c']\<rparr>) h' (Q[t := L'])"
proof -
  note len = rn_inv_len [OF assms(1)]
  have "map_inv rf h' (i < act) i ((renameMap st)[t := u'] ! i) ((commitRenameMap st)[t := c'] ! i)
      ((historyBuffer st)[t := H'] ! i) (Q[t := L'] ! i)" if i: "i < length (renameMap st)" for i
  proof (cases "i = t")
    case True
    then show ?thesis using assms(2,4) len by simp
  next
    case False
    then have "map_inv rf h' (i < act) i (renameMap st ! i) (commitRenameMap st ! i) (historyBuffer st ! i) (Q ! i)"
      using map_inv_cong [of "Q ! i" h' h] assms(1,5) i len by (simp add: rn_inv_def)
    then show ?thesis using False by simp
  qed
  then show ?thesis
    unfolding rn_inv_def regs_conserved_def using conserve_update [OF assms(1,2) _ assms(3)] len by simp
qed

section \<open>Renaming, squashing and committing keep the invariant\<close>

lemma hist_of_simps [simp]:
  "hist_of h [] = []" "hist_of h (p # L) = hist_of h L @ rev (entries (h p))" "hist_of h (L @ L') = hist_of h L' @ hist_of h L"
  by (simp_all add: hist_of_def)

lemma entries_seqNum: "e \<in> set (entries i) \<Longrightarrow> instSeqNum e = seqNum i"
  by (auto simp: entries_def entry_of_def)

lemma hist_of_seqNum: "e \<in> set (hist_of h L) \<Longrightarrow> \<exists>p\<in>set L. instSeqNum e = seqNum (h p)"
  using entries_seqNum by (fastforce simp: hist_of_def)

definition src_frame :: "DynInst \<Rightarrow> DynInst \<Rightarrow> bool" where
  "src_frame i j \<longleftrightarrow> seqNum j = seqNum i \<and> staticInst j = staticInst i \<and> threadNumber j = threadNumber i"

lemma rename_src_frame: "rename_src isa rf flatten m sb i k = Some j \<Longrightarrow> src_frame i j"
  by (auto simp: rename_src_def renameSrcReg_def markSrcRegReady_idx_def markSrcRegReady_def src_frame_def
      bind_eq_Some_conv Let_def)

lemma renameSrcRegs_frame: "renameSrcRegs isa rf flatten t st i = Some j \<Longrightarrow> src_frame i j"
proof -
  assume "renameSrcRegs isa rf flatten t st i = Some j"
  then obtain m where "foldM (rename_src isa rf flatten m (scoreboard st)) i [0..<numSrcRegs i] = Some j"
    by (auto simp: renameSrcRegs_def bind_eq_Some_conv)
  then show ?thesis
    by (rule foldM_preserves) (auto dest: rename_src_frame simp: src_frame_def)
qed

lemma renameDestRegs_ok:
  assumes "renameDestRegs isa rf flatten t (st, i) = Some (st', j)" "rf_ok rf" "rn_inv rf act st h Q"
    and "t < act" "t < length (renameMap st)"
  obtains u' fl' sb where
    "st' = st\<lparr>renameMap := (renameMap st)[t := u'], freeList := fl', scoreboard := sb,
       historyBuffer := (historyBuffer st)[t := rev (entries j) @ historyBuffer st ! t]\<rparr>"
    "same_held (renameMap st ! t) (freeList st) (historyBuffer st ! t) u' fl' (rev (entries j) @ historyBuffer st ! t)"
    "thread_inv rf u' fl' (rev (entries j) @ historyBuffer st ! t)" "no_null u'"
    "rollback u' (rev (entries j)) = renameMap st ! t" "dest_frame i j"
    "\<forall>k<numDestRegs i. flatDestRegIdx j ! k = flatten (si_destRegs (staticInst i) ! k)"
    "numDestRegs i \<le> length (flatDestRegIdx j)" "numDestRegs i \<le> length (destRegIdx j)"
proof -
  let ?s = "\<lparr>l_map = renameMap st ! t, l_free = freeList st, l_sb = scoreboard st, l_hist = historyBuffer st ! t, l_inst = i\<rparr>"
  note len = rn_inv_len [OF assms(3)]
  obtain l where l: "foldM (rename_dest isa rf flatten) ?s [0..<numDestRegs i] = Some l"
    "st' = st\<lparr>renameMap := (renameMap st)[t := l_map l], freeList := l_free l, scoreboard := l_sb l,
       historyBuffer := (historyBuffer st)[t := l_hist l]\<rparr>" "j = l_inst l"
    using assms(1,5) len by (auto simp: renameDestRegs_def bind_eq_Some_conv)
  have "loop_ok rf flatten ?s (numDestRegs i) l"
    by (rule rename_loop_ok [OF assms(2) _ _ l(1)])
      (simp_all add: rn_inv_thread [OF assms(3,5)] rn_invD(2) [OF assms(3,5,4)])
  note lk = this [unfolded loop_ok_def, simplified]
  have "numDestRegs (l_inst l) = numDestRegs i" using lk dest_frameD(2) by fastforce
  then have es: "map (entry_of (l_inst l)) [0..<numDestRegs i] = entries j" by (simp add: entries_def l(3))
  show ?thesis
  proof (rule that [where u' = "l_map l" and fl' = "l_free l" and sb = "l_sb l"])
    have h: "l_hist l = rev (entries j) @ historyBuffer st ! t" using lk unfolding rev_map [symmetric] es by simp
    show "st' = st\<lparr>renameMap := (renameMap st)[t := l_map l], freeList := l_free l, scoreboard := l_sb l,
       historyBuffer := (historyBuffer st)[t := rev (entries j) @ historyBuffer st ! t]\<rparr>" using l(2) h by simp
    show "same_held (renameMap st ! t) (freeList st) (historyBuffer st ! t) (l_map l) (l_free l) (rev (entries j) @ historyBuffer st ! t)"
      "thread_inv rf (l_map l) (l_free l) (rev (entries j) @ historyBuffer st ! t)"
      unfolding h [symmetric] using lk by blast+
    show "no_null (l_map l)" "dest_frame i j"
      "\<forall>k<numDestRegs i. flatDestRegIdx j ! k = flatten (si_destRegs (staticInst i) ! k)"
      unfolding l(3) using lk by blast+
    show "rollback (l_map l) (rev (entries j)) = renameMap st ! t" using lk unfolding rev_map [symmetric] es by simp
    show "numDestRegs i \<le> length (flatDestRegIdx j)" "numDestRegs i \<le> length (destRegIdx j)"
      using lk l(3) dest_frameD(7,8) [of i j] by simp_all
  qed
qed

lemma dropWhile_prefix: "\<forall>x\<in>set xs. P x \<Longrightarrow> dropWhile P (xs @ ys) = dropWhile P ys"
  by (induction xs) simp_all

lemma dropWhile_none: "\<forall>x\<in>set xs. \<not> P x \<Longrightarrow> dropWhile P xs = xs"
  by (cases xs) simp_all

lemma squash_hist:
  assumes "sorted_wrt (\<lambda>p q. seqNum (h p) < seqNum (h q)) L"
  shows "dropWhile (\<lambda>e. sq < instSeqNum e) (hist_of h L) = hist_of h (filter (\<lambda>q. seqNum (h q) \<le> sq) L)"
  using assms
proof (induction L rule: rev_induct)
  case (snoc q L)
  then have L: "sorted_wrt (\<lambda>p q. seqNum (h p) < seqNum (h q)) L" "\<forall>p\<in>set L. seqNum (h p) < seqNum (h q)"
    by (auto simp: sorted_wrt_append)
  show ?case
  proof (cases "seqNum (h q) \<le> sq")
    case True
    then have "\<forall>p\<in>set (L @ [q]). seqNum (h p) \<le> sq" using L(2) by auto
    moreover from this have "\<forall>e\<in>set (hist_of h (L @ [q])). \<not> sq < instSeqNum e"
      using hist_of_seqNum by (metis not_le)
    ultimately show ?thesis using dropWhile_none [of "hist_of h (L @ [q])"] filter_True [of "L @ [q]"] by metis
  next
    case False
    then have "\<forall>e\<in>set (rev (entries (h q))). sq < instSeqNum e" using entries_seqNum by auto
    from dropWhile_prefix [OF this, of "hist_of h L"] snoc.IH [OF L(1)] False show ?thesis by simp
  qed
qed simp

lemma no_null_undo: "entry_ok rf u e \<Longrightarrow> no_null u \<Longrightarrow> no_null (undo e u)"
  by (auto simp: no_null_def undo_def entry_ok_def split: if_splits dest!: subsetD [OF set_update_subset_insert])

lemma no_null_rollback: "hist_ok rf u (A @ B) \<Longrightarrow> no_null u \<Longrightarrow> no_null (rollback u A)"
  by (induction A arbitrary: u) (auto intro: no_null_undo)

lemma vecMode_rollback [simp]: "vecMode (rollback u H) = vecMode u"
  by (induction H arbitrary: u) simp_all

lemma put_back:
  assumes "entry_ok rf u e" "vecMode u = Full"
  shows "unified_setEntry isa rf (archReg e) (Some (newPhysReg e)) (undo e u) = Some u"
proof (cases "regClass (archReg e) = MiscRegClass")
  case True
  then show ?thesis
    using assms(1) by (simp add: entry_ok_def undo_def unified_setEntry_def unified_lookup_def)
next
  case False
  then have e: "ren_class (regClass (archReg e))" "in_range u (archReg e)" "entry u (archReg e) = Some (newPhysReg e)"
    "regClass (newPhysReg e) = regClass (archReg e)" using assms(1) by (auto simp: entry_ok_def)
  have "put_entry (archReg e) (Some (newPhysReg e)) (undo e u) = u"
    using False e(3) put_entry_simps(4) [OF False, of u] by (simp add: undo_def)
  then show ?thesis using setEntry_eq [OF _ e(1) _ e(4), of "undo e u"] assms(2) e(2) False by (simp add: undo_def)
qed

lemma commit_dests:
  assumes "hist_ok rf w (rev (map (entry_of i) [0..<k]))" "vecMode w = Full"
    and "foldM (commit_dest isa rf i) (rollback w (rev (map (entry_of i) [0..<k]))) [0..<k] = Some c"
  shows "c = w"
  using assms
proof (induction k arbitrary: w c)
  case (Suc k)
  let ?e = "entry_of i k" and ?H = "rev (map (entry_of i) [0..<k])"
  have hk: "entry_ok rf w ?e" "hist_ok rf (undo ?e w) ?H" using Suc.prems(1) by simp_all
  obtain c1 where c1: "foldM (commit_dest isa rf i) (rollback (undo ?e w) ?H) [0..<k] = Some c1" "commit_dest isa rf i c1 k = Some c"
    using Suc.prems(3) by (auto simp: foldM_append bind_eq_Some_conv)
  have "c1 = undo ?e w" by (rule Suc.IH [OF hk(2) _ c1(1)]) (simp add: Suc.prems(2))
  moreover have "unified_setEntry isa rf (archReg ?e) (Some (newPhysReg ?e)) c1 = Some c"
    using c1(2) by (auto simp: commit_dest_def entry_of_def bind_eq_Some_conv vec_get_Some_iff)
  ultimately show ?case using put_back [OF hk(1) Suc.prems(2)] by simp
qed simp

text \<open>Other stages change instructions, but not what renaming recorded in them.\<close>

definition ren_frame :: "DynInst \<Rightarrow> DynInst \<Rightarrow> bool" where
  "ren_frame i j \<longleftrightarrow> seqNum j = seqNum i \<and> staticInst j = staticInst i \<and> threadNumber j = threadNumber i \<and>
     flatDestRegIdx j = flatDestRegIdx i \<and> destRegIdx j = destRegIdx i \<and> prevDestRegIdx j = prevDestRegIdx i"

inductive rename_step ::
  "ISA \<Rightarrow> PhysRegFile \<Rightarrow> (RegId \<Rightarrow> RegId) \<Rightarrow> nat \<Rightarrow> rename_state \<times> inst_heap \<times> DynInstPtr list list \<Rightarrow>
   rename_state \<times> inst_heap \<times> DynInstPtr list list \<Rightarrow> bool" for isa rf flatten act where
  rename: "rename_inst isa rf flatten (st, h p) = Some (Some (st', i')) \<Longrightarrow> t = threadNumber (h p) \<Longrightarrow> t < act \<Longrightarrow>
    (\<forall>L\<in>set Q. p \<notin> set L) \<Longrightarrow> (\<forall>q\<in>set (Q ! t). seqNum (h q) < seqNum (h p)) \<Longrightarrow>
    rename_step isa rf flatten act (st, h, Q) (st', h(p := i'), Q[t := Q ! t @ [p]])"
| squash: "rename_doSquash isa rf sq t st = Some st' \<Longrightarrow>
    rename_step isa rf flatten act (st, h, Q) (st', h, Q[t := filter (\<lambda>q. seqNum (h q) \<le> sq) (Q ! t)])"
| commit: "t < length Q \<Longrightarrow> Q ! t = p # L \<Longrightarrow> commit_rename isa rf t (h p) st = Some st1 \<Longrightarrow>
    removeFromHistory (seqNum (h p)) t st1 = Some st' \<Longrightarrow> rename_step isa rf flatten act (st, h, Q) (st', h, Q[t := L])"
| execute: "(\<forall>p. ren_frame (h p) (h' p)) \<Longrightarrow>
    rename_step isa rf flatten act (st, h, Q) (st\<lparr>scoreboard := sb\<rparr>, h', Q)"

lemma rename_step_inst:
  assumes "rename_inst isa rf flatten (st, h p) = Some (Some (st', i'))" "rf_ok rf" "rn_inv rf act st h Q"
    and t: "t = threadNumber (h p)" "t < act" and fresh: "\<forall>L\<in>set Q. p \<notin> set L" "\<forall>q\<in>set (Q ! t). seqNum (h q) < seqNum (h p)"
  shows "rn_inv rf act st' (h(p := i')) (Q[t := Q ! t @ [p]])"
proof -
  obtain i1 where i1: "renameSrcRegs isa rf flatten t st (h p) = Some i1" "src_frame (h p) i1"
    "renameDestRegs isa rf flatten (threadNumber i1) (st, i1) = Some (st', i')"
    using assms(1) t renameSrcRegs_frame by (auto simp: rename_inst_def bind_eq_Some_conv split: if_splits)
  have tl: "t < length (renameMap st)" using i1(1) by (auto simp: renameSrcRegs_def bind_eq_Some_conv vec_get_Some_iff)
  have r: "renameDestRegs isa rf flatten t (st, i1) = Some (st', i')" using i1(2,3) t by (simp add: src_frame_def)
  note len = rn_inv_len [OF assms(3)] and d = rn_invD [OF assms(3) tl]
  from renameDestRegs_ok [OF r assms(2,3) t(2) tl] obtain u' fl' sb where u':
    "st' = st\<lparr>renameMap := (renameMap st)[t := u'], freeList := fl', scoreboard := sb,
       historyBuffer := (historyBuffer st)[t := rev (entries i') @ historyBuffer st ! t]\<rparr>"
    "same_held (renameMap st ! t) (freeList st) (historyBuffer st ! t) u' fl' (rev (entries i') @ historyBuffer st ! t)"
    "thread_inv rf u' fl' (rev (entries i') @ historyBuffer st ! t)" "no_null u'"
    "rollback u' (rev (entries i')) = renameMap st ! t" "dest_frame i1 i'" by blast
  have fr: "seqNum i' = seqNum (h p)" "threadNumber i' = t"
    using dest_frameD(1,3) [OF u'(6)] i1(2) t by (simp_all add: src_frame_def)
  have other: "\<And>i q. i < length Q \<Longrightarrow> q \<in> set (Q ! i) \<Longrightarrow> (h(p := i')) q = h q" using fresh(1) by auto
  have "t < length Q" using tl len by simp
  have hist: "hist_of (h(p := i')) (Q ! t) = hist_of h (Q ! t)"
    unfolding hist_of_def using other [OF \<open>t < length Q\<close>] by (metis (no_types, lifting) map_cong)
  have "map_inv rf (h(p := i')) (t < act) t (renameMap st ! t) (commitRenameMap st ! t) (historyBuffer st ! t) (Q ! t)"
    using map_inv_cong [of "Q ! t" "h(p := i')" h] other [OF \<open>t < length Q\<close>] assms(3) tl by (simp add: rn_inv_def)
  then have "map_inv rf (h(p := i')) (t < act) t u' (commitRenameMap st ! t) (rev (entries i') @ historyBuffer st ! t) (Q ! t @ [p])"
    using u'(3-5) fr fresh other [OF \<open>t < length Q\<close>] hist
    by (auto simp: map_inv_def thread_inv_def rollback_append sorted_wrt_append)
  from rn_inv_update [OF assms(3) tl u'(2) this, of sb] other u'(1) tl len show ?thesis by simp
qed

lemma rename_step_squash:
  assumes "rename_doSquash isa rf sq t st = Some st'" "rn_inv rf act st h Q"
  shows "rn_inv rf act st' h (Q[t := filter (\<lambda>q. seqNum (h q) \<le> sq) (Q ! t)])"
    and "\<exists>u fl. st' = st\<lparr>renameMap := (renameMap st)[t := u], freeList := fl,
      historyBuffer := (historyBuffer st)[t := dropWhile (\<lambda>e. sq < instSeqNum e) (historyBuffer st ! t)]\<rparr> \<and>
      u = rollback (renameMap st ! t) (takeWhile (\<lambda>e. sq < instSeqNum e) (historyBuffer st ! t))"
proof -
  let ?P = "\<lambda>e. sq < instSeqNum e"
  have t: "t < length (renameMap st)" using assms(1) by (auto simp: rename_doSquash_def bind_eq_Some_conv vec_get_Some_iff)
  note len = rn_inv_len [OF assms(2)] and d = rn_invD [OF assms(2) t]
  let ?u = "renameMap st ! t" and ?H = "historyBuffer st ! t"
  obtain fl' where fl': "squash_history isa rf sq ?u (freeList st) ?H = Some (rollback ?u (takeWhile ?P ?H), fl', dropWhile ?P ?H)"
    "same_held ?u (freeList st) ?H (rollback ?u (takeWhile ?P ?H)) fl' (dropWhile ?P ?H)"
    "thread_inv rf (rollback ?u (takeWhile ?P ?H)) fl' (dropWhile ?P ?H)"
    using squash_history_ok [OF rn_inv_thread [OF assms(2) t]] by blast
  have st': "st' = st\<lparr>renameMap := (renameMap st)[t := rollback ?u (takeWhile ?P ?H)], freeList := fl',
      historyBuffer := (historyBuffer st)[t := dropWhile ?P ?H]\<rparr>"
    using assms(1) t len fl'(1) by (simp add: rename_doSquash_def)
  then show "\<exists>u fl. st' = st\<lparr>renameMap := (renameMap st)[t := u], freeList := fl,
      historyBuffer := (historyBuffer st)[t := dropWhile ?P ?H]\<rparr> \<and> u = rollback ?u (takeWhile ?P ?H)" by blast
  have split: "takeWhile ?P ?H @ dropWhile ?P ?H = ?H" by simp
  have "rollback (rollback ?u (takeWhile ?P ?H)) (dropWhile ?P ?H) = commitRenameMap st ! t"
    using d(4) rollback_append [of ?u "takeWhile ?P ?H" "dropWhile ?P ?H"] split by simp
  moreover have "t < act \<longrightarrow> no_null (rollback ?u (takeWhile ?P ?H))"
    using no_null_rollback [of rf ?u "takeWhile ?P ?H" "dropWhile ?P ?H"] d(2,3) split by simp
  moreover have "hist_ok rf (rollback ?u (takeWhile ?P ?H)) (dropWhile ?P ?H)" using fl'(3) by (simp add: thread_inv_def)
  moreover have "dropWhile ?P ?H = hist_of h (filter (\<lambda>q. seqNum (h q) \<le> sq) (Q ! t))"
    using squash_hist [OF d(6)] d(5) by simp
  ultimately have "map_inv rf h (t < act) t (rollback ?u (takeWhile ?P ?H)) (commitRenameMap st ! t) (dropWhile ?P ?H)
      (filter (\<lambda>q. seqNum (h q) \<le> sq) (Q ! t))"
    unfolding map_inv_def using d(1,6,7) by (auto simp: sorted_wrt_filter)
  from rn_inv_update [OF assms(2) t fl'(2) this, of "scoreboard st"] t len st'
  show "rn_inv rf act st' h (Q[t := filter (\<lambda>q. seqNum (h q) \<le> sq) (Q ! t)])" by simp
qed

lemma commit_history_entries:
  assumes "sorted_wrt (\<lambda>p q. seqNum (h p) < seqNum (h q)) (p # L)"
  shows "dropWhile (\<lambda>e. instSeqNum e \<le> seqNum (h p)) (rev (hist_of h (p # L))) = rev (hist_of h L)"
proof -
  have 1: "\<forall>e\<in>set (entries (h p)). instSeqNum e \<le> seqNum (h p)" using entries_seqNum by auto
  have 2: "\<forall>e\<in>set (rev (hist_of h L)). \<not> instSeqNum e \<le> seqNum (h p)"
    using hist_of_seqNum assms by (fastforce simp: not_le)
  from dropWhile_prefix [OF 1, of "rev (hist_of h L)"] dropWhile_none [OF 2] show ?thesis by simp
qed

lemma rename_step_commit:
  assumes "commit_rename isa rf t (h p) st = Some st1" "removeFromHistory (seqNum (h p)) t st1 = Some st'"
    and "rn_inv rf act st h Q" "t < length Q" "Q ! t = p # L"
  shows "rn_inv rf act st' h (Q[t := L])"
proof -
  note len = rn_inv_len [OF assms(3)]
  have t: "t < length (renameMap st)" using assms(4) len by simp
  note d = rn_invD [OF assms(3) t]
  let ?u = "renameMap st ! t" and ?H = "historyBuffer st ! t" and ?H' = "hist_of h L" and ?E = "rev (entries (h p))"
  have H: "?H = ?H' @ ?E" using d(5) assms(5) by simp
  let ?w = "rollback ?u ?H'"
  have w: "hist_ok rf ?u ?H'" "hist_ok rf ?w ?E" "rollback ?w ?E = commitRenameMap st ! t"
    using d(3,4) H by (simp_all add: hist_ok_append rollback_append)
  obtain c where c: "foldM (commit_dest isa rf (h p)) (commitRenameMap st ! t) [0..<numDestRegs (h p)] = Some c"
    "st1 = st\<lparr>commitRenameMap := (commitRenameMap st)[t := c]\<rparr>"
    using assms(1) t len by (auto simp: commit_rename_def bind_eq_Some_conv)
  have cw: "c = ?w"
    by (rule commit_dests [of rf _ "h p" "numDestRegs (h p)"]) (use w c(1) d(1) in \<open>simp_all add: entries_def rev_map\<close>)
  have dr: "rev (dropWhile (\<lambda>e. instSeqNum e \<le> seqNum (h p)) (rev ?H)) = ?H'"
    using commit_history_entries [of h p L] d(5,6) assms(5) by simp
  obtain fl' where fl': "commit_history (seqNum (h p)) (freeList st) (rev ?H) = Some (fl', dropWhile (\<lambda>e. instSeqNum e \<le> seqNum (h p)) (rev ?H))"
    "same_held ?u (freeList st) ?H ?u fl' ?H'" "thread_inv rf ?u fl' ?H'"
    using commit_history_ok [of rf ?u "freeList st" "rev ?H" "seqNum (h p)"] rn_inv_thread [OF assms(3) t] dr by auto
  have early: "?H' = ?H \<and> fl' = freeList st" if "?H = [] \<or> instSeqNum (last ?H) > seqNum (h p)"
  proof -
    have "commit_history (seqNum (h p)) (freeList st) (rev ?H) = Some (freeList st, rev ?H)"
      using that by (cases ?H rule: rev_cases) auto
    then show ?thesis using fl'(1) dr by auto
  qed
  have "st' = st1\<lparr>freeList := fl', historyBuffer := (historyBuffer st)[t := ?H']\<rparr>"
  proof (cases "?H = [] \<or> instSeqNum (last ?H) > seqNum (h p)")
    case True
    from early [OF this] have "st1\<lparr>freeList := fl', historyBuffer := (historyBuffer st)[t := ?H']\<rparr> = st1" using c(2) by simp
    moreover have "st' = st1" using True assms(2) c(2) t len by (auto simp: removeFromHistory_def split: if_splits)
    ultimately show ?thesis by simp
  next
    case False
    then show ?thesis using assms(2) c(2) t len fl'(1) dr by (simp add: removeFromHistory_def)
  qed
  then have st': "st' = st\<lparr>renameMap := (renameMap st)[t := ?u], freeList := fl', scoreboard := scoreboard st,
      historyBuffer := (historyBuffer st)[t := ?H'], commitRenameMap := (commitRenameMap st)[t := ?w]\<rparr>"
    using c(2) cw by simp
  have "map_inv rf h (t < act) t ?u ?w ?H' L"
    using d w(1) assms(5) by (auto simp: map_inv_def)
  from rn_inv_update [OF assms(3) t fl'(2) this, of "scoreboard st"] show ?thesis unfolding st' by simp
qed

lemma ren_frame_inv:
  assumes "\<forall>p. ren_frame (h p) (h' p)" "rn_inv rf act st h Q"
  shows "rn_inv rf act (st\<lparr>scoreboard := sb\<rparr>) h' Q"
proof -
  have "entries (h' p) = entries (h p)" "seqNum (h' p) = seqNum (h p)" "threadNumber (h' p) = threadNumber (h p)" for p
    using assms(1) by (auto simp: ren_frame_def entries_def entry_of_def)
  then have "map_inv rf h' = map_inv rf h" by (intro ext) (simp add: map_inv_def hist_of_def)
  then show ?thesis using assms(2) by (simp add: rn_inv_def regs_conserved_def)
qed

lemma rename_step_inv:
  assumes "rename_step isa rf flatten act (st, h, Q) (st', h', Q')" "rf_ok rf" "rn_inv rf act st h Q"
  shows "rn_inv rf act st' h' Q'"
  using assms(1)
proof cases
  case (rename p i' t)
  then show ?thesis using rename_step_inst [OF rename(3) assms(2,3)] by blast
next
  case (squash sq t)
  then show ?thesis using rename_step_squash(1) assms(3) by blast
next
  case (commit t p L st1)
  then show ?thesis using rename_step_commit [OF _ _ assms(3)] by blast
next
  case (execute sb)
  then show ?thesis using ren_frame_inv assms(3) by blast
qed

end
