(* ===== verification/Rename_Init.thy ===== *)
theory Rename_Init
  imports Rename_Run
begin

text \<open>
  The state that the CPU constructor leaves: the architectural registers of thread
  \<open>t\<close> are mapped, class by class and in order, to the next registers of the file, so
  thread 0 has the identity mapping and the zero register maps to itself.
\<close>

section \<open>The free lists\<close>

fun num_regs :: "ISA \<Rightarrow> RegClass \<Rightarrow> nat" where
  "num_regs isa IntRegClass = NumIntRegs isa"
| "num_regs isa FloatRegClass = NumFloatRegs isa"
| "num_regs isa VecRegClass = NumVecRegs isa"
| "num_regs isa VecElemClass = NumVecRegs isa * NumVecElemPerVecReg isa"
| "num_regs isa CCRegClass = NumCCRegs isa"
| "num_regs isa MiscRegClass = 0"

lemma product_concat: "List.product xs ys = concat (map (\<lambda>x. map (Pair x) ys) xs)"
  by (induction xs) simp_all

lemma mk_UnifiedFreeList_ok:
  fixes a b c d :: nat and isa :: ISA
  defines "rf \<equiv> mk_PhysRegFile isa a b c d Full"
  shows "\<exists>fl. mk_UnifiedFreeList isa rf = Some fl \<and> (\<forall>k. ren_class k \<longrightarrow> class_list k fl = getRegIds rf k)"
proof -
  have cls: "\<forall>p\<in>set (getRegIds rf k). regClass p = k" for k using getRegIds_class by (auto simp: rf_def)
  have idx: "map regIdx (intRegIds rf) = [0..<length (intRegIds rf)]" "map regIdx (floatRegIds rf) = [0..<length (floatRegIds rf)]"
    "map regIdx (vecRegIds rf) = [0..<length (vecRegIds rf)]" "map regIdx (ccRegIds rf) = [0..<length (ccRegIds rf)]"
    by (simp_all add: rf_def mk_PhysRegFile_def Let_def mk_PhysRegId_def comp_def)
  have elem: "map (\<lambda>r. (regIdx r, elemIdx r)) (vecElemIds rf) =
      List.product [0..<length (vecRegIds rf)] [0..<NumVecElemPerVecReg isa]"
    by (simp add: rf_def mk_PhysRegFile_def Let_def mk_PhysElemId_def map_concat comp_def product_concat)
  have mode: "rf_vecMode rf = Full" by (simp add: rf_def mk_PhysRegFile_def Let_def)
  let ?base = "\<lparr>intList = [], floatList = [], vecList = [], vecElemList = [], ccList = []\<rparr>"
  obtain u1 where u1: "addRegs (intRegIds rf) ?base = Some u1"
    "\<forall>k. class_list k u1 = (if k = IntRegClass then class_list IntRegClass ?base @ intRegIds rf else class_list k ?base)"
    using addRegs_ids [of "intRegIds rf" IntRegClass ?base] cls [of IntRegClass] by auto
  obtain u2 where u2: "addRegs (floatRegIds rf) u1 = Some u2"
    "\<forall>k. class_list k u2 = (if k = FloatRegClass then class_list FloatRegClass u1 @ floatRegIds rf else class_list k u1)"
    using addRegs_ids [of "floatRegIds rf" FloatRegClass u1] cls [of FloatRegClass] by auto
  obtain u3 where u3: "addRegs (vecRegIds rf) u2 = Some u3"
    "\<forall>k. class_list k u3 = (if k = VecRegClass then class_list VecRegClass u2 @ vecRegIds rf else class_list k u2)"
    using addRegs_ids [of "vecRegIds rf" VecRegClass u2] cls [of VecRegClass] by auto
  obtain u4 where u4: "addRegs (ccRegIds rf) u3 = Some u4"
    "\<forall>k. class_list k u4 = (if k = CCRegClass then class_list CCRegClass u3 @ ccRegIds rf else class_list k u3)"
    using addRegs_ids [of "ccRegIds rf" CCRegClass u3] cls [of CCRegClass] by auto
  have "class_list k u4 = getRegIds rf k" if "ren_class k" for k
    using that u1(2) u2(2) u3(2) u4(2) by (cases k) (simp_all add: ren_class_def del: class_list.simps, simp_all)
  moreover have "mk_UnifiedFreeList isa rf = Some u4"
    unfolding mk_UnifiedFreeList_def initFreeList_def using idx elem mode u1(1) u2(1) u3(1) u4(1) by simp
  ultimately show ?thesis by blast
qed

section \<open>The initial mappings\<close>

definition fill :: "RegClass \<Rightarrow> PhysRegId list \<Rightarrow> UnifiedRenameMap \<Rightarrow> UnifiedRenameMap" where
  "fill c ps u = set_class_map c
     ((class_map c u)\<lparr>arch2phys := map Some ps @ drop (length ps) (arch2phys (class_map c u))\<rparr>) u"

lemma fill_simps [simp]:
  assumes "ren_class c"
  shows "class_map d (fill c ps u) = (if d = c
      then (class_map c u)\<lparr>arch2phys := map Some ps @ drop (length ps) (arch2phys (class_map c u))\<rparr> else class_map d u)"
    "vecMode (fill c ps u) = vecMode u"
  using assms by (auto simp: fill_def ren_class_def)

lemma fill_Nil [simp]: "fill c [] u = u"
  by (simp add: fill_def)

lemma fill_put:
  assumes "ren_class c" "length ps < length (arch2phys (class_map c u))"
  shows "put_entry \<lparr>regClass = c, regIdx = length ps, elemIdx = e\<rparr> (Some p) (fill c ps u) = fill c (ps @ [p]) u"
  using assms
  by (simp add: put_entry_def Let_def fill_def [of c "ps @ [p]"] list_update_append1 list_update_append upd_conv_take_nth_drop)
    (simp add: fill_def Cons_nth_drop_Suc [symmetric])

lemma init_reg_eq:
  assumes "t < length (renameMap st)" "t < length (commitRenameMap st)" "ren_class c"
    and "vecMode (renameMap st ! t) = Full" "vecMode (commitRenameMap st ! t) = Full"
    and "class_list c (freeList st) = p # l" "regClass p = c"
    and "k < length (arch2phys (class_map c (renameMap st ! t)))" "k < length (arch2phys (class_map c (commitRenameMap st ! t)))"
  defines "rid \<equiv> \<lparr>regClass = c, regIdx = k, elemIdx = no_elem\<rparr>"
  shows "\<exists>fl. on_list c (\<lambda>_. l) (freeList st) = Some fl \<and> init_reg isa rf t st rid = Some (st\<lparr>freeList := fl,
    renameMap := (renameMap st)[t := put_entry rid (Some p) (renameMap st ! t)],
    commitRenameMap := (commitRenameMap st)[t := put_entry rid (Some p) (commitRenameMap st ! t)]\<rparr>)"
proof -
  obtain fl where fl: "on_list c (\<lambda>_. l) (freeList st) = Some fl" using on_list_defined [of c "\<lambda>_. l" "freeList st"] assms(3) by (auto simp: ren_class_def)
  have "get_class_reg c (freeList st) = Some (p, fl)" using fl assms(6) by (simp add: get_class_reg_def simple_getReg_def)
  moreover have "regClass rid = c" by (simp add: rid_def)
  moreover have "unified_setEntry isa rf rid (Some p) (renameMap st ! t) = Some (put_entry rid (Some p) (renameMap st ! t))"
    "unified_setEntry isa rf rid (Some p) (commitRenameMap st ! t) = Some (put_entry rid (Some p) (commitRenameMap st ! t))"
    using assms by (auto intro!: setEntry_eq simp: in_range_def)
  ultimately show ?thesis using fl assms(1,2) by (simp add: init_reg_def)
qed

lemma init_class_ok:
  assumes "t < length (renameMap st)" "t < length (commitRenameMap st)" "ren_class c"
    and "vecMode (renameMap st ! t) = Full" "commitRenameMap st ! t = renameMap st ! t"
    and "n \<le> length (class_list c (freeList st))" "\<forall>p\<in>set (class_list c (freeList st)). regClass p = c"
    and "n \<le> length (arch2phys (class_map c (renameMap st ! t)))"
  defines "u \<equiv> fill c (take n (class_list c (freeList st))) (renameMap st ! t)"
  shows "\<exists>fl. init_class isa rf t c n st = Some (st\<lparr>freeList := fl, renameMap := (renameMap st)[t := u],
      commitRenameMap := (commitRenameMap st)[t := u]\<rparr>) \<and>
    (\<forall>d. class_list d fl = (if d = c then drop n (class_list c (freeList st)) else class_list d (freeList st)))"
  using assms(6,8) unfolding u_def
proof (induction n)
  case 0
  have "(commitRenameMap st)[t := renameMap st ! t] = commitRenameMap st" using assms(5) by (metis list_update_id)
  then show ?case by (auto simp: init_class_def intro!: exI [of _ "freeList st"])
next
  case (Suc n)
  let ?l = "class_list c (freeList st)" and ?base = "renameMap st ! t"
  let ?u = "fill c (take n ?l) ?base" and ?rid = "\<lparr>regClass = c, regIdx = n, elemIdx = no_elem\<rparr>"
  obtain fl where fl: "init_class isa rf t c n st = Some (st\<lparr>freeList := fl, renameMap := (renameMap st)[t := ?u],
      commitRenameMap := (commitRenameMap st)[t := ?u]\<rparr>)"
    "\<forall>d. class_list d fl = (if d = c then drop n ?l else class_list d (freeList st))"
    using Suc by auto
  let ?st = "st\<lparr>freeList := fl, renameMap := (renameMap st)[t := ?u], commitRenameMap := (commitRenameMap st)[t := ?u]\<rparr>"
  have l: "class_list c fl = ?l ! n # drop (Suc n) ?l" using fl(2) Suc.prems(1) by (simp add: Cons_nth_drop_Suc)
  have len: "length (take n ?l) = n" using Suc.prems(1) by simp
  have "n < length (arch2phys (class_map c ?u))" using assms(3) Suc.prems len by simp
  then have "\<exists>fl'. on_list c (\<lambda>_. drop (Suc n) ?l) fl = Some fl' \<and> init_reg isa rf t ?st ?rid =
      Some (?st\<lparr>freeList := fl', renameMap := (renameMap ?st)[t := put_entry ?rid (Some (?l ! n)) (renameMap ?st ! t)],
        commitRenameMap := (commitRenameMap ?st)[t := put_entry ?rid (Some (?l ! n)) (commitRenameMap ?st ! t)]\<rparr>)"
    using init_reg_eq [of t ?st c "?l ! n" "drop (Suc n) ?l" n isa rf] assms(1-5,7) l Suc.prems(1) by simp
  then obtain fl' where fl': "on_list c (\<lambda>_. drop (Suc n) ?l) fl = Some fl'"
    "init_reg isa rf t ?st ?rid = Some (st\<lparr>freeList := fl', renameMap := (renameMap st)[t := put_entry ?rid (Some (?l ! n)) ?u],
        commitRenameMap := (commitRenameMap st)[t := put_entry ?rid (Some (?l ! n)) ?u]\<rparr>)"
    using assms(1,2) by auto
  have "put_entry ?rid (Some (?l ! n)) ?u = fill c (take (Suc n) ?l) ?base"
    using fill_put [OF assms(3), of "take n ?l" ?base no_elem "?l ! n"] Suc.prems len by (simp add: take_Suc_conv_app_nth)
  moreover have "mk_RegId c n = Some ?rid" using assms(3) by (simp add: mk_RegId_def ren_class_def)
  ultimately have "init_class isa rf t c (Suc n) st = Some (st\<lparr>freeList := fl', renameMap := (renameMap st)[t := fill c (take (Suc n) ?l) ?base],
      commitRenameMap := (commitRenameMap st)[t := fill c (take (Suc n) ?l) ?base]\<rparr>)"
    using fl(1) fl'(2) by (simp add: init_class_def foldM_append)
  moreover have "\<forall>d. class_list d fl' = (if d = c then drop (Suc n) ?l else class_list d (freeList st))"
    using on_list_class_list [OF fl'(1)] fl(2) by simp
  ultimately show ?case by blast
qed

text \<open>A thread whose maps are still empty, and one that has been initialised with the registers \<open>ps\<close>.\<close>

definition init_map :: "ISA \<Rightarrow> (RegClass \<Rightarrow> PhysRegId list) \<Rightarrow> UnifiedRenameMap \<Rightarrow> bool" where
  "init_map isa ps u \<longleftrightarrow> vecMode u = Full \<and> (\<forall>c. ren_class c \<longrightarrow> arch2phys (class_map c u) = map Some (ps c) \<and>
     length (ps c) = num_regs isa c) \<and> zeroReg (intMap u) = \<lparr>regClass = IntRegClass, regIdx = ZeroReg isa, elemIdx = no_elem\<rparr>"

definition lists_ok :: "ISA \<Rightarrow> nat \<Rightarrow> UnifiedFreeList \<Rightarrow> bool" where
  "lists_ok isa n fl \<longleftrightarrow> (\<forall>c. ren_class c \<longrightarrow> n * num_regs isa c \<le> length (class_list c fl) \<and>
     (\<forall>p\<in>set (class_list c fl). regClass p = c))"

abbreviation zero_map :: "ISA \<Rightarrow> nat \<Rightarrow> UnifiedRenameMap" where
  "zero_map isa fz \<equiv> unified_init isa (ZeroReg isa) fz Full"

text \<open>The four loops of a thread as one loop over the classes.\<close>

lemma init_thread_classes:
  "init_thread isa rf Full st t =
     foldM (\<lambda>st c. init_class isa rf t c (num_regs isa c) st) st [IntRegClass, FloatRegClass, VecRegClass, CCRegClass]"
  by (simp add: init_thread_def)

abbreviation with_map :: "rename_state \<Rightarrow> ThreadID \<Rightarrow> UnifiedFreeList \<Rightarrow> UnifiedRenameMap \<Rightarrow> rename_state" where
  "with_map st t fl u \<equiv> st\<lparr>freeList := fl, renameMap := (renameMap st)[t := u], commitRenameMap := (commitRenameMap st)[t := u]\<rparr>"

lemma init_classes:
  assumes t: "t < length (renameMap st)" "t < length (commitRenameMap st)"
    and u0: "vecMode u0 = Full" "\<And>c. ren_class c \<Longrightarrow> length (arch2phys (class_map c u0)) = num_regs isa c"
    and fl0: "\<And>c. ren_class c \<Longrightarrow> num_regs isa c \<le> length (class_list c fl0) \<and> (\<forall>p\<in>set (class_list c fl0). regClass p = c)"
    and cs: "distinct cs" "\<forall>c\<in>set cs. ren_class c"
  defines "ps \<equiv> \<lambda>c. take (num_regs isa c) (class_list c fl0)"
  shows "\<exists>fl u. foldM (\<lambda>st c. init_class isa rf t c (num_regs isa c) st) (with_map st t fl0 u0) cs = Some (with_map st t fl u) \<and>
    vecMode u = Full \<and> (\<forall>c. zeroReg (class_map c u) = zeroReg (class_map c u0)) \<and>
    (\<forall>c\<in>set cs. class_list c fl = drop (num_regs isa c) (class_list c fl0) \<and> arch2phys (class_map c u) = map Some (ps c)) \<and>
    (\<forall>c. c \<notin> set cs \<longrightarrow> class_list c fl = class_list c fl0 \<and> class_map c u = class_map c u0)"
  using cs
proof (induction cs rule: rev_induct)
  case Nil
  then show ?case using u0(1) by auto
next
  case (snoc c cs)
  then have c: "ren_class c" "c \<notin> set cs" by auto
  obtain fl u where I: "foldM (\<lambda>st c. init_class isa rf t c (num_regs isa c) st) (with_map st t fl0 u0) cs = Some (with_map st t fl u)"
    "vecMode u = Full" "\<forall>c. zeroReg (class_map c u) = zeroReg (class_map c u0)"
    "\<forall>c\<in>set cs. class_list c fl = drop (num_regs isa c) (class_list c fl0) \<and> arch2phys (class_map c u) = map Some (ps c)"
    "\<forall>c. c \<notin> set cs \<longrightarrow> class_list c fl = class_list c fl0 \<and> class_map c u = class_map c u0"
    using snoc by auto
  have e: "class_list c fl = class_list c fl0" "class_map c u = class_map c u0" using I(5) c(2) by auto
  have "\<exists>fl'. init_class isa rf t c (num_regs isa c) (with_map st t fl u) = Some (with_map st t fl' (fill c (ps c) u)) \<and>
      (\<forall>d. class_list d fl' = (if d = c then drop (num_regs isa c) (class_list c fl0) else class_list d fl))"
    using init_class_ok [of t "with_map st t fl u" c "num_regs isa c" isa rf] t c(1) I(2) e u0(2) fl0
    by (simp add: ps_def cong: if_cong)
  then obtain fl' where fl': "init_class isa rf t c (num_regs isa c) (with_map st t fl u) = Some (with_map st t fl' (fill c (ps c) u))"
    "\<forall>d. class_list d fl' = (if d = c then drop (num_regs isa c) (class_list c fl0) else class_list d fl)" by blast
  have "length (ps c) = num_regs isa c" using fl0 [OF c(1)] by (simp add: ps_def)
  then have "arch2phys (class_map c (fill c (ps c) u)) = map Some (ps c)" using c(1) e(2) u0(2) [OF c(1)] by simp
  then have "\<forall>d\<in>set (cs @ [c]). class_list d fl' = drop (num_regs isa d) (class_list d fl0) \<and>
      arch2phys (class_map d (fill c (ps c) u)) = map Some (ps d)"
    using fl'(2) I(4) c by auto
  moreover have "\<forall>d. d \<notin> set (cs @ [c]) \<longrightarrow> class_list d fl' = class_list d fl0 \<and> class_map d (fill c (ps c) u) = class_map d u0"
    using fl'(2) I(5) c(1) by auto
  moreover have "\<forall>d. zeroReg (class_map d (fill c (ps c) u)) = zeroReg (class_map d u0)" using I(3) c(1) by simp
  moreover have "foldM (\<lambda>st c. init_class isa rf t c (num_regs isa c) st) (with_map st t fl0 u0) (cs @ [c]) =
      Some (with_map st t fl' (fill c (ps c) u))" using I(1) fl'(1) by (simp add: foldM_append)
  moreover have "vecMode (fill c (ps c) u) = Full" using I(2) c(1) by simp
  ultimately show ?case by blast
qed

lemma zero_map_size: "ren_class c \<Longrightarrow> length (arch2phys (class_map c (unified_init isa z fz m))) = num_regs isa c"
  by (cases c) (simp_all add: unified_init_def simple_init_def ren_class_def)

lemma init_thread_ok:
  assumes "t < length (renameMap st)" "t < length (commitRenameMap st)" "lists_ok isa (Suc n) (freeList st)"
    and "renameMap st ! t = zero_map isa fz" "commitRenameMap st ! t = zero_map isa fz"
  shows "\<exists>u fl. init_thread isa rf Full st t = Some (with_map st t fl u) \<and> lists_ok isa n fl \<and>
    init_map isa (\<lambda>c. take (num_regs isa c) (class_list c (freeList st))) u \<and>
    (\<forall>c. ren_class c \<longrightarrow> class_list c fl = drop (num_regs isa c) (class_list c (freeList st)))"
proof -
  let ?cs = "[IntRegClass, FloatRegClass, VecRegClass, CCRegClass]"
  have cs: "distinct ?cs" "\<forall>c\<in>set ?cs. ren_class c" "\<And>c. ren_class c \<Longrightarrow> c \<in> set ?cs"
    by (auto simp: ren_class_def) (metis RegClass.exhaust)
  have sz: "num_regs isa c \<le> length (class_list c (freeList st)) \<and> (\<forall>p\<in>set (class_list c (freeList st)). regClass p = c)"
    if "ren_class c" for c using assms(3) that by (auto simp: lists_ok_def)
  have st: "with_map st t (freeList st) (zero_map isa fz) = st"
    using list_update_id [of "renameMap st" t] list_update_id [of "commitRenameMap st" t] assms(4,5) by simp
  have full: "vecMode (zero_map isa fz) = Full" by (simp add: unified_init_def)
  obtain fl u where I: "init_thread isa rf Full st t = Some (with_map st t fl u)" "vecMode u = Full"
    "\<forall>c. zeroReg (class_map c u) = zeroReg (class_map c (zero_map isa fz))"
    "\<forall>c\<in>set ?cs. class_list c fl = drop (num_regs isa c) (class_list c (freeList st)) \<and>
       arch2phys (class_map c u) = map Some (take (num_regs isa c) (class_list c (freeList st)))"
    using init_classes [OF assms(1,2) full zero_map_size sz cs(1,2), of rf] unfolding st init_thread_classes by blast
  have "zeroReg (intMap u) = \<lparr>regClass = IntRegClass, regIdx = ZeroReg isa, elemIdx = no_elem\<rparr>"
    using spec [OF I(3), of IntRegClass] by (simp add: unified_init_def simple_init_def)
  then have "init_map isa (\<lambda>c. take (num_regs isa c) (class_list c (freeList st))) u"
    unfolding init_map_def using I(2,4) cs(3) sz by (metis length_take min.absorb2)
  moreover have lists: "\<forall>c. ren_class c \<longrightarrow> class_list c fl = drop (num_regs isa c) (class_list c (freeList st))"
    using I(4) cs(3) by blast
  moreover have "lists_ok isa n fl" using assms(3) lists by (auto simp: lists_ok_def dest: in_set_dropD)
  ultimately show ?thesis using I(1) by blast
qed

section \<open>All threads\<close>

definition chunk :: "ISA \<Rightarrow> UnifiedFreeList \<Rightarrow> nat \<Rightarrow> RegClass \<Rightarrow> PhysRegId list" where
  "chunk isa fl t c = take (num_regs isa c) (drop (t * num_regs isa c) (class_list c fl))"

lemma init_threads:
  fixes fz :: nat and sb :: Scoreboard
  assumes "lists_ok isa n fl" "k \<le> n"
  defines "st0 \<equiv> \<lparr>renameMap = replicate n (zero_map isa fz), commitRenameMap = replicate n (zero_map isa fz), freeList = fl,
    scoreboard = sb, historyBuffer = replicate n []\<rparr>"
  shows "\<exists>st. foldM (init_thread isa rf Full) st0 [0..<k] = Some st \<and> length (renameMap st) = n \<and>
    commitRenameMap st = renameMap st \<and> historyBuffer st = replicate n [] \<and> lists_ok isa (n - k) (freeList st) \<and>
    (\<forall>c. ren_class c \<longrightarrow> class_list c (freeList st) = drop (k * num_regs isa c) (class_list c fl)) \<and>
    (\<forall>t<k. init_map isa (chunk isa fl t) (renameMap st ! t)) \<and> (\<forall>t<n. k \<le> t \<longrightarrow> renameMap st ! t = zero_map isa fz)"
  using assms(2)
proof (induction k)
  case 0
  then show ?case using assms(1) by (simp add: st0_def)
next
  case (Suc k)
  then obtain st where I: "foldM (init_thread isa rf Full) st0 [0..<k] = Some st" "length (renameMap st) = n"
    "commitRenameMap st = renameMap st" "historyBuffer st = replicate n []" "lists_ok isa (n - k) (freeList st)"
    "\<forall>c. ren_class c \<longrightarrow> class_list c (freeList st) = drop (k * num_regs isa c) (class_list c fl)"
    "\<forall>t<k. init_map isa (chunk isa fl t) (renameMap st ! t)" "\<forall>t<n. k \<le> t \<longrightarrow> renameMap st ! t = zero_map isa fz"
    by auto
  have k: "k < n" "lists_ok isa (Suc (n - Suc k)) (freeList st)" using Suc.prems I(5) by (simp_all add: Suc_diff_Suc)
  obtain u fl' where u: "init_thread isa rf Full st k = Some (with_map st k fl' u)" "lists_ok isa (n - Suc k) fl'"
    "init_map isa (\<lambda>c. take (num_regs isa c) (class_list c (freeList st))) u"
    "\<forall>c. ren_class c \<longrightarrow> class_list c fl' = drop (num_regs isa c) (class_list c (freeList st))"
    using init_thread_ok [of k st isa "n - Suc k" fz rf] k I(2,3,8) by auto
  have "init_map isa (chunk isa fl k) u" using u(3) I(6) by (auto simp: init_map_def chunk_def)
  then have "\<forall>t<Suc k. init_map isa (chunk isa fl t) ((renameMap st)[k := u] ! t)"
    using I(2,7) k(1) by (auto simp: less_Suc_eq)
  moreover have "\<forall>c. ren_class c \<longrightarrow> class_list c fl' = drop (Suc k * num_regs isa c) (class_list c fl)"
    using u(4) I(6) by (simp add: add.commute)
  ultimately show ?case using I u(1,2) by (simp add: foldM_append)
qed

lemma mapped_Some: "mapped (map Some ps) = mset ps"
  by (induction ps) simp_all

lemma chunks_mset:
  "mset (drop (k * n) l) + (\<Sum>t<k. mset (take n (drop (t * n) l))) = mset l"
proof (induction k)
  case (Suc k)
  have "drop (k * n) l = take n (drop (k * n) l) @ drop (Suc k * n) l"
    by (metis append_take_drop_id drop_drop mult_Suc)
  then have "mset (drop (k * n) l) = mset (take n (drop (k * n) l)) + mset (drop (Suc k * n) l)" by (metis mset_append)
  then show ?case using Suc.IH by (simp add: ac_simps)
qed simp

lemma init_map_null:
  assumes "ren_class c" shows "mapped_class c (zero_map isa fz) = {#}"
  using assms by (cases c) (simp_all add: unified_init_def simple_init_def ren_class_def)

lemma mk_rename_ok:
  fixes nInt nFloat nVec nCC :: nat
  assumes sizes: "n * NumIntRegs isa \<le> nInt" "n * NumFloatRegs isa \<le> nFloat" "n * NumVecRegs isa \<le> nVec" "n * NumCCRegs isa \<le> nCC"
    and "act \<le> n"
  defines "rf \<equiv> mk_PhysRegFile isa nInt nFloat nVec nCC Full"
  shows "\<exists>st. mk_rename isa nInt nFloat nVec nCC Full n act = Some st \<and> rn_inv rf act st h (replicate n []) \<and>
    length (renameMap st) = n \<and> (\<forall>t<act. zeroReg (intMap (renameMap st ! t)) = \<lparr>regClass = IntRegClass, regIdx = ZeroReg isa, elemIdx = no_elem\<rparr>) \<and>
    (\<forall>t<act. \<forall>c. ren_class c \<longrightarrow> arch2phys (class_map c (renameMap st ! t)) =
       map Some (take (num_regs isa c) (drop (t * num_regs isa c) (getRegIds rf c))))"
proof -
  obtain fl where fl: "mk_UnifiedFreeList isa rf = Some fl" "\<forall>c. ren_class c \<longrightarrow> class_list c fl = getRegIds rf c"
    using mk_UnifiedFreeList_ok unfolding rf_def by blast
  have ok: "rf_ok rf" unfolding rf_def by (rule rf_ok_mk)
  have "n * num_regs isa c \<le> length (getRegIds rf c)" if "ren_class c" for c
    using that sizes by (cases c) (simp_all add: rf_def mk_PhysRegFile_def Let_def ren_class_def)
  then have lists: "lists_ok isa n fl" using fl(2) ok by (auto simp: lists_ok_def rf_ok_def)
  define fz where "fz = (if is_ALPHA isa then ZeroReg isa else NumFloatRegs isa + 1)"
  define sb where "sb = mk_Scoreboard (nInt + nFloat + nVec + nVec * NumVecElemPerVecReg isa + nCC)"
  obtain st where I: "foldM (init_thread isa rf Full) \<lparr>renameMap = replicate n (zero_map isa fz), commitRenameMap = replicate n (zero_map isa fz),
      freeList = fl, scoreboard = sb, historyBuffer = replicate n []\<rparr> [0..<act] = Some st"
    "length (renameMap st) = n" "commitRenameMap st = renameMap st" "historyBuffer st = replicate n []"
    "\<forall>c. ren_class c \<longrightarrow> class_list c (freeList st) = drop (act * num_regs isa c) (class_list c fl)"
    "\<forall>t<act. init_map isa (chunk isa fl t) (renameMap st ! t)" "\<forall>t<n. act \<le> t \<longrightarrow> renameMap st ! t = zero_map isa fz"
    using init_threads [OF lists assms(5), where fz = fz and sb = sb and rf = rf] by blast
  have mk: "mk_rename isa nInt nFloat nVec nCC Full n act = Some st"
    using I(1) fl(1) sizes unfolding mk_rename_def by (simp add: Let_def fz_def [symmetric] sb_def [symmetric] rf_def [symmetric])
  have maps: "arch2phys (class_map c (renameMap st ! t)) = map Some (take (num_regs isa c) (drop (t * num_regs isa c) (getRegIds rf c)))"
    if "t < act" "ren_class c" for t c using I(6) that fl(2) by (auto simp: init_map_def chunk_def)
  have "regs_conserved rf st"
    unfolding regs_conserved_def
  proof (intro allI impI)
    fix c assume c: "ren_class c"
    let ?g = "\<lambda>t. mset (take (num_regs isa c) (drop (t * num_regs isa c) (getRegIds rf c)))"
    have "(\<Sum>t<length (renameMap st). mapped_class c (renameMap st ! t) + displaced c (historyBuffer st ! t)) =
        (\<Sum>t<n. if t < act then ?g t else {#})"
      by (rule sum.cong) (use I(2,4,7) maps c init_map_null in \<open>auto simp: mapped_Some not_less\<close>)
    also have "\<dots> = (\<Sum>t<act. ?g t)"
      using assms(5) by (intro sum.mono_neutral_cong_right) auto
    finally show "mset (class_list c (freeList st)) + (\<Sum>t<length (renameMap st). mapped_class c (renameMap st ! t) +
        displaced c (historyBuffer st ! t)) = mset (getRegIds rf c)"
      using chunks_mset [of act "num_regs isa c" "getRegIds rf c"] I(5) fl(2) c by simp
  qed
  moreover have "map_inv rf h (t < act) t (renameMap st ! t) (commitRenameMap st ! t) (historyBuffer st ! t) (replicate n [] ! t)"
    if "t < n" for t
  proof (cases "t < act")
    case True
    then have "no_null (renameMap st ! t)" "vecMode (renameMap st ! t) = Full"
      using I(6) by (auto simp: no_null_def init_map_def)
    then show ?thesis using that I(3,4) by (simp add: map_inv_def)
  next
    case False
    then show ?thesis using that I(3,4,7) by (simp add: map_inv_def unified_init_def)
  qed
  ultimately have "rn_inv rf act st h (replicate n [])" using I(2,3,4) by (simp add: rn_inv_def)
  then show ?thesis using mk I(2,6) maps by (auto simp: init_map_def)
qed

end
