(* ===== verification/Rename_Correct.thy ===== *)
theory Rename_Correct
  imports Rename_Init
begin

text \<open>
  What renaming guarantees: conservation of the physical registers in every run,
  the restoration of the map by a squash, the agreement of the physical operands
  with the program's data flow, the round trip of the rename maps, and two
  configurations in which the code does not do what it means to.
\<close>

section \<open>Conservation\<close>

lemma mk_rename_SomeD:
  assumes "mk_rename isa nInt nFloat nVec nCC m n act = Some st"
  shows "n * NumIntRegs isa \<le> nInt" "n * NumFloatRegs isa \<le> nFloat" "n * NumVecRegs isa \<le> nVec" "n * NumCCRegs isa \<le> nCC"
  using assms by (auto simp: mk_rename_def Let_def bind_eq_Some_conv)

lemma reachable_rn_inv:
  fixes nInt nFloat nVec nCC :: nat and isa :: ISA
  defines "rf \<equiv> mk_PhysRegFile isa nInt nFloat nVec nCC Full"
  assumes "mk_rename isa nInt nFloat nVec nCC Full n act = Some st0" "act \<le> n"
    and "(rename_step isa rf flatten act)\<^sup>*\<^sup>* (st0, h0, replicate n []) (st, h, Q)"
  shows "rn_inv rf act st h Q"
proof -
  obtain st1 where "mk_rename isa nInt nFloat nVec nCC Full n act = Some st1" "rn_inv rf act st1 h0 (replicate n [])"
    using mk_rename_ok [OF mk_rename_SomeD [OF assms(2)] assms(3), of h0] unfolding rf_def by blast
  then have init: "rn_inv rf act st0 h0 (replicate n [])" using assms(2) by simp
  have ok: "rf_ok rf" unfolding rf_def by (rule rf_ok_mk)
  have "case s of (st, h, Q) \<Rightarrow> rn_inv rf act st h Q"
    if "(rename_step isa rf flatten act)\<^sup>*\<^sup>* (st0, h0, replicate n []) s" for s
    using that
  proof (induction rule: rtranclp_induct)
    case base
    show ?case using init by simp
  next
    case (step s s')
    obtain a b c a' b' c' where "s = (a, b, c)" "s' = (a', b', c')" by (metis prod_cases3)
    then show ?case using rename_step_inv [OF _ ok] step(2,3) by simp
  qed
  from this [OF assms(4)] show ?thesis by simp
qed

text \<open>
  (C4) In every run from the constructed state, renaming neither loses a physical
  register nor hands one out twice: the free registers, the registers mapped by the
  threads and those displaced by renames in flight are together exactly the
  registers of the file, each once; undoing all renames in flight of a thread gives
  the commit stage's map; and the history holds exactly the renames of the
  instructions in flight.
\<close>

theorem rename_conserves_registers:
  fixes nInt nFloat nVec nCC :: nat and isa :: ISA
  defines "rf \<equiv> mk_PhysRegFile isa nInt nFloat nVec nCC Full"
  assumes "mk_rename isa nInt nFloat nVec nCC Full n act = Some st0" "act \<le> n"
    and "(rename_step isa rf flatten act)\<^sup>*\<^sup>* (st0, h0, replicate n []) (st, h, Q)"
  shows "regs_conserved rf st \<and> (\<forall>c. ren_class c \<longrightarrow> distinct (getRegIds rf c)) \<and>
    (\<forall>t<length (renameMap st). rollback (renameMap st ! t) (historyBuffer st ! t) = commitRenameMap st ! t \<and>
       historyBuffer st ! t = hist_of h (Q ! t))"
proof -
  have "rn_inv rf act st h Q" using reachable_rn_inv [OF assms(2,3)] assms(4) unfolding rf_def by blast
  moreover have "rf_ok rf" unfolding rf_def by (rule rf_ok_mk)
  ultimately show ?thesis using rn_inv_len(4) rn_invD(4,5) unfolding rf_ok_def by blast
qed

section \<open>Squashing undoes renaming\<close>

definition rename_one ::
  "ISA \<Rightarrow> PhysRegFile \<Rightarrow> (RegId \<Rightarrow> RegId) \<Rightarrow> rename_state \<times> inst_heap \<Rightarrow> DynInstPtr \<Rightarrow> (rename_state \<times> inst_heap) option" where
  "rename_one isa rf flatten s p = (case s of (st, h) \<Rightarrow>
     (case rename_inst isa rf flatten (st, h p) of Some (Some (st', i')) \<Rightarrow> Some (st', h(p := i')) | _ \<Rightarrow> None))"

lemma rename_one_SomeD:
  assumes "rename_one isa rf flatten (st, h) p = Some s"
  obtains st' i' where "rename_inst isa rf flatten (st, h p) = Some (Some (st', i'))" "s = (st', h(p := i'))"
  using assms by (auto simp: rename_one_def split: option.splits)

lemma rename_inst_maps:
  assumes "rename_inst isa rf flatten (st, h p) = Some (Some (st', i'))" "rf_ok rf" "rn_inv rf act st h Q"
    and t: "t = threadNumber (h p)" "t < act"
  shows "t < length (renameMap st)" "\<And>i. i \<noteq> t \<Longrightarrow> renameMap st' ! i = renameMap st ! i" "length (renameMap st') = length (renameMap st)"
    "rollback (renameMap st' ! t) (rev (entries i')) = renameMap st ! t"
    "historyBuffer st' = (historyBuffer st)[t := rev (entries i') @ historyBuffer st ! t]"
    "seqNum i' = seqNum (h p)" "threadNumber i' = t"
    "same_held (renameMap st ! t) (freeList st) (historyBuffer st ! t) (renameMap st' ! t) (freeList st') (historyBuffer st' ! t)"
proof -
  obtain i1 where i1: "renameSrcRegs isa rf flatten t st (h p) = Some i1" "src_frame (h p) i1"
    "renameDestRegs isa rf flatten (threadNumber i1) (st, i1) = Some (st', i')"
    using assms(1) t renameSrcRegs_frame by (auto simp: rename_inst_def bind_eq_Some_conv split: if_splits)
  show tl: "t < length (renameMap st)" using i1(1) by (auto simp: renameSrcRegs_def bind_eq_Some_conv vec_get_Some_iff)
  have r: "renameDestRegs isa rf flatten t (st, i1) = Some (st', i')" using i1(2,3) t by (simp add: src_frame_def)
  note len = rn_inv_len [OF assms(3)]
  from renameDestRegs_ok [OF r assms(2,3) t(2) tl] obtain u' fl' sb where u':
    "st' = st\<lparr>renameMap := (renameMap st)[t := u'], freeList := fl', scoreboard := sb,
       historyBuffer := (historyBuffer st)[t := rev (entries i') @ historyBuffer st ! t]\<rparr>"
    "same_held (renameMap st ! t) (freeList st) (historyBuffer st ! t) u' fl' (rev (entries i') @ historyBuffer st ! t)"
    "rollback u' (rev (entries i')) = renameMap st ! t" "dest_frame i1 i'" by blast
  then show "\<And>i. i \<noteq> t \<Longrightarrow> renameMap st' ! i = renameMap st ! i" "length (renameMap st') = length (renameMap st)"
    "rollback (renameMap st' ! t) (rev (entries i')) = renameMap st ! t"
    "historyBuffer st' = (historyBuffer st)[t := rev (entries i') @ historyBuffer st ! t]"
    "same_held (renameMap st ! t) (freeList st) (historyBuffer st ! t) (renameMap st' ! t) (freeList st') (historyBuffer st' ! t)"
    using tl len by simp_all
  show "seqNum i' = seqNum (h p)" "threadNumber i' = t"
    using dest_frameD(1,3) [OF u'(4)] i1(2) t by (simp_all add: src_frame_def)
qed

text \<open>Instructions of thread \<open>t\<close> that are to be renamed in this order after those of \<open>Q\<close>.\<close>

definition to_rename :: "inst_heap \<Rightarrow> DynInstPtr list list \<Rightarrow> ThreadID \<Rightarrow> DynInstPtr list \<Rightarrow> bool" where
  "to_rename h Q t ps \<longleftrightarrow> distinct ps \<and> (\<forall>p\<in>set ps. threadNumber (h p) = t \<and> (\<forall>L\<in>set Q. p \<notin> set L)) \<and>
     sorted_wrt (\<lambda>p q. seqNum (h p) < seqNum (h q)) (Q ! t @ ps)"

lemma rename_all_maps:
  assumes "foldM (rename_one isa rf flatten) (st, h) ps = Some (st', h')" "rf_ok rf" "rn_inv rf act st h Q"
    and "to_rename h Q t ps" "t < act" "t < length Q"
  shows "\<exists>E. rn_inv rf act st' h' (Q[t := Q ! t @ ps]) \<and> rollback (renameMap st' ! t) E = renameMap st ! t \<and>
    (\<forall>i. i \<noteq> t \<longrightarrow> renameMap st' ! i = renameMap st ! i) \<and> length (renameMap st') = length (renameMap st) \<and>
    historyBuffer st' = (historyBuffer st)[t := E @ historyBuffer st ! t] \<and> set (map instSeqNum E) \<subseteq> seqNum ` (h ` set ps) \<and>
    same_held (renameMap st ! t) (freeList st) (historyBuffer st ! t) (renameMap st' ! t) (freeList st') (historyBuffer st' ! t)"
  using assms
proof (induction ps arbitrary: st h Q)
  case Nil
  then show ?case by auto
next
  case (Cons p ps)
  obtain st1 i1 where s1: "rename_inst isa rf flatten (st, h p) = Some (Some (st1, i1))"
    "foldM (rename_one isa rf flatten) (st1, h(p := i1)) ps = Some (st', h')"
    using Cons.prems(1) by (auto simp: bind_eq_Some_conv elim!: rename_one_SomeD)
  have p: "threadNumber (h p) = t" "\<forall>L\<in>set Q. p \<notin> set L" "p \<notin> set ps" "\<forall>q\<in>set (Q ! t). seqNum (h q) < seqNum (h p)"
    using Cons.prems(4) by (auto simp: to_rename_def sorted_wrt_append)
  note m = rename_inst_maps [OF s1(1) Cons.prems(2,3) p(1) [symmetric] Cons.prems(5)]
  let ?h = "h(p := i1)" and ?Q = "Q[t := Q ! t @ [p]]"
  have inv: "rn_inv rf act st1 ?h ?Q"
    by (rule rename_step_inst [OF s1(1) Cons.prems(2,3)]) (use p Cons.prems(5) in auto)
  have "seqNum (?h a) = seqNum (h a)" for a using m(6) by simp
  then have seq: "sorted_wrt (\<lambda>a b. seqNum (?h a) < seqNum (?h b)) (Q ! t @ p # ps)"
    using Cons.prems(4) unfolding to_rename_def by presburger
  have "to_rename ?h ?Q t ps"
    unfolding to_rename_def
  proof (intro conjI ballI)
    fix q L assume qL: "q \<in> set ps" "L \<in> set ?Q"
    then consider "L \<in> set Q" | "L = Q ! t @ [p]" using set_update_subset_insert [of Q t "Q ! t @ [p]"] by blast
    then show "q \<notin> set L"
    proof cases
      case 2
      have "Q ! t \<in> set Q" using Cons.prems(6) by simp
      then show ?thesis using 2 qL(1) Cons.prems(4) p(3) by (auto simp: to_rename_def)
    qed (use qL(1) Cons.prems(4) in \<open>auto simp: to_rename_def\<close>)
  next
    show "sorted_wrt (\<lambda>a b. seqNum (?h a) < seqNum (?h b)) (?Q ! t @ ps)" using seq Cons.prems(6) by simp
  qed (use Cons.prems(4) p(3) in \<open>auto simp: to_rename_def\<close>)
  from Cons.IH [OF s1(2) Cons.prems(2) inv this Cons.prems(5)] Cons.prems(6)
  obtain E where E: "rn_inv rf act st' h' (Q[t := Q ! t @ p # ps])" "rollback (renameMap st' ! t) E = renameMap st1 ! t"
    "\<forall>i. i \<noteq> t \<longrightarrow> renameMap st' ! i = renameMap st1 ! i" "length (renameMap st') = length (renameMap st1)"
    "historyBuffer st' = (historyBuffer st1)[t := E @ historyBuffer st1 ! t]" "set (map instSeqNum E) \<subseteq> seqNum ` (?h ` set ps)"
    "same_held (renameMap st1 ! t) (freeList st1) (historyBuffer st1 ! t) (renameMap st' ! t) (freeList st') (historyBuffer st' ! t)"
    by auto
  let ?E = "E @ rev (entries i1)"
  have "t < length (historyBuffer st)" using rn_inv_len(2,3) [OF Cons.prems(3)] Cons.prems(6) by simp
  then have "historyBuffer st' = (historyBuffer st)[t := ?E @ historyBuffer st ! t]" using E(5) m(5) by simp
  moreover have "rollback (renameMap st' ! t) ?E = renameMap st ! t" using E(2) m(4) by (simp add: rollback_append)
  moreover have "set (map instSeqNum ?E) \<subseteq> seqNum ` (h ` set (p # ps))"
    using E(6) entries_seqNum m(6) p(3) by (fastforce split: if_splits)
  moreover have "\<forall>i. i \<noteq> t \<longrightarrow> renameMap st' ! i = renameMap st ! i" "length (renameMap st') = length (renameMap st)"
    using E(3,4) m(2,3) by simp_all
  ultimately show ?case using E(1) same_held_trans [OF m(8) E(7)] by blast
qed

text \<open>
  (C11) A squash undoes renaming exactly: after any number of instructions of a
  thread, all younger than the squash point, have been renamed, the squash succeeds
  and leaves the rename maps of all threads and the history buffers as they were
  before, and the free lists with the registers they had.
\<close>

theorem squash_restores_map:
  assumes "rf_ok rf" "rn_inv rf act st h Q" "t < act" "t < length Q" "to_rename h Q t ps"
    and "foldM (rename_one isa rf flatten) (st, h) ps = Some (st', h')"
    and "\<forall>p\<in>set ps. sq < seqNum (h p)" "\<forall>q\<in>set (Q ! t). seqNum (h q) \<le> sq"
  shows "\<exists>st2. rename_doSquash isa rf sq t st' = Some st2 \<and> renameMap st2 = renameMap st \<and>
    historyBuffer st2 = historyBuffer st \<and>
    (\<forall>c. ren_class c \<longrightarrow> mset (class_list c (freeList st2)) = mset (class_list c (freeList st)))"
proof -
  obtain E where E: "rn_inv rf act st' h' (Q[t := Q ! t @ ps])" "rollback (renameMap st' ! t) E = renameMap st ! t"
    "\<forall>i. i \<noteq> t \<longrightarrow> renameMap st' ! i = renameMap st ! i" "length (renameMap st') = length (renameMap st)"
    "historyBuffer st' = (historyBuffer st)[t := E @ historyBuffer st ! t]" "set (map instSeqNum E) \<subseteq> seqNum ` (h ` set ps)"
    "same_held (renameMap st ! t) (freeList st) (historyBuffer st ! t) (renameMap st' ! t) (freeList st') (historyBuffer st' ! t)"
    using rename_all_maps [OF assms(6,1,2,5,3,4)] by blast
  note len = rn_inv_len [OF assms(2)]
  have t: "t < length (renameMap st)" "t < length (renameMap st')" "t < length (historyBuffer st)" using len assms(4) E(4) by simp_all
  let ?P = "\<lambda>e. sq < instSeqNum e" and ?H = "historyBuffer st ! t"
  have young: "\<forall>e\<in>set E. ?P e" using E(6) assms(7) by fastforce
  have "\<exists>q\<in>set (Q ! t). instSeqNum e = seqNum (h q)" if "e \<in> set ?H" for e
    using hist_of_seqNum rn_invD(5) [OF assms(2) t(1)] that by metis
  then have old: "\<forall>e\<in>set ?H. \<not> ?P e" using assms(8) by fastforce
  have H': "historyBuffer st' ! t = E @ ?H" using E(5) t(3) by simp
  have dw: "dropWhile ?P (E @ ?H) = ?H" "takeWhile ?P (E @ ?H) = E"
    using dropWhile_prefix [OF young, of ?H] dropWhile_none [OF old] young old
    by (simp_all add: takeWhile_append2) (cases ?H; simp)
  let ?u = "renameMap st' ! t"
  obtain fl' where fl': "squash_history isa rf sq ?u (freeList st') (E @ ?H) = Some (renameMap st ! t, fl', ?H)"
    "same_held ?u (freeList st') (E @ ?H) (renameMap st ! t) fl' ?H"
    using squash_history_ok [OF rn_inv_thread [OF E(1) t(2)], of isa sq] unfolding H' dw E(2) by blast
  let ?st = "st'\<lparr>renameMap := (renameMap st')[t := renameMap st ! t], freeList := fl', historyBuffer := (historyBuffer st')[t := ?H]\<rparr>"
  have "rename_doSquash isa rf sq t st' = Some ?st"
    using fl'(1) t E(5) by (simp add: rename_doSquash_def H')
  moreover have "renameMap ?st = renameMap st"
    using E(3,4) t by (auto intro!: nth_equalityI simp: nth_list_update)
  moreover have "historyBuffer ?st = historyBuffer st" using E(5) by simp
  moreover have "mset (class_list c fl') = mset (class_list c (freeList st))" if "ren_class c" for c
    using same_held_trans [OF E(7) fl'(2) [folded H']] that by (simp add: same_held_def held_def)
  ultimately show ?thesis by auto
qed

section \<open>The rename maps as maps\<close>

definition same_reg :: "RegId \<Rightarrow> RegId \<Rightarrow> bool" where
  "same_reg a b \<longleftrightarrow> regClass a = regClass b \<and> regIdx a = regIdx b"

lemma lookup_entry:
  assumes "vecMode u = Full" "ren_class (regClass a)"
  shows "unified_lookup isa rf a u = (if in_range u a then Some (entry u a) else None)"
  using assms by (auto simp: unified_lookup_def ren_class_def mode_ok_Full simple_lookup_def in_range_def vec_get_def assertion_def)


section \<open>Operands and the data flow of the program\<close>

text \<open>Every register that a rename in flight introduced is still mapped or displaced by a younger rename.\<close>

lemma new_held:
  assumes "hist_ok rf u H" "e \<in> set H" "ren_class c" "regClass (archReg e) = c"
  shows "newPhysReg e \<in># mapped_class c u + displaced c H"
  using assms(1,2)
proof (induction H arbitrary: u)
  case (Cons e0 H)
  show ?case
  proof (cases "e = e0")
    case True
    then have "in_range u (archReg e)" "entry u (archReg e) = Some (newPhysReg e)"
      using Cons.prems(1) assms(3,4) by (auto simp: entry_ok_def ren_class_def split: if_splits)
    then show ?thesis using mapped_nth assms(4) by (auto simp: in_range_def)
  next
    case False
    then have IH: "newPhysReg e \<in># mapped_class c (undo e0 u) + displaced c H" using Cons by simp
    show ?thesis
    proof (cases "regClass (archReg e0) = c")
      case True
      then obtain p where e0: "in_range u (archReg e0)" "entry u (archReg e0) = Some (newPhysReg e0)" "prevPhysReg e0 = Some p"
        using Cons.prems(1) assms(3) by (auto simp: entry_ok_def ren_class_def split: if_splits)
      have z: "regClass (archReg e0) \<noteq> MiscRegClass" using True assms(3) by (simp add: ren_class_def)
      have "add_mset (newPhysReg e0) (mapped_class c (undo e0 u)) = add_mset p (mapped_class c u)"
        using mapped_replace [of "regIdx (archReg e0)" "arch2phys (class_map c u)" "newPhysReg e0" p] e0 True z
        by (simp add: undo_def in_range_def)
      then have "newPhysReg e \<in># add_mset p (mapped_class c u) + displaced c H"
        using IH by (metis UnE UnI1 UnI2 insertI2 set_mset_add_mset_insert set_mset_union)
      moreover have "p \<in># mapped_class c u \<or> prevPhysReg e0 \<noteq> Some (newPhysReg e0)"
        using e0 mapped_nth True by (auto simp: in_range_def)
      ultimately show ?thesis using e0(3) True by auto
    next
      case other: False
      then have "class_map c (undo e0 u) = class_map c u" by (auto simp: undo_def)
      then show ?thesis using IH by auto
    qed
  qed
qed simp

lemma entry_youngest:
  assumes "hist_ok rf u H" "ren_class (regClass a)"
  shows "entry u a = (case find (\<lambda>e. same_reg a (archReg e)) H of Some e \<Rightarrow> Some (newPhysReg e) | None \<Rightarrow> entry (rollback u H) a)"
  using assms(1)
proof (induction H arbitrary: u)
  case (Cons e H)
  show ?case
  proof (cases "same_reg a (archReg e)")
    case True
    then show ?thesis using Cons.prems assms(2) by (auto simp: same_reg_def entry_ok_def ren_class_def)
  next
    case False
    then have "entry (undo e u) a = entry u a" by (auto simp: undo_def same_reg_def)
    then show ?thesis using Cons False by (simp split: option.splits)
  qed
qed simp

lemma mapped_once:
  assumes "\<And>p. count (mapped m) p \<le> 1" "i < length m" "j < length m" "m ! i = Some p" "m ! j = Some p"
  shows "i = j"
  using assms
proof (induction m arbitrary: i j)
  case (Cons x m)
  have le: "count (mapped m) q \<le> 1" for q using Cons.prems(1) [of q] by (cases x) (auto split: if_splits)
  have no: "p \<notin># mapped m" if "x = Some p"
    using Cons.prems(1) [of p] that by (simp add: count_eq_zero_iff)
  show ?case
    using Cons.IH [OF le] Cons.prems(2-5) no mapped_nth by (cases i; cases j) auto
qed simp

lemma held_mapped_once:
  assumes "rf_ok rf" "thread_inv rf u fl H" "ren_class c"
  shows "count (mapped_class c u) p \<le> 1"
  using held_distinct [OF assms, of p] by (simp add: held_def)

lemma unique_writer:
  assumes "rf_ok rf" "thread_inv rf u fl H" "ren_class (regClass a)" "in_range u a" "entry u a = Some (newPhysReg e)"
    and "e \<in> set H" "regClass (archReg e) = regClass a" "\<forall>e'\<in>set H. same_reg a (archReg e') \<longrightarrow> prevPhysReg e' \<noteq> Some (newPhysReg e')"
  shows "find (\<lambda>e. same_reg a (archReg e)) H = Some e"
  using assms(2,4-8)
proof (induction H arbitrary: u fl)
  case (Cons e0 H)
  let ?c = "regClass a" and ?n = "newPhysReg e"
  have hk: "entry_ok rf u e0" "hist_ok rf (undo e0 u) H" using Cons.prems(1) by (auto simp: thread_inv_def)
  note once = held_mapped_once [OF assms(1) Cons.prems(1) assms(3)]
  show ?case
  proof (cases "e = e0")
    case True
    then have "in_range u (archReg e)" "entry u (archReg e) = Some ?n"
      using hk(1) assms(3) Cons.prems(5) by (auto simp: entry_ok_def ren_class_def split: if_splits)
    then have "regIdx a = regIdx (archReg e)"
      using mapped_once [OF once, of "regIdx a" "regIdx (archReg e)" ?n] Cons.prems(2,3,5) by (simp add: in_range_def)
    then show ?thesis using True Cons.prems(5) by (simp add: same_reg_def)
  next
    case False
    then have eH: "e \<in> set H" using Cons.prems(4) by simp
    show ?thesis
    proof (cases "same_reg a (archReg e0)")
      case True
      then have ch: "Some (newPhysReg e0) \<noteq> prevPhysReg e0" using Cons.prems(6) by auto
      have n0: "newPhysReg e0 = ?n" using True hk(1) assms(3) Cons.prems(3) by (auto simp: entry_ok_def same_reg_def ren_class_def split: if_splits)
      have c0: "regClass (newPhysReg e0) = ?c" using True hk(1) assms(3) by (auto simp: entry_ok_def same_reg_def ren_class_def split: if_splits)
      obtain fl' where fl': "addReg (newPhysReg e0) fl = Some fl'" "thread_inv rf (undo e0 u) fl' H"
        using undo_one [OF Cons.prems(1) ch] by blast
      have "?n \<in># mset (class_list ?c fl')" using addReg_mset [OF fl'(1)] n0 c0 by simp
      moreover have "?n \<in># mapped_class ?c (undo e0 u) + displaced ?c H"
        using new_held [OF hk(2) eH assms(3) Cons.prems(5)] .
      ultimately have "count (held ?c (undo e0 u) fl' H) ?n \<ge> 2"
        unfolding held_def by (metis (no_types, lifting) One_nat_def Suc_leI add_mono_thms_linordered_semiring(1) count_greater_zero_iff
            count_union nat_1_add_1 union_assoc)
      then show ?thesis using held_distinct [OF assms(1) fl'(2) assms(3), of ?n] by simp
    next
      case other: False
      have e0: "entry (undo e0 u) a = entry u a" "in_range (undo e0 u) a"
        using other Cons.prems(2) by (auto simp: undo_def same_reg_def)
      obtain fl' where fl': "thread_inv rf (undo e0 u) fl' H"
        using undo_one [OF Cons.prems(1)] undo_same [OF Cons.prems(1)] by metis
      from Cons.IH [OF fl' e0(2) _ eH Cons.prems(5)] e0(1) Cons.prems(3,6) other show ?thesis by simp
    qed
  qed
qed simp

lemma hist_new_class:
  assumes "rf_ok rf" "hist_ok rf u H" "e \<in> set H"
  shows "regClass (newPhysReg e) = regClass (archReg e)"
  using assms(2,3)
proof (induction H arbitrary: u)
  case (Cons e0 H)
  have "regClass (newPhysReg e0) = regClass (archReg e0)"
    using Cons.prems(1) assms(1) by (auto simp: entry_ok_def rf_ok_def getMiscRegId_def vec_get_Some_iff split: if_splits)
  then show ?case using Cons by auto
qed simp

lemma find_append: "find P (xs @ ys) = (case find P xs of None \<Rightarrow> find P ys | Some x \<Rightarrow> Some x)"
  by (induction xs) auto

definition writes :: "inst_heap \<Rightarrow> RegId \<Rightarrow> DynInstPtr \<Rightarrow> bool" where
  "writes h a q \<longleftrightarrow> (\<exists>e\<in>set (entries (h q)). same_reg a (archReg e))"

lemma find_hist:
  "find (\<lambda>e. same_reg a (archReg e)) (hist_of h L) = None \<longleftrightarrow> find (writes h a) (rev L) = None"
  "find (\<lambda>e. same_reg a (archReg e)) (hist_of h L) = Some e \<Longrightarrow>
     \<exists>q. find (writes h a) (rev L) = Some q \<and> e \<in> set (entries (h q))"
proof (induction L rule: rev_induct)
  case (snoc q L)
  let ?P = "\<lambda>e. same_reg a (archReg e)"
  have w: "writes h a q \<longleftrightarrow> find ?P (rev (entries (h q))) \<noteq> None"
    by (auto simp: writes_def find_None_iff)
  {
    case 1
    then show ?case using snoc(1) w by (cases "find ?P (rev (entries (h q)))") (auto simp: find_append)
  next
    case 2
    show ?case
    proof (cases "find ?P (rev (entries (h q)))")
      case None
      then show ?thesis using 2 snoc(2) w by (simp add: find_append)
    next
      case (Some e')
      then have "e' \<in> set (entries (h q))" by (auto simp: find_Some_iff) (metis length_rev nth_mem set_rev)
      then show ?thesis using Some 2 w by (simp add: find_append)
    qed
  }
qed simp_all

lemma rename_src_at:
  assumes "foldM (rename_src isa rf flatten m sb) i [0..<n] = Some j" "k < n"
  shows "unified_lookup isa rf (flatten (si_srcRegs (staticInst i) ! k)) m = Some (Some (srcRegIdx j ! k)) \<and> staticInst j = staticInst i"
  using assms
proof (induction n arbitrary: j)
  case (Suc n)
  then obtain j1 where j1: "foldM (rename_src isa rf flatten m sb) i [0..<n] = Some j1" "rename_src isa rf flatten m sb j1 n = Some j"
    by (auto simp: foldM_append bind_eq_Some_conv)
  have st: "staticInst j1 = staticInst i"
    by (rule foldM_preserves [OF j1(1)]) (auto dest: rename_src_frame simp: src_frame_def)
  obtain r where r: "unified_lookup isa rf (flatten (si_srcRegs (staticInst i) ! n)) m = Some (Some r)" "n < length (srcRegIdx j1)"
    "srcRegIdx j = (srcRegIdx j1)[n := r]" "staticInst j = staticInst i"
    using j1(2) st
    by (auto simp: rename_src_def renameSrcReg_def markSrcRegReady_idx_def markSrcRegReady_def bind_eq_Some_conv
        vec_get_Some_iff vec_set_Some_iff Let_def)
  show ?case using r Suc.IH [OF j1(1)] Suc.prems(2) by (cases "k = n") auto
qed simp

text \<open>
  (C10) The physical operands follow the program's data flow. When an instruction has
  been renamed, the physical register of an operand is a destination of an older
  instruction in flight of the thread exactly if that instruction is the youngest
  one that writes the operand's architectural register; if no instruction in flight
  writes it, the operand is the committed register and no destination of an
  instruction in flight. (The architectural register is not the hardwired zero
  register, whose renames change nothing.)
\<close>

theorem operands_follow_dataflow:
  assumes "rf_ok rf" "rn_inv rf act st h Q" "rename_inst isa rf flatten (st, h p) = Some (Some (st', i'))"
    and "t = threadNumber (h p)" "t < act" "k < numSrcRegs (h p)" "a = flatten (si_srcRegs (staticInst (h p)) ! k)"
    and "ren_class (regClass a)"
    and "\<forall>q\<in>set (Q ! t). \<forall>e\<in>set (entries (h q)). same_reg a (archReg e) \<longrightarrow> prevPhysReg e \<noteq> Some (newPhysReg e)"
  shows "(\<forall>q\<in>set (Q ! t). (\<exists>e\<in>set (entries (h q)). newPhysReg e = srcRegIdx i' ! k) \<longleftrightarrow>
        find (writes h a) (rev (Q ! t)) = Some q) \<and>
    (find (writes h a) (rev (Q ! t)) = None \<longrightarrow> Some (srcRegIdx i' ! k) = entry (commitRenameMap st ! t) a)"
proof -
  obtain i1 where i1: "renameSrcRegs isa rf flatten t st (h p) = Some i1" "src_frame (h p) i1"
    "renameDestRegs isa rf flatten (threadNumber i1) (st, i1) = Some (st', i')"
    using assms(3,4) renameSrcRegs_frame by (auto simp: rename_inst_def bind_eq_Some_conv split: if_splits)
  have t: "t < length (renameMap st)" using i1(1) by (auto simp: renameSrcRegs_def bind_eq_Some_conv vec_get_Some_iff)
  let ?u = "renameMap st ! t" and ?H = "historyBuffer st ! t" and ?P = "\<lambda>e. same_reg a (archReg e)" and ?s = "srcRegIdx i' ! k"
  note d = rn_invD [OF assms(2) t] and th = rn_inv_thread [OF assms(2) t]
  have "renameDestRegs isa rf flatten t (st, i1) = Some (st', i')" using i1(2,3) assms(4) by (simp add: src_frame_def)
  from renameDestRegs_ok [OF this assms(1,2,5) t] have "srcRegIdx i' = srcRegIdx i1" using dest_frameD(4) by metis
  moreover have "foldM (rename_src isa rf flatten ?u (scoreboard st)) (h p) [0..<numSrcRegs (h p)] = Some i1"
    using i1(1) t by (simp add: renameSrcRegs_def)
  ultimately have "unified_lookup isa rf a ?u = Some (Some ?s)" using rename_src_at assms(6,7) by metis
  then have r: "in_range ?u a" "entry ?u a = Some ?s" using lookup_entry [OF d(1) assms(8)] by (auto split: if_splits)
  have src_cls: "regClass ?s = regClass a"
    using held_class [OF assms(1) th assms(8)] mapped_nth [of "regIdx a"] r by (auto simp: held_def in_range_def)
  have ren: "\<forall>e'\<in>set ?H. same_reg a (archReg e') \<longrightarrow> prevPhysReg e' \<noteq> Some (newPhysReg e')"
    using assms(9) d(5) by (auto simp: hist_of_def)
  have y: "entry ?u a = (case find ?P ?H of Some e \<Rightarrow> Some (newPhysReg e) | None \<Rightarrow> entry (rollback ?u ?H) a)"
    by (rule entry_youngest [OF d(3) assms(8)])
  have to_find: "find (writes h a) (rev (Q ! t)) = Some q" if q: "q \<in> set (Q ! t)" "e \<in> set (entries (h q))" "newPhysReg e = ?s" for q e
  proof -
    have eH: "e \<in> set ?H" using q(1,2) d(5) by (auto simp: hist_of_def)
    have "regClass (archReg e) = regClass a" using hist_new_class [OF assms(1) d(3) eH] q(3) src_cls by simp
    then have "find ?P ?H = Some e" using unique_writer [OF assms(1) th assms(8) r(1) _ eH _ ren] r(2) q(3) by simp
    then obtain q' where q': "find (writes h a) (rev (Q ! t)) = Some q'" "e \<in> set (entries (h q'))"
      using find_hist(2) d(5) by metis
    have "seqNum (h q') = seqNum (h q)" using entries_seqNum q(2) q'(2) by metis
    moreover have "q' \<in> set (Q ! t)" using q'(1) by (auto simp: find_Some_iff) (metis length_rev nth_mem set_rev)
    ultimately have "q' = q" using d(6) q(1)
      by (metis (no_types, lifting) in_set_conv_nth less_irrefl linorder_neqE_nat sorted_wrt_iff_nth_less)
    then show ?thesis using q'(1) by simp
  qed
  have from_find: "\<exists>e\<in>set (entries (h q)). newPhysReg e = ?s" if "find (writes h a) (rev (Q ! t)) = Some q" for q
  proof -
    have "find ?P ?H \<noteq> None" using find_hist(1) that d(5) by (metis option.distinct(1))
    then obtain e where e: "find ?P ?H = Some e" by auto
    then have "e \<in> set (entries (h q))" using find_hist(2) that d(5) by (metis option.inject)
    then show ?thesis using y e r(2) by auto
  qed
  have "Some ?s = entry (commitRenameMap st ! t) a" if "find (writes h a) (rev (Q ! t)) = None"
  proof -
    have "find ?P ?H = None" using find_hist(1) that d(5) by metis
    then show ?thesis using y r(2) d(4) by simp
  qed
  then show ?thesis using to_find from_find by blast
qed

end
