(* ===== verification/Rename_Safe.thy ===== *)
theory Rename_Safe
  imports Rename_Correct
begin

text \<open>
  Renaming never aborts: under the guard of \<^verbatim>\<open>canRename\<close>, and with operands in range
  and a zero register that maps to the physical zero register, no assertion of the
  rename maps, the free lists or the scoreboard fails.
\<close>

section \<open>Conditions\<close>

definition reg_ok :: "PhysRegFile \<Rightarrow> UnifiedRenameMap \<Rightarrow> RegId \<Rightarrow> bool" where
  "reg_ok rf u a \<longleftrightarrow> (regClass a = MiscRegClass \<and> regIdx a < length (miscRegIds rf)) \<or>
     (ren_class (regClass a) \<and> in_range u a \<and> elemIdx a = no_elem)"

definition zero_ok :: "ISA \<Rightarrow> UnifiedRenameMap \<Rightarrow> bool" where
  "zero_ok isa u \<longleftrightarrow> (\<forall>c. ren_class c \<longrightarrow> elemIdx (zeroReg (class_map c u)) = no_elem \<and>
     (regClass (zeroReg (class_map c u)) = c \<longrightarrow> in_range u (zeroReg (class_map c u)) \<longrightarrow>
        (\<exists>p. entry u (zeroReg (class_map c u)) = Some p \<and> isZeroReg isa p)))"

text \<open>The flat indices of the registers are in the scoreboard and different, and zero registers are ready.\<close>

definition sb_ok :: "ISA \<Rightarrow> PhysRegFile \<Rightarrow> Scoreboard \<Rightarrow> bool" where
  "sb_ok isa rf sb \<longleftrightarrow> (\<forall>c. c \<noteq> VecElemClass \<longrightarrow> (\<forall>p\<in>set (getRegIds rf c). flatIdx p < length sb)) \<and>
     (\<forall>c. ren_class c \<longrightarrow> (\<forall>p\<in>set (getRegIds rf c). isZeroReg isa p \<longrightarrow> sb ! flatIdx p)) \<and>
     (\<forall>c d. ren_class c \<longrightarrow> ren_class d \<longrightarrow> (\<forall>p\<in>set (getRegIds rf c). \<forall>q\<in>set (getRegIds rf d). flatIdx p = flatIdx q \<longrightarrow> p = q))"

lemma sb_get_ok:
  assumes "sb_ok isa rf sb" "p \<in> set (getRegIds rf c)" "regClass p = c" "c \<noteq> VecElemClass"
  shows "\<exists>b. sb_getReg isa p sb = Some b"
proof (cases "c = MiscRegClass")
  case True
  have "flatIdx p < length sb" using assms(1,2,4) by (simp add: sb_ok_def)
  then have "sb_getReg isa p sb = Some True" using True assms(3) by (simp add: sb_getReg_def isFixedMapping_def isRenameable_def)
  then show ?thesis by blast
next
  case False
  then have c: "ren_class c" using assms(4) by (simp add: ren_class_def)
  have lt: "flatIdx p < length sb" using assms(1,2,4) by (simp add: sb_ok_def)
  have "isZeroReg isa p \<longrightarrow> sb ! flatIdx p" using assms(1,2) c by (simp add: sb_ok_def)
  then show ?thesis using False lt assms(3) by (simp add: sb_getReg_def isFixedMapping_def isRenameable_def)
qed

lemma sb_unset_ok:
  assumes "sb_ok isa rf sb" "p \<in> set (getRegIds rf c)" "regClass p = c" "c \<noteq> VecElemClass"
  shows "\<exists>sb'. sb_unsetReg isa p sb = Some sb' \<and> sb_ok isa rf sb'"
proof (cases "c = MiscRegClass \<or> isZeroReg isa p")
  case True
  then show ?thesis using assms by (auto simp: sb_unsetReg_def sb_ok_def isFixedMapping_def isRenameable_def)
next
  case False
  then have c: "ren_class c" using assms(4) by (simp add: ren_class_def)
  have lt: "flatIdx p < length sb" using assms(1,2,4) by (simp add: sb_ok_def)
  then have "sb_unsetReg isa p sb = Some (sb[flatIdx p := False])"
    using False assms(3) by (simp add: sb_unsetReg_def isFixedMapping_def isRenameable_def)
  moreover have "sb[flatIdx p := False] ! flatIdx q" if "ren_class d" "q \<in> set (getRegIds rf d)" "isZeroReg isa q" for d q
  proof -
    have "flatIdx p \<noteq> flatIdx q" using assms(1,2) c that False unfolding sb_ok_def by metis
    then show ?thesis using assms(1) that by (simp add: sb_ok_def)
  qed
  ultimately show ?thesis using assms(1) by (auto simp: sb_ok_def)
qed

lemma held_in_file:
  assumes "thread_inv rf u fl H" "ren_class c" "p \<in># held c u fl H"
  shows "p \<in> set (getRegIds rf c)"
proof -
  have "held c u fl H \<subseteq># mset (getRegIds rf c)" using assms(1,2) by (simp add: thread_inv_def)
  from mset_subset_eqD [OF this assms(3)] show ?thesis by simp
qed

lemma reg_ok_lookup:
  assumes "reg_ok rf u a" "thread_inv rf u fl H" "no_null u" "rf_ok rf"
  shows "\<exists>p. unified_lookup isa rf a u = Some (Some p) \<and> p \<in> set (getRegIds rf (regClass a)) \<and> regClass p = regClass a"
proof (cases "regClass a = MiscRegClass")
  case True
  then show ?thesis using assms(1,4)
    by (auto simp: reg_ok_def ren_class_def unified_lookup_def getMiscRegId_def rf_ok_def)
next
  case False
  then have a: "ren_class (regClass a)" "in_range u a" using assms(1) by (auto simp: reg_ok_def)
  have "entry u a \<in> set (arch2phys (class_map (regClass a) u))" using a(2) by (simp add: in_range_def)
  then obtain p where p: "entry u a = Some p" using assms(3) a(1) by (metis no_null_def not_None_eq)
  have "p \<in># held (regClass a) u fl H" using mapped_nth a(2) p by (auto simp: held_def in_range_def)
  then show ?thesis
    using held_in_file [OF assms(2) a(1)] held_class [OF assms(4,2) a(1)] lookup_entry [of u a isa rf] a p assms(2)
    by (auto simp: thread_inv_def)
qed

section \<open>Sources\<close>

lemma rename_srcs_ok:
  assumes "thread_inv rf u fl H" "no_null u" "rf_ok rf" "sb_ok isa rf sb"
    and "\<forall>k<n. regClass (si_srcRegs (staticInst i) ! k) \<noteq> VecElemClass \<and> reg_ok rf u (flatten (si_srcRegs (staticInst i) ! k))"
    and "n \<le> length (srcRegIdx i)" "n \<le> numSrcRegs i"
  shows "\<exists>j. foldM (rename_src isa rf flatten u sb) i [0..<n] = Some j \<and> length (srcRegIdx j) = length (srcRegIdx i) \<and>
    staticInst j = staticInst i \<and> seqNum j = seqNum i \<and> threadNumber j = threadNumber i \<and> flatDestRegIdx j = flatDestRegIdx i \<and>
    destRegIdx j = destRegIdx i \<and> prevDestRegIdx j = prevDestRegIdx i"
  using assms(5-7)
proof (induction n)
  case (Suc n)
  then obtain j where j: "foldM (rename_src isa rf flatten u sb) i [0..<n] = Some j" "length (srcRegIdx j) = length (srcRegIdx i)"
    "staticInst j = staticInst i" "seqNum j = seqNum i" "threadNumber j = threadNumber i" "flatDestRegIdx j = flatDestRegIdx i"
    "destRegIdx j = destRegIdx i" "prevDestRegIdx j = prevDestRegIdx i"
    by auto
  let ?r = "si_srcRegs (staticInst i) ! n"
  obtain p where p: "unified_lookup isa rf (flatten ?r) u = Some (Some p)" "p \<in> set (getRegIds rf (regClass (flatten ?r)))"
    "regClass p = regClass (flatten ?r)"
    using reg_ok_lookup [OF _ assms(1-3)] Suc.prems(1) by blast
  have "regClass (flatten ?r) \<noteq> VecElemClass" using Suc.prems(1) by (auto simp: reg_ok_def ren_class_def)
  then obtain b where "sb_getReg isa p sb = Some b" using sb_get_ok [OF assms(4) p(2,3)] by blast
  then have "\<exists>j'. rename_src isa rf flatten u sb j n = Some j' \<and> length (srcRegIdx j') = length (srcRegIdx j) \<and>
      staticInst j' = staticInst j \<and> seqNum j' = seqNum j \<and> threadNumber j' = threadNumber j \<and> flatDestRegIdx j' = flatDestRegIdx j \<and>
      destRegIdx j' = destRegIdx j \<and> prevDestRegIdx j' = prevDestRegIdx j"
    using p(1) Suc.prems j(2,3)
    by (auto simp: rename_src_def renameSrcReg_def markSrcRegReady_idx_def markSrcRegReady_def Let_def set_status_def)
  then show ?case using j by (auto simp: foldM_append)
qed simp

section \<open>Destinations\<close>

lemma unified_rename_defined:
  assumes "reg_ok rf u a" "vecMode u = Full" "zero_ok isa u"
    and "ren_class (regClass a) \<Longrightarrow> class_list (regClass a) fl \<noteq> []"
  shows "\<exists>r. unified_rename isa rf a (u, fl) = Some r"
proof (cases "regClass a = MiscRegClass")
  case True
  then show ?thesis using assms(1) by (auto simp: unified_rename_def unified_lookup_def getMiscRegId_def reg_ok_def ren_class_def)
next
  case False
  let ?c = "regClass a"
  have a: "ren_class ?c" "in_range u a" using False assms(1) by (auto simp: reg_ok_def)
  have "\<exists>info m l. simple_rename isa a (class_map ?c u, class_list ?c fl) = Some (info, m, l)"
  proof (cases "a = zeroReg (class_map ?c u)")
    case True
    then have "\<exists>p. entry u a = Some p \<and> isZeroReg isa p" using assms(3) a unfolding zero_ok_def by metis
    then show ?thesis using True a(2) by (auto simp: simple_rename_def in_range_def)
  next
    case False
    then show ?thesis using a(2) assms(4) [OF a(1)] by (auto simp: simple_rename_def in_range_def simple_getReg_def)
  qed
  then obtain info m l where r: "simple_rename isa a (class_map ?c u, class_list ?c fl) = Some (info, m, l)" by blast
  obtain fl' where "on_list ?c (\<lambda>_. l) fl = Some fl'" using on_list_defined [of ?c "\<lambda>_. l" fl] a(1) by (auto simp: ren_class_def)
  then show ?thesis using r False assms(2) a(1) by (simp add: unified_rename_def Let_def mode_ok_Full ren_class_def split_beta)
qed

lemma zero_ok_put:
  assumes "zero_ok isa u" "reg_ok rf u a" "ren_class (regClass a)" "a \<noteq> zeroReg (class_map (regClass a) u)"
  shows "zero_ok isa (put_entry a (Some p) u)"
proof -
  let ?u = "put_entry a (Some p) u"
  have z: "regClass a \<noteq> MiscRegClass" using assms(3) by (simp add: ren_class_def)
  have zr: "zeroReg (class_map c ?u) = zeroReg (class_map c u)" for c using z by simp
  have "entry ?u (zeroReg (class_map c u)) = entry u (zeroReg (class_map c u))"
    if "ren_class c" "regClass (zeroReg (class_map c u)) = c" for c
  proof (cases "c = regClass a")
    case True
    let ?z = "zeroReg (class_map c u)"
    have "elemIdx ?z = elemIdx a" "regClass ?z = regClass a" using assms(1-3) that True by (auto simp: zero_ok_def reg_ok_def ren_class_def)
    then have "regIdx ?z \<noteq> regIdx a" using assms(4) True by (metis RegId.equality old.unit.exhaust)
    then show ?thesis using z True that by simp
  qed (use z that in simp)
  note same = this
  have "in_range ?u b = in_range u b" for b using z by simp
  moreover have "\<exists>q. entry ?u (zeroReg (class_map c u)) = Some q \<and> isZeroReg isa q"
    if "ren_class c" "regClass (zeroReg (class_map c u)) = c" "in_range u (zeroReg (class_map c u))" for c
  proof -
    from assms(1) [unfolded zero_ok_def, rule_format, OF that(1)] that(2,3)
    obtain q where "entry u (zeroReg (class_map c u)) = Some q" "isZeroReg isa q" by blast
    then show ?thesis using same [OF that(1,2)] that(2) by simp
  qed
  ultimately show ?thesis using assms(1) unfolding zero_ok_def zr by simp
qed

lemma rename_keeps:
  assumes "unified_rename isa rf a (u, fl) = Some ((new, prev), u', fl')" "vecMode u = Full" "zero_ok isa u" "reg_ok rf u a"
  shows "zero_ok isa u'" "in_range u' b = in_range u b" "vecMode u' = Full"
    "ren_class c \<Longrightarrow> length (class_list c fl) \<le> length (class_list c fl') + (if regClass a = c then 1 else 0)"
proof -
  have *: "zero_ok isa u' \<and> in_range u' b = in_range u b \<and> vecMode u' = Full \<and>
    (ren_class c \<longrightarrow> length (class_list c fl) \<le> length (class_list c fl') + (if regClass a = c then 1 else 0))"
    using assms(1,2)
  proof (cases rule: rename_cases)
    case misc
    then show ?thesis using assms by simp
  next
    case zero
    then show ?thesis using assms by simp
  next
    case fresh
    have z: "regClass a \<noteq> MiscRegClass" using fresh(1) by (simp add: ren_class_def)
    have az: "a \<noteq> zeroReg (class_map (regClass a) u) \<or> zero_ok isa u'"
    proof (rule ccontr)
      assume "\<not> (a \<noteq> zeroReg (class_map (regClass a) u) \<or> zero_ok isa u')"
      then have a: "a = zeroReg (class_map (regClass a) u)" by simp
      then obtain p where "entry u a = Some p" "isZeroReg isa p" using assms(3) fresh(1,2) unfolding zero_ok_def by metis
      then have "simple_rename isa a (class_map (regClass a) u, class_list (regClass a) fl) =
          Some ((p, Some p), class_map (regClass a) u, class_list (regClass a) fl)"
        using a fresh(2) by (simp add: simple_rename_def in_range_def)
      then have "u' = u" using assms(1,2) fresh(1)
        by (auto simp: unified_rename_def Let_def ren_class_def mode_ok_Full bind_eq_Some_conv)
      then show False using \<open>\<not> (a \<noteq> zeroReg (class_map (regClass a) u) \<or> zero_ok isa u')\<close> assms(3) by simp
    qed
    have "length (class_list c fl) \<le> length (class_list c fl') + (if regClass a = c then 1 else 0)"
      using fresh(5,6) by (cases "c = regClass a"; cases "class_list c fl") (auto simp: simple_getReg_def bind_eq_Some_conv)
    moreover have "zero_ok isa u'" using az zero_ok_put [OF assms(3,4) fresh(1)] fresh(4) by auto
    ultimately show ?thesis using fresh(4) z assms(2) by simp
  qed
  then show "zero_ok isa u'" "in_range u' b = in_range u b" "vecMode u' = Full"
    "ren_class c \<Longrightarrow> length (class_list c fl) \<le> length (class_list c fl') + (if regClass a = c then 1 else 0)" by auto
qed

definition safe_loop :: "ISA \<Rightarrow> PhysRegFile \<Rightarrow> rename_loop \<Rightarrow> bool" where
  "safe_loop isa rf s \<longleftrightarrow> thread_inv rf (l_map s) (l_free s) (l_hist s) \<and> no_null (l_map s) \<and> zero_ok isa (l_map s) \<and>
     sb_ok isa rf (l_sb s)"

definition dest_room :: "DynInst \<Rightarrow> bool" where
  "dest_room i \<longleftrightarrow> numDestRegs i \<le> length (flatDestRegIdx i) \<and> numDestRegs i \<le> length (destRegIdx i) \<and>
     numDestRegs i \<le> length (prevDestRegIdx i)"

lemma renamed_in_file:
  assumes "unified_rename isa rf a (u, fl) = Some ((new, prev), u', fl')" "reg_ok rf u' a" "rf_ok rf"
    and "thread_inv rf u' fl' H" "no_null u'" "vecMode u = Full"
  shows "new \<in> set (getRegIds rf (regClass a)) \<and> regClass new = regClass a"
proof -
  have u': "vecMode u' = Full" using assms(4) by (simp add: thread_inv_def)
  obtain p where p: "unified_lookup isa rf a u' = Some (Some p)" "p \<in> set (getRegIds rf (regClass a))" "regClass p = regClass a"
    using reg_ok_lookup [OF assms(2,4,5,3)] by blast
  have "unified_lookup isa rf a u' = Some (Some new)"
    using assms(1,6)
  proof (cases rule: rename_cases)
    case misc
    then show ?thesis by (simp add: unified_lookup_def)
  next
    case zero
    then show ?thesis using lookup_entry [OF u' zero(1)] by simp
  next
    case fresh
    have "in_range u' a" "entry u' a = Some new" using fresh(1,2,4) by (simp_all add: in_range_def ren_class_def)
    then show ?thesis using lookup_entry [OF u' fresh(1)] by simp
  qed
  then show ?thesis using p by simp
qed

lemma rename_dest_ok:
  fixes flatten :: "RegId \<Rightarrow> RegId" and s :: rename_loop and k :: nat
  assumes rf: "rf_ok rf" and s: "safe_loop isa rf s" and i: "k < numDestRegs (l_inst s)" "dest_room (l_inst s)"
  defines "a \<equiv> flatten (si_destRegs (staticInst (l_inst s)) ! k)"
  assumes a: "reg_ok rf (l_map s) a" "ren_class (regClass a) \<Longrightarrow> class_list (regClass a) (l_free s) \<noteq> []"
  shows "\<exists>s'. rename_dest isa rf flatten s k = Some s' \<and> safe_loop isa rf s' \<and> dest_frame (l_inst s) (l_inst s') \<and>
    (\<forall>b. reg_ok rf (l_map s') b = reg_ok rf (l_map s) b) \<and>
    (\<forall>c. ren_class c \<longrightarrow> length (class_list c (l_free s)) \<le> length (class_list c (l_free s')) + (if regClass a = c then 1 else 0))"
proof -
  have inv: "thread_inv rf (l_map s) (l_free s) (l_hist s)" "no_null (l_map s)" "zero_ok isa (l_map s)" "sb_ok isa rf (l_sb s)"
    using s by (auto simp: safe_loop_def)
  have full: "vecMode (l_map s) = Full" using inv(1) by (simp add: thread_inv_def)
  obtain new prev u' fl' where r: "unified_rename isa rf a (l_map s, l_free s) = Some ((new, prev), u', fl')"
    using unified_rename_defined [OF a(1) full inv(3) a(2)] by (metis prod.collapse)
  note kp = rename_keeps [OF r full inv(3) a(1)]
  let ?e = "\<lparr>instSeqNum = seqNum (l_inst s), archReg = a, newPhysReg = new, prevPhysReg = prev\<rparr>"
  have inv': "thread_inv rf u' fl' (?e # l_hist s)" "no_null u'" using rename_ok [OF r rf inv(1,2)] by blast+
  have reg: "reg_ok rf u' b = reg_ok rf (l_map s) b" for b using kp(2) by (simp add: reg_ok_def)
  have new: "new \<in> set (getRegIds rf (regClass a))" "regClass new = regClass a"
    using renamed_in_file [OF r _ rf inv' full] reg a(1) by blast+
  have "regClass a \<noteq> VecElemClass" using a(1) by (auto simp: reg_ok_def ren_class_def)
  then obtain sb' where sb: "sb_unsetReg isa new (l_sb s) = Some sb'" "sb_ok isa rf sb'"
    using sb_unset_ok [OF inv(4) new] by blast
  let ?j = "(l_inst s)\<lparr>flatDestRegIdx := (flatDestRegIdx (l_inst s))[k := a],
    destRegIdx := (destRegIdx (l_inst s))[k := new], prevDestRegIdx := (prevDestRegIdx (l_inst s))[k := prev]\<rparr>"
  have "rename_dest isa rf flatten s k =
      Some \<lparr>l_map = u', l_free = fl', l_sb = sb', l_hist = ?e # l_hist s, l_inst = ?j\<rparr>"
    using r sb(1) i by (simp add: rename_dest_def a_def [symmetric] Let_def flattenDestReg_def renameDestReg_def dest_room_def)
  moreover have "dest_frame (l_inst s) ?j" by (rule dest_frameI) simp_all
  ultimately show ?thesis using inv' sb(2) kp(1,4) reg by (auto simp: safe_loop_def)
qed

abbreviation class_dests :: "(RegId \<Rightarrow> RegId) \<Rightarrow> RegClass \<Rightarrow> RegId list \<Rightarrow> nat" where
  "class_dests flatten c rs \<equiv> length (filter (\<lambda>r. regClass (flatten r) = c) rs)"

lemma rename_dests_ok:
  fixes s :: rename_loop
  assumes rf: "rf_ok rf" and s: "safe_loop isa rf s" and room: "dest_room (l_inst s)"
  defines "ds \<equiv> si_destRegs (staticInst (l_inst s))"
  assumes ok: "\<forall>r\<in>set ds. reg_ok rf (l_map s) (flatten r)"
    and free: "\<forall>c. ren_class c \<longrightarrow> class_dests flatten c ds \<le> length (class_list c (l_free s))" and "n \<le> length ds"
  shows "\<exists>s'. foldM (rename_dest isa rf flatten) s [0..<n] = Some s' \<and> safe_loop isa rf s' \<and> dest_frame (l_inst s) (l_inst s') \<and>
    (\<forall>b. reg_ok rf (l_map s') b = reg_ok rf (l_map s) b) \<and>
    (\<forall>c. ren_class c \<longrightarrow> length (class_list c (l_free s)) \<le> length (class_list c (l_free s')) + class_dests flatten c (take n ds))"
  using \<open>n \<le> length ds\<close>
proof (induction n)
  case 0
  then show ?case using s by (simp add: dest_frame_refl)
next
  case (Suc n)
  then obtain s1 where s1: "foldM (rename_dest isa rf flatten) s [0..<n] = Some s1" "safe_loop isa rf s1"
    "dest_frame (l_inst s) (l_inst s1)" "\<forall>b. reg_ok rf (l_map s1) b = reg_ok rf (l_map s) b"
    "\<forall>c. ren_class c \<longrightarrow> length (class_list c (l_free s)) \<le> length (class_list c (l_free s1)) + class_dests flatten c (take n ds)"
    by auto
  note fr = dest_frameD [OF s1(3)]
  let ?a = "flatten (ds ! n)"
  have n: "n < length ds" using Suc.prems by simp
  have st: "si_destRegs (staticInst (l_inst s1)) = ds" using fr(2) by (simp add: ds_def)
  have take: "class_dests flatten c (take (Suc n) ds) = class_dests flatten c (take n ds) + (if regClass ?a = c then 1 else 0)" for c
    using n by (simp add: take_Suc_conv_app_nth)
  have "class_list (regClass ?a) (l_free s1) \<noteq> []" if c: "ren_class (regClass ?a)"
  proof
    assume "class_list (regClass ?a) (l_free s1) = []"
    then have "length (class_list (regClass ?a) (l_free s)) \<le> class_dests flatten (regClass ?a) (take n ds)" using s1(5) c by force
    moreover have "class_dests flatten (regClass ?a) ds =
        class_dests flatten (regClass ?a) (take (Suc n) ds) + class_dests flatten (regClass ?a) (drop (Suc n) ds)"
      by (metis append_take_drop_id filter_append length_append)
    ultimately show False using free c take by force
  qed
  moreover have reg: "reg_ok rf (l_map s1) ?a" using ok s1(4) n by simp
  moreover have "dest_room (l_inst s1)" using room fr by (simp add: dest_room_def)
  ultimately obtain s2 where s2: "rename_dest isa rf flatten s1 n = Some s2" "safe_loop isa rf s2"
    "dest_frame (l_inst s1) (l_inst s2)" "\<forall>b. reg_ok rf (l_map s2) b = reg_ok rf (l_map s1) b"
    "\<forall>c. ren_class c \<longrightarrow> length (class_list c (l_free s1)) \<le> length (class_list c (l_free s2)) + (if regClass ?a = c then 1 else 0)"
    using rename_dest_ok [OF rf s1(2), of n flatten] reg n st unfolding st by blast
  have "length (class_list c (l_free s)) \<le> length (class_list c (l_free s2)) + class_dests flatten c (take (Suc n) ds)"
    if "ren_class c" for c
    using s1(5) [rule_format, OF that] s2(5) [rule_format, OF that] take [of c] by linarith
  moreover have "foldM (rename_dest isa rf flatten) s [0..<Suc n] = Some s2" using s1(1) s2(1) by (simp add: foldM_append)
  moreover have "dest_frame (l_inst s) (l_inst s2)" using dest_frame_trans [OF s1(3) s2(3)] .
  ultimately show ?case using s2(2,4) s1(4) by blast
qed

section \<open>Renaming an instruction\<close>

lemma canRename_iff:
  assumes "numClassDestRegs VecElemClass i = 0"
  shows "canRename (numClassDestRegs IntRegClass i) (numClassDestRegs FloatRegClass i) (numClassDestRegs VecRegClass i)
      (numClassDestRegs VecElemClass i) (numClassDestRegs CCRegClass i) fl \<longleftrightarrow>
    (\<forall>c. ren_class c \<longrightarrow> numClassDestRegs c i \<le> length (class_list c fl))"
proof -
  have "(\<forall>c. ren_class c \<longrightarrow> P c) \<longleftrightarrow> P IntRegClass \<and> P FloatRegClass \<and> P VecRegClass \<and> P CCRegClass" for P
    unfolding ren_class_def by (metis RegClass.distinct RegClass.exhaust)
  then show ?thesis using assms by (auto simp: canRename_def numFreeRegs_def)
qed

lemma no_elem_dests:
  assumes "\<forall>r\<in>set (si_destRegs (staticInst i)). reg_ok rf u (flatten r) \<and> regClass (flatten r) = regClass r"
  shows "numClassDestRegs VecElemClass i = 0"
proof -
  have "filter (\<lambda>r. regClass r = VecElemClass) (si_destRegs (staticInst i)) = []"
    using assms by (auto simp: filter_empty_conv reg_ok_def ren_class_def)
  then show ?thesis by (simp add: numClassDestRegs_def)
qed

definition operands_ok :: "PhysRegFile \<Rightarrow> (RegId \<Rightarrow> RegId) \<Rightarrow> UnifiedRenameMap \<Rightarrow> DynInst \<Rightarrow> bool" where
  "operands_ok rf flatten u i \<longleftrightarrow> numSrcRegs i \<le> length (srcRegIdx i) \<and> dest_room i \<and>
     (\<forall>r\<in>set (si_srcRegs (staticInst i)). regClass r \<noteq> VecElemClass \<and> reg_ok rf u (flatten r)) \<and>
     (\<forall>r\<in>set (si_destRegs (staticInst i)). reg_ok rf u (flatten r) \<and> regClass (flatten r) = regClass r)"

lemma rename_succeeds:
  assumes "rf_ok rf" "rn_inv rf act st h Q" "t = threadNumber i" "t < act" "t < length (renameMap st)"
    and "sb_ok isa rf (scoreboard st)" "zero_ok isa (renameMap st ! t)" "operands_ok rf flatten (renameMap st ! t) i"
    and free: "\<forall>c. ren_class c \<longrightarrow> numClassDestRegs c i \<le> length (class_list c (freeList st))"
  shows "\<exists>st' i'. rename_inst isa rf flatten (st, i) = Some (Some (st', i')) \<and> sb_ok isa rf (scoreboard st') \<and>
    zero_ok isa (renameMap st' ! t) \<and> (\<forall>j. operands_ok rf flatten (renameMap st' ! t) j = operands_ok rf flatten (renameMap st ! t) j) \<and>
    (\<forall>c. ren_class c \<longrightarrow> length (class_list c (freeList st)) \<le> length (class_list c (freeList st')) + numClassDestRegs c i)"
proof -
  let ?u = "renameMap st ! t"
  note len = rn_inv_len [OF assms(2)]
  have ops: "numSrcRegs i \<le> length (srcRegIdx i)" "dest_room i"
    "\<forall>r\<in>set (si_srcRegs (staticInst i)). regClass r \<noteq> VecElemClass \<and> reg_ok rf ?u (flatten r)"
    "\<forall>r\<in>set (si_destRegs (staticInst i)). reg_ok rf ?u (flatten r) \<and> regClass (flatten r) = regClass r"
    using assms(8) by (simp_all add: operands_ok_def)
  have inv: "thread_inv rf ?u (freeList st) (historyBuffer st ! t)" "no_null ?u"
    using rn_inv_thread [OF assms(2,5)] rn_invD(2) [OF assms(2,5,4)] .
  have same: "filter (\<lambda>r. regClass (flatten r) = c) (si_destRegs (staticInst i)) = filter (\<lambda>r. regClass r = c) (si_destRegs (staticInst i))" for c
    using ops(4) by (intro filter_cong) auto
  obtain j where j: "foldM (rename_src isa rf flatten ?u (scoreboard st)) i [0..<numSrcRegs i] = Some j"
    "staticInst j = staticInst i" "threadNumber j = threadNumber i" "flatDestRegIdx j = flatDestRegIdx i"
    "destRegIdx j = destRegIdx i" "prevDestRegIdx j = prevDestRegIdx i"
    using rename_srcs_ok [OF inv assms(1,6), where n = "numSrcRegs i" and i = i and flatten = flatten] ops(1,3) by auto
  let ?s = "\<lparr>l_map = ?u, l_free = freeList st, l_sb = scoreboard st, l_hist = historyBuffer st ! t, l_inst = j\<rparr>"
  have "safe_loop isa rf ?s" using inv assms(6,7) by (simp add: safe_loop_def)
  moreover have "dest_room j" using ops(2) j by (simp add: dest_room_def)
  moreover have "\<forall>c. ren_class c \<longrightarrow> class_dests flatten c (si_destRegs (staticInst j)) \<le> length (class_list c (freeList st))"
    using free same j(2) by (simp add: numClassDestRegs_def)
  ultimately obtain s' where s': "foldM (rename_dest isa rf flatten) ?s [0..<numDestRegs j] = Some s'" "safe_loop isa rf s'"
    "\<forall>b. reg_ok rf (l_map s') b = reg_ok rf ?u b"
    "\<forall>c. ren_class c \<longrightarrow> length (class_list c (freeList st)) \<le> length (class_list c (l_free s')) + numClassDestRegs c i"
    using rename_dests_ok [OF assms(1), of isa ?s flatten "numDestRegs j"] ops(4) j(2) same by (auto simp: numClassDestRegs_def)
  have "renameDestRegs isa rf flatten t (st, j) = Some (st\<lparr>renameMap := (renameMap st)[t := l_map s'], freeList := l_free s',
      scoreboard := l_sb s', historyBuffer := (historyBuffer st)[t := l_hist s']\<rparr>, l_inst s')"
    using assms(5) len s'(1) by (simp add: renameDestRegs_def)
  moreover have "renameSrcRegs isa rf flatten t st i = Some j" using assms(5) j(1) by (simp add: renameSrcRegs_def)
  ultimately show ?thesis
    using free canRename_iff [OF no_elem_dests [OF ops(4)], of "freeList st"] assms(3,5) j(3) s'(2-4)
    by (simp add: rename_inst_def safe_loop_def operands_ok_def)
qed


end
