(* ===== verification/Rename_Example.thy ===== *)
theory Rename_Example
  imports Rename_Safe
begin

text \<open>
  Renaming on a small register file: three integer registers of which number 2 is
  the zero register, one floating-point, one vector and no condition-code register
  per thread. The instruction writes integer register 0 and reads register 1.
\<close>

definition rx_isa :: ISA where
  "rx_isa = \<lparr>ZeroReg = 2, is_ALPHA = False, NumVecElemPerVecReg = 2, NumIntRegs = 3, NumFloatRegs = 1,
     NumVecRegs = 1, NumCCRegs = 0, NumMiscRegs = 1\<rparr>"

definition rx_int :: "nat \<Rightarrow> RegId" where
  "rx_int n = \<lparr>regClass = IntRegClass, regIdx = n, elemIdx = no_elem\<rparr>"

definition rx_static :: "nat list \<Rightarrow> nat list \<Rightarrow> StaticInst" where
  "rx_static srcs dests =
     \<lparr>si_isMemRef = False, si_isLoad = False, si_isStore = False, si_isControl = False,
      si_isStoreConditional = False, si_isInstPrefetch = False, si_isDataPrefetch = False,
      si_isMemBarrier = False, si_isWriteBarrier = False, si_isNonSpeculative = False,
      si_isFloating = False, si_isInteger = True, si_srcRegs = map rx_int srcs, si_destRegs = map rx_int dests\<rparr>"

definition rx_inst :: "ThreadID \<Rightarrow> nat \<Rightarrow> nat list \<Rightarrow> nat list \<Rightarrow> DynInst" where
  "rx_inst t sn srcs dests =
     (initVars 2 2 (mk_PhysRegId IntRegClass 0 0) (rx_static srcs dests) 0 sn)\<lparr>threadNumber := t\<rparr>"

definition rx_heap :: inst_heap where
  "rx_heap = (\<lambda>p. if p = 1 then rx_inst 0 1 [1] [0] else rx_inst 0 2 [0] [1])"

abbreviation rx_rf :: PhysRegFile where
  "rx_rf \<equiv> mk_PhysRegFile rx_isa 5 1 1 0 Full"

lemmas rx_eval = rx_isa_def mk_UnifiedFreeList_def initFreeList_def mk_PhysRegFile_def Let_def
  mk_PhysRegId_def mk_PhysElemId_def addRegs_def simple_addRegs_def simple_addReg_def eval_nat_numeral
  unified_init_def simple_init_def init_thread_def init_class_def init_reg_def mk_RegId_def get_class_reg_def
  simple_getReg_def unified_setEntry_def mode_ok_def simple_setEntry_def mk_Scoreboard_def mk_rename_def
  rename_inst_def canRename_def numClassDestRegs_def numFreeRegs_def renameSrcRegs_def rename_src_def unified_lookup_def
  simple_lookup_def renameSrcReg_def sb_getReg_def isFixedMapping_def isRenameable_def isZeroReg_def
  markSrcRegReady_idx_def markSrcRegReady_def renameDestRegs_def rename_dest_def unified_rename_def simple_rename_def
  flattenDestReg_def renameDestReg_def sb_unsetReg_def rx_inst_def rx_static_def rx_int_def initVars_def set_status_def
  rx_heap_def

text \<open>The state with the integer mapping \<open>ints\<close>, the free integer registers \<open>free\<close> and one history.\<close>

definition rx_map :: "nat list \<Rightarrow> UnifiedRenameMap" where
  "rx_map ints = \<lparr>intMap = \<lparr>arch2phys = map (\<lambda>n. Some (mk_PhysRegId IntRegClass n n)) ints, zeroReg = rx_int 2\<rparr>,
     floatMap = \<lparr>arch2phys = [Some (mk_PhysRegId FloatRegClass 0 5)], zeroReg = rx_int 2\<rparr>,
     ccMap = \<lparr>arch2phys = [], zeroReg = rx_int no_zero_reg\<rparr>,
     vecMap = \<lparr>arch2phys = [Some (mk_PhysRegId VecRegClass 0 6)], zeroReg = rx_int no_zero_reg\<rparr>,
     vecElemMap = \<lparr>arch2phys = [None, None], zeroReg = rx_int no_zero_reg\<rparr>, vecMode = Full\<rparr>"

definition rx_state :: "nat list \<Rightarrow> nat list \<Rightarrow> Scoreboard \<Rightarrow> RenameHistory list \<Rightarrow> rename_state" where
  "rx_state ints free sb H = \<lparr>renameMap = [rx_map ints], commitRenameMap = [rx_map [0, 1, 2]],
     freeList = \<lparr>intList = map (\<lambda>n. mk_PhysRegId IntRegClass n n) free, floatList = [], vecList = [], vecElemList = [], ccList = []\<rparr>,
     scoreboard = sb, historyBuffer = [H]\<rparr>"

lemma rx_mk: "mk_rename rx_isa 5 1 1 0 Full 1 1 = Some (rx_state [0, 1, 2] [3, 4] (replicate 9 True) [])"
  by (simp add: rx_eval rx_state_def rx_map_def)

abbreviation rx_start :: rename_state where
  "rx_start \<equiv> rx_state [0, 1, 2] [3, 4] (replicate 9 True) []"

lemma rx_inv: "rn_inv rx_rf 1 rx_start rx_heap [[]]"
  using reachable_rn_inv [OF rx_mk, of id rx_heap rx_start rx_heap "[[]]"] by simp

lemma all_RegClass: "(\<forall>c. P c) \<longleftrightarrow> P IntRegClass \<and> P FloatRegClass \<and> P VecRegClass \<and> P VecElemClass \<and> P CCRegClass \<and> P MiscRegClass"
  by (metis RegClass.exhaust)

lemma rx_sb: "sb_ok rx_isa rx_rf (scoreboard rx_start)"
  by (simp add: sb_ok_def all_RegClass ren_class_def rx_state_def mk_PhysRegFile_def rx_isa_def mk_PhysRegId_def
      mk_PhysElemId_def isZeroReg_def eval_nat_numeral)

lemma rx_zero: "zero_ok rx_isa (renameMap rx_start ! 0)"
  by (simp add: zero_ok_def all_RegClass ren_class_def rx_state_def rx_map_def rx_int_def rx_isa_def mk_PhysRegId_def
      isZeroReg_def in_range_def)

lemma rx_ops: "operands_ok rx_rf id (renameMap rx_start ! 0) (rx_heap p)"
  by (simp add: operands_ok_def dest_room_def reg_ok_def ren_class_def rx_state_def rx_map_def rx_int_def rx_heap_def rx_inst_def
      rx_static_def initVars_def in_range_def)

lemma rx_thread [simp]: "threadNumber (rx_heap p) = 0" "seqNum (rx_heap p) = (if p = 1 then 1 else 2)" "length (renameMap (rx_state ints free sb H)) = 1"
  "renameMap (rx_state ints free sb H) \<noteq> []"
  by (simp_all add: rx_heap_def rx_inst_def rx_state_def initVars_def)

lemma rx_free: "ren_class c \<Longrightarrow> numClassDestRegs c (rx_heap p) \<le> length (class_list c (freeList rx_start))"
  by (cases c) (simp_all add: numClassDestRegs_def rx_heap_def rx_inst_def rx_static_def rx_int_def initVars_def rx_state_def ren_class_def)


text \<open>The two instructions are renamed one after the other.\<close>

lemma rx_run:
  obtains st1 i1 st2 i2 where "rename_inst rx_isa rx_rf id (rx_start, rx_heap 1) = Some (Some (st1, i1))"
    "rename_inst rx_isa rx_rf id (st1, rx_heap 2) = Some (Some (st2, i2))" "rn_inv rx_rf 1 st1 (rx_heap(1 := i1)) [[1]]"
proof -
  obtain st1 i1 where 1: "rename_inst rx_isa rx_rf id (rx_start, rx_heap 1) = Some (Some (st1, i1))"
    "sb_ok rx_isa rx_rf (scoreboard st1)" "zero_ok rx_isa (renameMap st1 ! 0)"
    "\<forall>j. operands_ok rx_rf id (renameMap st1 ! 0) j = operands_ok rx_rf id (renameMap rx_start ! 0) j"
    "\<forall>c. ren_class c \<longrightarrow> length (class_list c (freeList rx_start)) \<le> length (class_list c (freeList st1)) + numClassDestRegs c (rx_heap 1)"
    using rename_succeeds [OF rf_ok_mk rx_inv _ _ _ rx_sb rx_zero rx_ops [of 1]] rx_free by auto
  have inv: "rn_inv rx_rf 1 st1 (rx_heap(1 := i1)) [[1]]"
    using rename_step_inst [OF 1(1) rf_ok_mk rx_inv] by simp
  have "numClassDestRegs c (rx_heap 2) \<le> length (class_list c (freeList st1))" if "ren_class c" for c
    using 1(5) [rule_format, OF that] that
    by (cases c) (simp_all add: numClassDestRegs_def rx_heap_def rx_inst_def rx_static_def rx_int_def initVars_def rx_state_def ren_class_def)
  moreover have "length (renameMap st1) = 1" using rn_inv_len(3) [OF inv] by simp
  ultimately obtain st2 i2 where "rename_inst rx_isa rx_rf id (st1, rx_heap 2) = Some (Some (st2, i2))"
    using rename_succeeds [OF rf_ok_mk inv _ _ _ 1(2,3), where i = "rx_heap 2" and flatten = id] 1(4) rx_ops [of 2] by auto
  then show ?thesis using that 1(1) inv by blast
qed

lemma rx_rename: "unified_rename rx_isa rx_rf (rx_int 0) (renameMap rx_start ! 0, freeList rx_start) =
    Some ((mk_PhysRegId IntRegClass 3 3, Some (mk_PhysRegId IntRegClass 0 0)), renameMap (rx_state [3, 1, 2] [4] [] []) ! 0,
      freeList (rx_state [3, 1, 2] [4] [] []))"
  by (simp add: unified_rename_def rx_state_def rx_map_def rx_int_def Let_def mode_ok_def simple_rename_def simple_getReg_def)

lemma rx_entries:
  assumes "rename_inst rx_isa rx_rf id (rx_start, rx_heap 1) = Some (Some (st1, i1))"
  shows "entries i1 = [\<lparr>instSeqNum = 1, archReg = rx_int 0, newPhysReg = mk_PhysRegId IntRegClass 3 3,
    prevPhysReg = Some (mk_PhysRegId IntRegClass 0 0)\<rparr>]"
proof -
  obtain j where j: "renameSrcRegs rx_isa rx_rf id 0 rx_start (rx_heap 1) = Some j" "src_frame (rx_heap 1) j"
    "renameDestRegs rx_isa rx_rf id (threadNumber j) (rx_start, j) = Some (st1, i1)"
    using assms renameSrcRegs_frame by (auto simp: rename_inst_def bind_eq_Some_conv split: if_splits)
  have d: "staticInst j = rx_static [1] [0]" "seqNum j = 1" "threadNumber j = 0"
    using j(2) by (simp_all add: src_frame_def rx_heap_def rx_inst_def initVars_def)
  let ?s = "\<lparr>l_map = renameMap rx_start ! 0, l_free = freeList rx_start, l_sb = scoreboard rx_start,
    l_hist = historyBuffer rx_start ! 0, l_inst = j\<rparr>"
  obtain l where l: "rename_dest rx_isa rx_rf id ?s 0 = Some l" "i1 = l_inst l"
    using j(3) d by (auto simp: renameDestRegs_def bind_eq_Some_conv vec_get_Some_iff rx_static_def)
  show ?thesis
  proof (cases rule: rename_dest_SomeD [OF l(1)])
    case (1 new prev)
    then show ?thesis using rx_rename d l(2) by (simp add: entries_def entry_of_def rx_static_def)
  qed
qed

theorem rename_conserves_registers_witness:
  "\<exists>st h. (rename_step rx_isa rx_rf id 1)\<^sup>*\<^sup>* (rx_start, rx_heap, replicate 1 []) (st, h, [[1]]) \<and> regs_conserved rx_rf st \<and>
    rollback (renameMap st ! 0) (historyBuffer st ! 0) = commitRenameMap st ! 0 \<and> historyBuffer st ! 0 = hist_of h [1]"
proof (rule rx_run)
  fix st1 i1 st2 i2 assume r: "rename_inst rx_isa rx_rf id (rx_start, rx_heap 1) = Some (Some (st1, i1))"
    and inv: "rn_inv rx_rf 1 st1 (rx_heap(1 := i1)) [[1]]"
  have "rename_step rx_isa rx_rf id 1 (rx_start, rx_heap, [[]]) (st1, rx_heap(1 := i1), [[]] [0 := [[]] ! 0 @ [1]])"
    using rename_step.rename [where h = rx_heap and p = 1, OF r, of 0 1 "[[]]"] by simp
  then have run: "(rename_step rx_isa rx_rf id 1)\<^sup>*\<^sup>* (rx_start, rx_heap, replicate 1 []) (st1, rx_heap(1 := i1), [[1]])" by auto
  have "0 < length (renameMap st1)" using rn_inv_len(3) [OF inv] by (metis length_greater_0_conv list.distinct(1))
  then have "regs_conserved rx_rf st1 \<and> rollback (renameMap st1 ! 0) (historyBuffer st1 ! 0) = commitRenameMap st1 ! 0 \<and>
      historyBuffer st1 ! 0 = hist_of (rx_heap(1 := i1)) ([[1]] ! 0)"
    using rename_conserves_registers [OF rx_mk _ run] by blast
  then show ?thesis using run by (metis nth_Cons_0)
qed

theorem squash_restores_map_witness:
  "\<exists>st' h' st2. foldM (rename_one rx_isa rx_rf id) (rx_start, rx_heap) [1, 2] = Some (st', h') \<and>
    rename_doSquash rx_isa rx_rf 0 0 st' = Some st2 \<and> renameMap st2 = renameMap rx_start \<and>
    historyBuffer st2 = historyBuffer rx_start"
proof (rule rx_run)
  fix st1 i1 st2 i2 assume r: "rename_inst rx_isa rx_rf id (rx_start, rx_heap 1) = Some (Some (st1, i1))"
    "rename_inst rx_isa rx_rf id (st1, rx_heap 2) = Some (Some (st2, i2))"
  have run: "foldM (rename_one rx_isa rx_rf id) (rx_start, rx_heap) [1, 2] = Some (st2, rx_heap(1 := i1, 2 := i2))"
    using r by (simp add: rename_one_def)
  have "to_rename rx_heap [[]] 0 [1, 2]" by (simp add: to_rename_def)
  from squash_restores_map [OF rf_ok_mk rx_inv _ _ this run, of 0] run show ?thesis by auto
qed


theorem operands_follow_dataflow_witness:
  "\<exists>st1 i1 st2 i2. rename_inst rx_isa rx_rf id (rx_start, rx_heap 1) = Some (Some (st1, i1)) \<and>
    rename_inst rx_isa rx_rf id (st1, rx_heap 2) = Some (Some (st2, i2)) \<and>
    (\<exists>e\<in>set (entries i1). newPhysReg e = srcRegIdx i2 ! 0)"
proof (rule rx_run)
  fix st1 i1 st2 i2 assume r: "rename_inst rx_isa rx_rf id (rx_start, rx_heap 1) = Some (Some (st1, i1))"
    "rename_inst rx_isa rx_rf id (st1, rx_heap 2) = Some (Some (st2, i2))" and inv: "rn_inv rx_rf 1 st1 (rx_heap(1 := i1)) [[1]]"
  note e = rx_entries [OF r(1)]
  define h1 where "h1 = rx_heap(1 := i1)"
  have h1: "h1 1 = i1" "h1 2 = rx_heap 2" by (simp_all add: h1_def)
  have r2: "rename_inst rx_isa rx_rf id (st1, h1 2) = Some (Some (st2, i2))" using r(2) h1 by simp
  have n: "0 < numSrcRegs (h1 2)" "ren_class (regClass (rx_int 0))" "rx_int 0 = id (si_srcRegs (staticInst (h1 2)) ! 0)" "0 = threadNumber (h1 2)"
    by (simp_all add: h1 rx_heap_def rx_inst_def rx_static_def initVars_def ren_class_def rx_int_def)
  have w: "writes h1 (rx_int 0) 1" using e h1 by (simp add: writes_def same_reg_def)
  have "\<forall>q\<in>set ([[1]] ! 0). \<forall>e\<in>set (entries (h1 q)). same_reg (rx_int 0) (archReg e) \<longrightarrow> prevPhysReg e \<noteq> Some (newPhysReg e)"
    using e h1 by (simp add: mk_PhysRegId_def)
  from operands_follow_dataflow [OF rf_ok_mk inv [folded h1_def] r2 n(4) _ n(1,3,2) this]
  have "\<exists>e\<in>set (entries (h1 1)). newPhysReg e = srcRegIdx i2 ! 0" using w by simp
  then show ?thesis using r h1 by auto
qed

section \<open>Two configurations outside the contract\<close>

text \<open>
  (C26) Renaming a vector element whose flattened index is not its register index is
  lost: \<^verbatim>\<open>rename\<close> stores the new register at \<^verbatim>\<open>index()\<close>, \<^verbatim>\<open>lookup\<close> reads at \<^verbatim>\<open>flatIndex()\<close>,
  so later readers of the element still get the old physical register.
\<close>

theorem vec_elem_rename_lost:
  assumes "unified_rename isa rf a (u, fl) = Some ((new, prev), u', fl')" "regClass a = VecElemClass" "flatIndex isa a \<noteq> regIdx a"
  shows "unified_lookup isa rf a u' = unified_lookup isa rf a u"
proof -
  obtain m l where m: "simple_rename isa a (vecElemMap u, vecElemList fl) = Some ((new, prev), m, l)" "u' = u\<lparr>vecElemMap := m\<rparr>"
    using assms(1,2) by (auto simp: unified_rename_def Let_def bind_eq_Some_conv)
  then have "\<exists>x. arch2phys m = (arch2phys (vecElemMap u))[regIdx a := x]"
    by (auto simp: simple_rename_def Let_def bind_eq_Some_conv vec_set_Some_iff vec_get_Some_iff split: if_splits)
      (metis list_update_id)
  then have "simple_lookup isa a m = simple_lookup isa a (vecElemMap u)"
    using assms(3) by (auto simp: simple_lookup_def vec_get_def)
  then show ?thesis using assms(2) m(2) by (simp add: unified_lookup_def mode_ok_def)
qed

definition rx_elem :: RegId where
  "rx_elem = \<lparr>regClass = VecElemClass, regIdx = 0, elemIdx = 1\<rparr>"

definition rx_elem_map :: UnifiedRenameMap where
  "rx_elem_map = (rx_map [0, 1, 2])\<lparr>vecMode := Elem, vecElemMap := \<lparr>arch2phys = [Some (mk_PhysRegId VecElemClass 0 7),
     Some (mk_PhysRegId VecElemClass 1 8)], zeroReg = rx_int no_zero_reg\<rparr>\<rparr>"

definition rx_elem_free :: UnifiedFreeList where
  "rx_elem_free = (freeList rx_start)\<lparr>vecElemList := [mk_PhysRegId VecElemClass 2 9]\<rparr>"

lemma rx_elem_rename: "unified_rename rx_isa rx_rf rx_elem (rx_elem_map, rx_elem_free) =
    Some ((mk_PhysRegId VecElemClass 2 9, Some (mk_PhysRegId VecElemClass 0 7)),
      rx_elem_map\<lparr>vecElemMap := \<lparr>arch2phys = [Some (mk_PhysRegId VecElemClass 2 9), Some (mk_PhysRegId VecElemClass 1 8)],
        zeroReg = rx_int no_zero_reg\<rparr>\<rparr>, rx_elem_free\<lparr>vecElemList := []\<rparr>)"
  by (simp add: unified_rename_def rx_elem_def rx_elem_map_def rx_elem_free_def rx_state_def rx_map_def rx_int_def Let_def
      mode_ok_def simple_rename_def simple_getReg_def)

theorem vec_elem_rename_lost_witness:
  "\<exists>u'. unified_rename rx_isa rx_rf rx_elem (rx_elem_map, rx_elem_free) =
      Some ((mk_PhysRegId VecElemClass 2 9, Some (mk_PhysRegId VecElemClass 0 7)), u', rx_elem_free\<lparr>vecElemList := []\<rparr>) \<and>
    unified_lookup rx_isa rx_rf rx_elem u' = unified_lookup rx_isa rx_rf rx_elem rx_elem_map"
  using vec_elem_rename_lost [OF rx_elem_rename] rx_elem_rename by (auto simp: rx_elem_def flatIndex.simps rx_isa_def)

definition rx_two_map :: "nat \<Rightarrow> UnifiedRenameMap" where
  "rx_two_map t = \<lparr>intMap = \<lparr>arch2phys = map (\<lambda>n. Some (mk_PhysRegId IntRegClass n n)) [3 * t, 3 * t + 1, 3 * t + 2], zeroReg = rx_int 2\<rparr>,
     floatMap = \<lparr>arch2phys = [Some (mk_PhysRegId FloatRegClass t (8 + t))], zeroReg = rx_int 2\<rparr>,
     ccMap = \<lparr>arch2phys = [], zeroReg = rx_int no_zero_reg\<rparr>,
     vecMap = \<lparr>arch2phys = [Some (mk_PhysRegId VecRegClass t (10 + t))], zeroReg = rx_int no_zero_reg\<rparr>,
     vecElemMap = \<lparr>arch2phys = [None, None], zeroReg = rx_int no_zero_reg\<rparr>, vecMode = Full\<rparr>"

lemma rx_two_mk: "\<exists>st. mk_rename rx_isa 8 2 2 0 Full 2 2 = Some st \<and> renameMap st = [rx_two_map 0, rx_two_map 1] \<and>
    class_list IntRegClass (freeList st) = [mk_PhysRegId IntRegClass 6 6, mk_PhysRegId IntRegClass 7 7] \<and> vecElemList (freeList st) = []"
  by (simp add: rx_eval rx_two_map_def)

lemma rx_two_zero: "unified_rename rx_isa rf (rx_int 2) (rx_two_map t, fl) =
    (if t = 0 then Some ((mk_PhysRegId IntRegClass 2 2, Some (mk_PhysRegId IntRegClass 2 2)), rx_two_map t, fl) else None)"
  by (simp add: unified_rename_def rx_two_map_def rx_int_def Let_def mode_ok_def simple_rename_def isZeroReg_def mk_PhysRegId_def rx_isa_def assertion_def)

lemma rx_two_inst: "staticInst (rx_inst t sn srcs dests) = rx_static srcs dests" "threadNumber (rx_inst t sn srcs dests) = t"
  by (simp_all add: rx_inst_def initVars_def)


end
