(* ===== verification/Ring.thy ===== *)
theory Ring
  imports Prelude
begin

text \<open>
  Circular buffers: a vector, the index of the first element and the number of
  elements stand for a list. The load queue and the store queue are of this kind.
\<close>

definition ring :: "'a list \<Rightarrow> nat \<Rightarrow> nat \<Rightarrow> 'a list" where
  "ring q h n = map (\<lambda>k. q ! ((h + k) mod length q)) [0..<n]"

lemma length_ring [simp]: "length (ring q h n) = n"
  by (simp add: ring_def)

lemma ring_0 [simp]: "ring q h 0 = []"
  by (simp add: ring_def)

lemma nth_ring [simp]: "k < n \<Longrightarrow> ring q h n ! k = q ! ((h + k) mod length q)"
  by (simp add: ring_def)

lemma ring_Suc: "ring q h (Suc n) = ring q h n @ [q ! ((h + n) mod length q)]"
  by (simp add: ring_def)

lemma ring_slot_le:
  assumes "(h + i) mod m = (h + j) mod m" "i \<le> j" "j < m"
  shows "i = (j :: nat)"
proof -
  have "m dvd (h + j) - (h + i)" using assms(1,2) by (metis mod_eq_dvd_iff_nat add_le_cancel_left)
  then show ?thesis using assms(2,3) by (auto dest: dvd_imp_le)
qed

lemma ring_slot_inj:
  assumes "(h + i) mod m = (h + j) mod m" "i < m" "j < m"
  shows "i = (j :: nat)"
  using ring_slot_le [OF assms(1)] ring_slot_le [OF assms(1) [symmetric]] assms(2,3) by (cases "i \<le> j") auto

lemma ring_update_out:
  assumes "n \<le> k" "k < length q"
  shows "ring (q[(h + k) mod length q := x]) h n = ring q h n"
proof (rule nth_equalityI)
  fix i assume "i < length (ring (q[(h + k) mod length q := x]) h n)"
  then have i: "i < n" by simp
  then have "(h + i) mod length q \<noteq> (h + k) mod length q" using ring_slot_inj [of h i "length q" k] assms by auto
  then show "ring (q[(h + k) mod length q := x]) h n ! i = ring q h n ! i" using i by simp
qed simp

lemma ring_push:
  assumes "n < length q"
  shows "ring (q[(h + n) mod length q := x]) h (Suc n) = ring q h n @ [x]"
proof -
  have "(h + n) mod length q < length q" using assms by (intro mod_less_divisor) linarith
  then show ?thesis using ring_update_out [of n n q h x] assms by (simp add: ring_Suc)
qed

lemma ring_update:
  assumes "k < n" "n \<le> length q"
  shows "ring (q[(h + k) mod length q := x]) h n = (ring q h n)[k := x]"
proof (rule nth_equalityI)
  fix i assume "i < length (ring (q[(h + k) mod length q := x]) h n)"
  then have i: "i < n" by simp
  have "(h + i) mod length q < length q" using assms by (intro mod_less_divisor) linarith
  then show "ring (q[(h + k) mod length q := x]) h n ! i = (ring q h n)[k := x] ! i"
  proof (cases "i = k")
    case False
    then have "(h + k) mod length q \<noteq> (h + i) mod length q" using i assms ring_slot_inj [of h i "length q" k] by auto
    then show ?thesis using False i by simp
  qed (use i assms \<open>(h + i) mod length q < length q\<close> in simp)
qed simp

lemma length_filter_update:
  assumes "k < length xs"
  shows "int (length (filter P (xs[k := x]))) =
    int (length (filter P xs)) + (if P x then 1 else 0) - (if P (xs ! k) then 1 else 0)"
proof -
  obtain a y b where "xs = a @ y # b" "length a = k" using assms by (metis id_take_nth_drop length_take min.absorb4)
  then show ?thesis by auto
qed

lemma ring_Cons: "ring q h (Suc n) = q ! (h mod length q) # ring q (Suc h) n"
  by (simp add: ring_def upt_conv_Cons map_Suc_upt [symmetric] del: upt_Suc)

lemma ring_mod: "ring q (h mod length q) n = ring q h n"
  by (simp add: ring_def mod_add_left_eq)

lemma ring_take: "m \<le> n \<Longrightarrow> take m (ring q h n) = ring q h m"
  by (simp add: ring_def take_map)

lemma ring_drop: "drop m (ring q h n) = ring q (h + m) (n - m)"
  by (rule nth_equalityI) (auto simp: ring_def add.assoc)

lemma in_set_ring: "x \<in> set (ring q h n) \<longleftrightarrow> (\<exists>k<n. x = q ! ((h + k) mod length q))"
  by (auto simp: ring_def)

text \<open>Stepping an index by one in either direction.\<close>

definition next_idx :: "nat \<Rightarrow> nat \<Rightarrow> nat" where
  "next_idx n i = (if i + 1 \<ge> n then 0 else i + 1)"

definition prev_idx :: "nat \<Rightarrow> nat \<Rightarrow> nat" where
  "prev_idx n i = (if i = 0 then n - 1 else i - 1)"

lemma next_idx_mod: "i < n \<Longrightarrow> next_idx n i = (i + 1) mod n"
  by (cases "Suc i = n") (auto simp: next_idx_def)

lemma next_idx_slot: "0 < n \<Longrightarrow> next_idx n ((h + k) mod n) = (h + Suc k) mod n"
  by (simp add: next_idx_mod mod_Suc_eq)

lemma prev_idx_mod: "i < n \<Longrightarrow> prev_idx n i = (i + n - 1) mod n"
  by (cases i) (auto simp: prev_idx_def)

lemma prev_idx_slot: "0 < n \<Longrightarrow> prev_idx n ((h + Suc k) mod n) = (h + k) mod n"
  by (auto simp: prev_idx_def mod_Suc)

lemma idx_in_range [simp]: "0 < n \<Longrightarrow> next_idx n i < n" "i < n \<Longrightarrow> prev_idx n i < n"
  by (auto simp: next_idx_def prev_idx_def)

lemma prev_next [simp]: "i < n \<Longrightarrow> prev_idx n (next_idx n i) = i" "i < n \<Longrightarrow> next_idx n (prev_idx n i) = i"
  by (auto simp: next_idx_def prev_idx_def)

end
