(* ===== verification/LSQ.thy ===== *)
theory LSQ
  imports Ring DynInst CPU_Config
begin

text \<open>
  The load/store queue of a thread (\<^verbatim>\<open>cpu/o3/lsq_unit.hh\<close> and \<^verbatim>\<open>lsq_unit_impl.hh\<close>):
  the two circular queues and the operations that insert, commit, squash and complete
  their entries. Indices into the queues are natural numbers below the number of
  entries; a queue has one entry more than it can hold. \<open>mldom\<close> is \<^verbatim>\<open>cpu->enableMLDOM\<close>;
  the location predictor of the CPU is passed along where an operation uses it.
  Statistics are not modelled.
\<close>

section \<open>State\<close>

record SQEntry =
  sq_data :: "8 word list"
  sq_inst :: "DynInstPtr option"
  sq_req :: "Request option"
  sq_sreqLow :: "Request option"
  sq_sreqHigh :: "Request option"
  sq_size :: nat
  isSplit :: bool
  canWB :: bool
  sq_committed :: bool
  sq_completed :: bool
  isAllZeros :: bool

text \<open>
  The packets that carry a store to the cache: the whole store, or one half of a split
  one. Two live packets of a queue differ in the index or the part, so that equality
  of packets is equality of the pointers. \<open>storeSender\<close> holds the \<^verbatim>\<open>LSQSenderState\<close>
  that the packets of the store at an index share; its instruction is in the packets.
\<close>

datatype store_part = WholeStore | LowHalf | HighHalf

record StorePkt =
  pkt_req :: Request
  pkt_bytes :: "8 word list"
  pkt_inst :: DynInstPtr
  pkt_idx :: nat
  pkt_part :: store_part

record LSQSenderState =
  ss_pendingPacket :: "StorePkt option"
  ss_outstanding :: nat
  ss_noWB :: bool
  ss_isSplit :: bool
  ss_pktToSend :: bool

record LSQUnit =
  storeQueue :: "SQEntry list"
  loadQueue :: "DynInstPtr option list"
  LQEntries :: nat
  SQEntries :: nat
  depCheckShift :: nat
  checkLoads :: bool
  loads :: int
  loadsToVLD :: int
  stores :: int
  storesToWB :: int
  loadHead :: nat
  loadTail :: nat
  storeHead :: nat
  storeWBIdx :: nat
  storeTail :: nat
  cacheStorePorts :: int
  usedStorePorts :: int
  cacheBlockMask :: Addr
  stalled :: bool
  stallingStoreIsn :: InstSeqNum
  stallingLoadIdx :: nat
  isStoreBlocked :: bool
  storeInFlight :: bool
  memDepViolator :: "DynInstPtr option"
  oblsMissInst :: "DynInstPtr option"
  retryPkt :: "StorePkt option"
  hasPendingPkt :: bool
  pendingPkt :: "StorePkt option"
  storeSender :: "nat \<Rightarrow> LSQSenderState option"

definition SQEntry_of :: "DynInstPtr option \<Rightarrow> SQEntry" where
  "SQEntry_of inst =
     \<lparr>sq_data = replicate 16 0, sq_inst = inst, sq_req = None, sq_sreqLow = None, sq_sreqHigh = None,
      sq_size = 0, isSplit = False, canWB = False, sq_committed = False, sq_completed = False, isAllZeros = False\<rparr>"

text \<open>
  \<^verbatim>\<open>cacheLineSize()\<close> is an \<^verbatim>\<open>unsigned int\<close>: the complement is taken on 32 bits and then
  extended by zeros to an address.
\<close>

definition lsq_resetState :: "32 word \<Rightarrow> LSQUnit \<Rightarrow> LSQUnit" where
  "lsq_resetState cacheLineSize u =
     u\<lparr>loads := 0, stores := 0, loadsToVLD := 0, storesToWB := 0, loadHead := 0, loadTail := 0,
       storeHead := 0, storeWBIdx := 0, storeTail := 0, usedStorePorts := 0, retryPkt := None, memDepViolator := None,
       oblsMissInst := None, stalled := False, cacheBlockMask := ucast (NOT (cacheLineSize - 1))\<rparr>"

definition mk_LSQUnit :: "nat \<Rightarrow> nat \<Rightarrow> nat \<Rightarrow> bool \<Rightarrow> int \<Rightarrow> 32 word \<Rightarrow> LSQUnit option" where
  "mk_LSQUnit maxLQEntries maxSQEntries LSQDepCheckShift LSQCheckLoads storePorts cacheLineSize = do {
     let LQ = (maxLQEntries + 1) mod 2 ^ 32;
     let SQ = (maxSQEntries + 1) mod 2 ^ 32;
     assertion (LQ \<le> 256);
     assertion (SQ \<le> 256);
     Some (lsq_resetState cacheLineSize
       \<lparr>storeQueue = replicate SQ (SQEntry_of None), loadQueue = replicate LQ None, LQEntries = LQ, SQEntries = SQ,
        depCheckShift = LSQDepCheckShift, checkLoads = LSQCheckLoads, loads = 0, loadsToVLD = 0, stores = 0,
        storesToWB = 0, loadHead = 0, loadTail = 0, storeHead = 0, storeWBIdx = 0, storeTail = 0,
        cacheStorePorts = storePorts, usedStorePorts = 0, cacheBlockMask = 0, stalled = False,
        stallingStoreIsn = 0, stallingLoadIdx = 0, isStoreBlocked = False, storeInFlight = False,
        memDepViolator = None, oblsMissInst = None, retryPkt = None, hasPendingPkt = False, pendingPkt = None,
        storeSender = (\<lambda>_. None)\<rparr>)
   }"

definition lsq_takeOverFrom :: "32 word \<Rightarrow> LSQUnit \<Rightarrow> LSQUnit" where
  "lsq_takeOverFrom cacheLineSize u = lsq_resetState cacheLineSize u"

definition clearLQ :: "LSQUnit \<Rightarrow> LSQUnit" where
  "clearLQ u = u\<lparr>loadQueue := []\<rparr>"

definition clearSQ :: "LSQUnit \<Rightarrow> LSQUnit" where
  "clearSQ u = u\<lparr>storeQueue := []\<rparr>"

definition resizeLQ :: "nat \<Rightarrow> LSQUnit \<Rightarrow> LSQUnit option" where
  "resizeLQ new_size u = do {
     let size_plus_sentinel = (new_size + 1) mod 2 ^ 32;
     assertion (LQEntries u \<le> size_plus_sentinel);
     let u = (if size_plus_sentinel > LQEntries u
              then let n = size_plus_sentinel - length (loadQueue u)
                   in u\<lparr>loadQueue := loadQueue u @ replicate n None, LQEntries := LQEntries u + n\<rparr>
              else u\<lparr>LQEntries := size_plus_sentinel\<rparr>);
     assertion (LQEntries u \<le> 256);
     Some u
   }"

definition resizeSQ :: "nat \<Rightarrow> LSQUnit \<Rightarrow> LSQUnit option" where
  "resizeSQ new_size u = do {
     let size_plus_sentinel = (new_size + 1) mod 2 ^ 32;
     let u = (if size_plus_sentinel > SQEntries u
              then let n = size_plus_sentinel - length (storeQueue u)
                   in u\<lparr>storeQueue := storeQueue u @ replicate n (SQEntry_of None), SQEntries := SQEntries u + n\<rparr>
              else u\<lparr>SQEntries := size_plus_sentinel\<rparr>);
     assertion (SQEntries u \<le> 256);
     Some u
   }"

section \<open>Indices and counts\<close>

definition incrStIdx :: "LSQUnit \<Rightarrow> nat \<Rightarrow> nat" where
  "incrStIdx u = next_idx (SQEntries u)"

definition decrStIdx :: "LSQUnit \<Rightarrow> nat \<Rightarrow> nat" where
  "decrStIdx u = prev_idx (SQEntries u)"

definition incrLdIdx :: "LSQUnit \<Rightarrow> nat \<Rightarrow> nat" where
  "incrLdIdx u = next_idx (LQEntries u)"

definition decrLdIdx :: "LSQUnit \<Rightarrow> nat \<Rightarrow> nat" where
  "decrLdIdx u = prev_idx (LQEntries u)"

text \<open>The differences are taken in \<^verbatim>\<open>unsigned\<close>.\<close>

definition numFreeLoadEntries :: "LSQUnit \<Rightarrow> nat" where
  "numFreeLoadEntries u = nat ((int (LQEntries u) - loads u - 1) mod 2 ^ 32)"

definition numFreeStoreEntries :: "LSQUnit \<Rightarrow> nat" where
  "numFreeStoreEntries u = nat ((int (SQEntries u) - stores u - 1) mod 2 ^ 32)"

definition lqFull :: "LSQUnit \<Rightarrow> bool" where
  "lqFull u \<longleftrightarrow> loads u mod 2 ^ 32 \<ge> (int (LQEntries u) - 1) mod 2 ^ 32"

definition sqFull :: "LSQUnit \<Rightarrow> bool" where
  "sqFull u \<longleftrightarrow> stores u mod 2 ^ 32 \<ge> (int (SQEntries u) - 1) mod 2 ^ 32"

definition lsq_isFull :: "LSQUnit \<Rightarrow> bool" where
  "lsq_isFull u \<longleftrightarrow> lqFull u \<or> sqFull u"

definition lsq_isEmpty :: "LSQUnit \<Rightarrow> bool" where
  "lsq_isEmpty u \<longleftrightarrow> loads u = 0 \<and> stores u = 0"

text \<open>Reading the instruction in an entry; a null pointer that is dereferenced is a trap.\<close>

definition load_at :: "LSQUnit \<Rightarrow> nat \<Rightarrow> DynInstPtr option" where
  "load_at u i = do { e \<leftarrow> vec_get (loadQueue u) i; e }"

definition store_at :: "LSQUnit \<Rightarrow> nat \<Rightarrow> (SQEntry \<times> DynInstPtr) option" where
  "store_at u i = do { e \<leftarrow> vec_get (storeQueue u) i; p \<leftarrow> sq_inst e; Some (e, p) }"

definition getLoadHeadSeqNum :: "LSQUnit \<Rightarrow> inst_heap \<Rightarrow> InstSeqNum option" where
  "getLoadHeadSeqNum u h = do {
     e \<leftarrow> vec_get (loadQueue u) (loadHead u);
     Some (case e of Some p \<Rightarrow> seqNum (h p) | None \<Rightarrow> 0)
   }"

definition getStoreHeadSeqNum :: "LSQUnit \<Rightarrow> inst_heap \<Rightarrow> InstSeqNum option" where
  "getStoreHeadSeqNum u h = do {
     e \<leftarrow> vec_get (storeQueue u) (storeHead u);
     Some (case sq_inst e of Some p \<Rightarrow> seqNum (h p) | None \<Rightarrow> 0)
   }"

definition willWB :: "LSQUnit \<Rightarrow> bool option" where
  "willWB u = do {
     e \<leftarrow> vec_get (storeQueue u) (storeWBIdx u);
     Some (canWB e \<and> \<not> sq_completed e \<and> \<not> isStoreBlocked u)
   }"

definition lsq_drainSanityCheck :: "LSQUnit \<Rightarrow> unit option" where
  "lsq_drainSanityCheck u = do {
     assertion (\<forall>e\<in>set (loadQueue u). e = None);
     assertion (storesToWB u = 0);
     assertion (loadsToVLD u = 0)
   }"

text \<open>
  The loops that walk a queue from an index to a tail: the body says whether to go on.
  The fuel is the number of entries, which a walk inside the ring cannot exceed.
\<close>

fun walk :: "nat \<Rightarrow> nat \<Rightarrow> (nat \<Rightarrow> 's \<Rightarrow> (bool \<times> 's) option) \<Rightarrow> nat \<Rightarrow> nat \<Rightarrow> 's \<Rightarrow> 's option" where
  "walk 0 n body i stop s = (if i = stop then Some s else None)"
| "walk (Suc fuel) n body i stop s =
     (if i = stop then Some s
      else do {
        (go, s) \<leftarrow> body i s;
        if go then walk fuel n body (next_idx n i) stop s else Some s
      })"

section \<open>Insertion\<close>

definition set_idx :: "int \<Rightarrow> int \<Rightarrow> DynInst \<Rightarrow> DynInst" where
  "set_idx lq sq i = i\<lparr>ldst := (ldst i)\<lparr>lqIdx := lq, sqIdx := sq\<rparr>\<rparr>"

definition insertLoad ::
  "bool \<Rightarrow> DynInstPtr \<Rightarrow> LSQUnit \<times> inst_heap \<times> loc_pred \<Rightarrow> (LSQUnit \<times> inst_heap \<times> loc_pred) option" where
  "insertLoad mldom load_inst s = do {
     let (u, h, p) = s;
     assertion ((loadTail u + 1) mod LQEntries u \<noteq> loadHead u);
     assertion (0 \<le> loads u \<and> loads u < int (LQEntries u));
     let h = modify load_inst (set_idx (int (loadTail u)) (if stores u = 0 then -1 else int (storeTail u))) h;
     q \<leftarrow> vec_set (loadQueue u) (loadTail u) (Some load_inst);
     p \<leftarrow> (if mldom then prepare p (pc (h load_inst)) (seqNum (h load_inst)) else Some p);
     Some (u\<lparr>loadQueue := q, loadTail := incrLdIdx u (loadTail u), loads := loads u + 1\<rparr>, h, p)
   }"

definition insertStore :: "DynInstPtr \<Rightarrow> LSQUnit \<times> inst_heap \<Rightarrow> (LSQUnit \<times> inst_heap) option" where
  "insertStore store_inst s = do {
     let (u, h) = s;
     assertion ((storeTail u + 1) mod SQEntries u \<noteq> storeHead u);
     assertion (0 \<le> stores u \<and> stores u < int (SQEntries u));
     let h = modify store_inst (set_idx (int (loadTail u)) (int (storeTail u))) h;
     q \<leftarrow> vec_set (storeQueue u) (storeTail u) (SQEntry_of (Some store_inst));
     Some (u\<lparr>storeQueue := q, storeTail := incrStIdx u (storeTail u), stores := stores u + 1\<rparr>, h)
   }"

definition lsq_insert ::
  "bool \<Rightarrow> DynInstPtr \<Rightarrow> LSQUnit \<times> inst_heap \<times> loc_pred \<Rightarrow> (LSQUnit \<times> inst_heap \<times> loc_pred) option" where
  "lsq_insert mldom inst s = do {
     let (u, h, p) = s;
     assertion (isMemRef (h inst));
     assertion (isLoad (h inst) \<or> isStore (h inst));
     (u, h, p) \<leftarrow> (if isLoad (h inst) then insertLoad mldom inst (u, h, p)
                   else do { (u, h) \<leftarrow> insertStore inst (u, h); Some (u, h, p) });
     Some (u, modify inst (set_status LsqEntry) h, p)
   }"

section \<open>Commit\<close>

definition commitLoad :: "LSQUnit \<Rightarrow> LSQUnit option" where
  "commitLoad u = do {
     _ \<leftarrow> load_at u (loadHead u);
     q \<leftarrow> vec_set (loadQueue u) (loadHead u) None;
     Some (u\<lparr>loadQueue := q, loadHead := incrLdIdx u (loadHead u), loads := loads u - 1\<rparr>)
   }"

text \<open>
  The loop runs while \<^verbatim>\<open>loads\<close> is not 0, at most once per load in the queue; a negative
  count, with which it would not stop at 0, is a trap.
\<close>

fun commit_loads :: "nat \<Rightarrow> InstSeqNum \<Rightarrow> inst_heap \<Rightarrow> LSQUnit \<Rightarrow> LSQUnit option" where
  "commit_loads 0 youngest_inst h u = Some u"
| "commit_loads (Suc n) youngest_inst h u = do {
     p \<leftarrow> load_at u (loadHead u);
     if seqNum (h p) \<le> youngest_inst
     then do { u \<leftarrow> commitLoad u; commit_loads n youngest_inst h u }
     else Some u
   }"

definition commitLoads :: "InstSeqNum \<Rightarrow> inst_heap \<Rightarrow> LSQUnit \<Rightarrow> LSQUnit option" where
  "commitLoads youngest_inst h u = do {
     e \<leftarrow> vec_get (loadQueue u) (loadHead u);
     assertion (loads u = 0 \<or> e \<noteq> None);
     assertion (0 \<le> loads u);
     commit_loads (nat (loads u)) youngest_inst h u
   }"

definition commit_store :: "InstSeqNum \<Rightarrow> inst_heap \<Rightarrow> nat \<Rightarrow> LSQUnit \<Rightarrow> (bool \<times> LSQUnit) option" where
  "commit_store youngest_inst h store_idx u = do {
     (e, p) \<leftarrow> store_at u store_idx;
     if canWB e then Some (True, u)
     else if seqNum (h p) > youngest_inst then Some (False, u)
     else do {
       q \<leftarrow> vec_set (storeQueue u) store_idx (e\<lparr>canWB := True\<rparr>);
       Some (True, u\<lparr>storeQueue := q, storesToWB := storesToWB u + 1\<rparr>)
     }
   }"

definition commitStores :: "InstSeqNum \<Rightarrow> inst_heap \<Rightarrow> LSQUnit \<Rightarrow> LSQUnit option" where
  "commitStores youngest_inst h u = do {
     e \<leftarrow> vec_get (storeQueue u) (storeHead u);
     assertion (stores u = 0 \<or> sq_inst e \<noteq> None);
     walk (SQEntries u) (SQEntries u) (commit_store youngest_inst h) (storeHead u) (storeTail u) u
   }"

section \<open>Squashing\<close>

definition squash_load_entry :: "nat \<Rightarrow> DynInstPtr \<Rightarrow> LSQUnit \<times> inst_heap \<Rightarrow> (LSQUnit \<times> inst_heap) option" where
  "squash_load_entry load_idx p s = do {
     let (u, h) = s;
     let u = (if stalled u \<and> load_idx = stallingLoadIdx u
              then u\<lparr>stalled := False, stallingStoreIsn := 0, stallingLoadIdx := 0\<rparr> else u);
     let u = (if needPostFetch (h p) \<and> readyToExpose (h p) \<and> \<not> isExposeSent (h p)
              then u\<lparr>loadsToVLD := loadsToVLD u - 1\<rparr> else u);
     let h = modify p (set_status Squashed) h;
     q \<leftarrow> vec_set (loadQueue u) load_idx None;
     Some (u\<lparr>loadQueue := q, loads := loads u - 1, loadTail := load_idx\<rparr>, h)
   }"

text \<open>The first argument is the number of loads, or stores, left in the queue.\<close>

fun squash_loads :: "nat \<Rightarrow> InstSeqNum \<Rightarrow> nat \<Rightarrow> LSQUnit \<times> inst_heap \<Rightarrow> (LSQUnit \<times> inst_heap) option" where
  "squash_loads 0 squashed_num load_idx s = Some s"
| "squash_loads (Suc n) squashed_num load_idx s = do {
     let (u, h) = s;
     p \<leftarrow> load_at u load_idx;
     if seqNum (h p) > squashed_num
     then do { s \<leftarrow> squash_load_entry load_idx p s; squash_loads n squashed_num (decrLdIdx u load_idx) s }
     else Some s
   }"

definition squash_store_entry :: "nat \<Rightarrow> SQEntry \<Rightarrow> DynInstPtr \<Rightarrow> LSQUnit \<times> inst_heap \<Rightarrow> (LSQUnit \<times> inst_heap) option" where
  "squash_store_entry store_idx e p s = do {
     let (u, h) = s;
     assertion (\<not> (stalled u \<and> seqNum (h p) = stallingStoreIsn u));
     let h = modify p (set_status Squashed) h;
     let e = e\<lparr>sq_inst := None, canWB := False, sq_req := None\<rparr>;
     let e = (if isSplit e then e\<lparr>sq_sreqLow := None, sq_sreqHigh := None\<rparr> else e);
     q \<leftarrow> vec_set (storeQueue u) store_idx e;
     Some (u\<lparr>storeQueue := q, stores := stores u - 1, storeTail := store_idx\<rparr>, h)
   }"

fun squash_stores :: "nat \<Rightarrow> InstSeqNum \<Rightarrow> nat \<Rightarrow> LSQUnit \<times> inst_heap \<Rightarrow> (LSQUnit \<times> inst_heap) option" where
  "squash_stores 0 squashed_num store_idx s = Some s"
| "squash_stores (Suc n) squashed_num store_idx s = do {
     let (u, h) = s;
     (e, p) \<leftarrow> store_at u store_idx;
     if seqNum (h p) > squashed_num \<and> \<not> canWB e
     then do { s \<leftarrow> squash_store_entry store_idx e p s; squash_stores n squashed_num (decrStIdx u store_idx) s }
     else Some s
   }"

text \<open>A remembered violator or missing load that is itself squashed is forgotten.\<close>

definition forget_younger :: "InstSeqNum \<Rightarrow> inst_heap \<Rightarrow> DynInstPtr option \<Rightarrow> DynInstPtr option" where
  "forget_younger squashed_num h v = (case v of
     Some p \<Rightarrow> (if squashed_num < seqNum (h p) then None else Some p) | None \<Rightarrow> None)"

definition lsq_squash ::
  "bool \<Rightarrow> InstSeqNum \<Rightarrow> LSQUnit \<times> inst_heap \<times> loc_pred \<Rightarrow> (LSQUnit \<times> inst_heap \<times> loc_pred) option" where
  "lsq_squash mldom squashed_num s = do {
     let (u, h, p) = s;
     assertion (0 \<le> loads u \<and> 0 \<le> stores u);
     (u, h) \<leftarrow> squash_loads (nat (loads u)) squashed_num (decrLdIdx u (loadTail u)) (u, h);
     let u = u\<lparr>memDepViolator := forget_younger squashed_num h (memDepViolator u),
              oblsMissInst := forget_younger squashed_num h (oblsMissInst u)\<rparr>;
     p \<leftarrow> (if mldom then squash p squashed_num else Some p);
     (u, h) \<leftarrow> squash_stores (nat (stores u)) squashed_num (decrStIdx u (storeTail u)) (u, h);
     Some (u, h, p)
   }"

definition getMemDepViolator :: "LSQUnit \<Rightarrow> DynInstPtr option \<times> LSQUnit" where
  "getMemDepViolator u = (memDepViolator u, u\<lparr>memDepViolator := None\<rparr>)"

definition getOblsMissInst :: "LSQUnit \<Rightarrow> DynInstPtr option \<times> LSQUnit" where
  "getOblsMissInst u = (oblsMissInst u, u\<lparr>oblsMissInst := None\<rparr>)"

section \<open>The speculation buffer\<close>

text \<open>The line of a request has been written or exposed: copies that loads hold of it are out of date.\<close>

definition mark_obsolete :: "Addr \<Rightarrow> Addr \<Rightarrow> DynInst \<Rightarrow> DynInst" where
  "mark_obsolete blk_mask req_eff_addr i =
     (if instFlags i EffAddrValid then
        if physEffAddrLow (ldst i) AND blk_mask = req_eff_addr then set_status SpecBufObsoleteLow i
        else if physEffAddrHigh (ldst i) AND blk_mask = req_eff_addr then set_status SpecBufObsoleteHigh i
        else i
      else i)"

definition setSpecBufState :: "Request \<Rightarrow> LSQUnit \<Rightarrow> inst_heap \<Rightarrow> inst_heap option" where
  "setSpecBufState expose_req u h =
     walk (LQEntries u) (LQEntries u)
       (\<lambda>load_idx h. do {
          p \<leftarrow> load_at u load_idx;
          Some (True, modify p (mark_obsolete (cacheBlockMask u) (getPaddr expose_req AND cacheBlockMask u)) h)
        }) (loadHead u) (loadTail u) h"

section \<open>Stores\<close>

text \<open>Writing the data of a store into its entry; the size is kept in a \<^verbatim>\<open>uint8_t\<close>.\<close>

definition lsq_write ::
  "bool \<Rightarrow> Request \<Rightarrow> Request option \<Rightarrow> Request option \<Rightarrow> 8 word list \<Rightarrow> nat \<Rightarrow> LSQUnit \<Rightarrow> LSQUnit option" where
  "lsq_write HasUnalignedMemAcc req sreqLow sreqHigh bytes store_idx u = do {
     (e, _) \<leftarrow> store_at u store_idx;
     let e = e\<lparr>sq_req := Some req, sq_sreqLow := sreqLow, sq_sreqHigh := sreqHigh,
               sq_size := getSize req mod 256, isAllZeros := is_STORE_NO_DATA req\<rparr>;
     assertion (getSize req \<le> 16 \<or> is_STORE_NO_DATA req);
     let e = (if HasUnalignedMemAcc \<and> sreqLow \<noteq> None then e\<lparr>isSplit := True\<rparr> else e);
     e \<leftarrow> (if \<not> is_CACHE_BLOCK_ZERO req \<and> \<not> isCacheMaintenance req
           then do {
             assertion (getSize req \<le> length bytes \<and> getSize req \<le> length (sq_data e));
             Some (e\<lparr>sq_data := take (getSize req) bytes @ drop (getSize req) (sq_data e)\<rparr>)
           }
           else Some e);
     q \<leftarrow> vec_set (storeQueue u) store_idx e;
     Some (u\<lparr>storeQueue := q\<rparr>)
   }"

text \<open>
  The store at \<^verbatim>\<open>storeWBIdx\<close> has been handed to the cache. The second component of the
  result is the load that \<^verbatim>\<open>replayMemInst\<close> sends back to the instruction queue.
\<close>

definition unstall :: "InstSeqNum \<Rightarrow> LSQUnit \<Rightarrow> (LSQUnit \<times> DynInstPtr option) option" where
  "unstall store_isn u =
     (if stalled u \<and> store_isn = stallingStoreIsn u then do {
        l \<leftarrow> load_at u (stallingLoadIdx u);
        Some (u\<lparr>stalled := False, stallingStoreIsn := 0\<rparr>, Some l)
      } else Some (u, None))"

definition storePostSend ::
  "cpu_config \<Rightarrow> LSQUnit \<times> inst_heap \<Rightarrow> (LSQUnit \<times> inst_heap \<times> DynInstPtr option) option" where
  "storePostSend c s = do {
     let (u, h) = s;
     (e, p) \<leftarrow> store_at u (storeWBIdx u);
     (u, replay) \<leftarrow> unstall (seqNum (h p)) u;
     let h = (if si_isStoreConditional (staticInst (h p)) then h else modify p (set_status Completed) h);
     let u = (if needsTSO c then u\<lparr>storeInFlight := True\<rparr> else u);
     Some (u\<lparr>storeWBIdx := incrStIdx u (storeWBIdx u)\<rparr>, h, replay)
   }"

text \<open>The \<^verbatim>\<open>do\<close> loop that frees the completed stores at the head.\<close>

fun free_head_stores :: "nat \<Rightarrow> LSQUnit \<Rightarrow> LSQUnit option" where
  "free_head_stores 0 u = None"
| "free_head_stores (Suc fuel) u = do {
     let u = u\<lparr>storeHead := incrStIdx u (storeHead u), stores := stores u - 1\<rparr>;
     e \<leftarrow> vec_get (storeQueue u) (storeHead u);
     if sq_completed e \<and> storeHead u \<noteq> storeTail u then free_head_stores fuel u else Some u
   }"

definition completeStore ::
  "cpu_config \<Rightarrow> nat \<Rightarrow> LSQUnit \<times> inst_heap \<Rightarrow> (LSQUnit \<times> inst_heap \<times> DynInstPtr option) option" where
  "completeStore c store_idx s = do {
     let (u, h) = s;
     (e, p) \<leftarrow> store_at u store_idx;
     q \<leftarrow> vec_set (storeQueue u) store_idx (e\<lparr>sq_completed := True\<rparr>);
     let u = u\<lparr>storeQueue := q, storesToWB := storesToWB u - 1\<rparr>;
     u \<leftarrow> (if store_idx = storeHead u then free_head_stores (SQEntries u) u else Some u);
     (u, replay) \<leftarrow> unstall (seqNum (h p)) u;
     let h = modify p (set_status Completed) h;
     let u = (if needsTSO c then u\<lparr>storeInFlight := False\<rparr> else u);
     Some (u, h, replay)
   }"

end
