(* ===== verification/LSQ_Queue.thy ===== *)
theory LSQ_Queue
  imports LSQ
begin

text \<open>
  The load queue as a list in program order: insertion appends, commit removes the
  oldest loads, a squash removes the youngest.
\<close>

section \<open>The load queue\<close>

definition lq_inv :: "LSQUnit \<Rightarrow> bool" where
  "lq_inv u \<longleftrightarrow> length (loadQueue u) = LQEntries u \<and> loadHead u < LQEntries u \<and> 0 \<le> loads u \<and>
     loads u < int (LQEntries u) \<and> loadTail u = (loadHead u + nat (loads u)) mod LQEntries u \<and>
     (\<forall>k<LQEntries u. loadQueue u ! ((loadHead u + k) mod LQEntries u) \<noteq> None \<longleftrightarrow> k < nat (loads u))"

definition load_list :: "LSQUnit \<Rightarrow> DynInstPtr list" where
  "load_list u = map the (ring (loadQueue u) (loadHead u) (nat (loads u)))"

text \<open>What the operations on one side leave alone.\<close>

definition same_stores :: "LSQUnit \<Rightarrow> LSQUnit \<Rightarrow> bool" where
  "same_stores u u' \<longleftrightarrow> storeQueue u' = storeQueue u \<and> SQEntries u' = SQEntries u \<and> stores u' = stores u \<and>
     storesToWB u' = storesToWB u \<and> storeHead u' = storeHead u \<and> storeWBIdx u' = storeWBIdx u \<and> storeTail u' = storeTail u"

definition same_loads :: "LSQUnit \<Rightarrow> LSQUnit \<Rightarrow> bool" where
  "same_loads u u' \<longleftrightarrow> loadQueue u' = loadQueue u \<and> LQEntries u' = LQEntries u \<and> loads u' = loads u \<and>
     loadHead u' = loadHead u \<and> loadTail u' = loadTail u"

definition same_stall :: "LSQUnit \<Rightarrow> LSQUnit \<Rightarrow> bool" where
  "same_stall u u' \<longleftrightarrow> stalled u' = stalled u \<and> stallingStoreIsn u' = stallingStoreIsn u \<and> stallingLoadIdx u' = stallingLoadIdx u \<and>
     memDepViolator u' = memDepViolator u \<and> oblsMissInst u' = oblsMissInst u"

lemma same_stall_refl [simp]: "same_stall u u"
  by (simp add: same_stall_def)

lemma same_stores_refl [simp]: "same_stores u u" and same_loads_refl [simp]: "same_loads u u"
  by (simp_all add: same_stores_def same_loads_def)

lemma same_stores_trans: "same_stores u v \<Longrightarrow> same_stores v w \<Longrightarrow> same_stores u w"
  and same_loads_trans: "same_loads u v \<Longrightarrow> same_loads v w \<Longrightarrow> same_loads u w"
  by (simp_all add: same_stores_def same_loads_def)

lemma same_loads_inv: "same_loads u u' \<Longrightarrow> lq_inv u' = lq_inv u" "same_loads u u' \<Longrightarrow> load_list u' = load_list u"
  by (simp_all add: same_loads_def lq_inv_def load_list_def)

lemma length_load_list [simp]: "length (load_list u) = nat (loads u)"
  by (simp add: load_list_def)

lemma lq_invD:
  assumes "lq_inv u"
  shows "length (loadQueue u) = LQEntries u" "loadHead u < LQEntries u" "0 \<le> loads u" "nat (loads u) < LQEntries u"
    "loadTail u = (loadHead u + nat (loads u)) mod LQEntries u" "0 < LQEntries u" "loadTail u < LQEntries u"
    "k < LQEntries u \<Longrightarrow> loadQueue u ! ((loadHead u + k) mod LQEntries u) \<noteq> None \<longleftrightarrow> k < nat (loads u)"
  using assms by (auto simp: lq_inv_def intro!: mod_less_divisor)

lemma load_slot:
  assumes "lq_inv u" "k < nat (loads u)"
  shows "load_at u ((loadHead u + k) mod LQEntries u) = Some (load_list u ! k)"
    "loadQueue u ! ((loadHead u + k) mod LQEntries u) = Some (load_list u ! k)"
proof -
  note d = lq_invD [OF assms(1)]
  have "loadQueue u ! ((loadHead u + k) mod LQEntries u) \<noteq> None" using d(4,8) assms(2) by simp
  then show s: "loadQueue u ! ((loadHead u + k) mod LQEntries u) = Some (load_list u ! k)"
    using assms(2) d(1) by (simp add: load_list_def)
  have "(loadHead u + k) mod LQEntries u < LQEntries u" using d(6) by simp
  then show "load_at u ((loadHead u + k) mod LQEntries u) = Some (load_list u ! k)" using s d(1) by (simp add: load_at_def)
qed

lemma lq_full_iff:
  assumes "lq_inv u"
  shows "(loadTail u + 1) mod LQEntries u = loadHead u \<longleftrightarrow> nat (loads u) + 1 = LQEntries u"
proof -
  note d = lq_invD [OF assms]
  have "(loadTail u + 1) mod LQEntries u = (loadHead u + (nat (loads u) + 1)) mod LQEntries u"
    using d(5) by (simp add: mod_simps)
  moreover have "(loadHead u + (nat (loads u) + 1)) mod LQEntries u = loadHead u \<longleftrightarrow> nat (loads u) + 1 = LQEntries u"
  proof
    assume e: "(loadHead u + (nat (loads u) + 1)) mod LQEntries u = loadHead u"
    show "nat (loads u) + 1 = LQEntries u"
    proof (rule ccontr)
      assume "nat (loads u) + 1 \<noteq> LQEntries u"
      then have "nat (loads u) + 1 < LQEntries u" using d(4) by simp
      moreover have "(loadHead u + (nat (loads u) + 1)) mod LQEntries u = (loadHead u + 0) mod LQEntries u" using e d(2) by simp
      ultimately show False using ring_slot_inj [of "loadHead u" "nat (loads u) + 1" "LQEntries u" 0] d(6) by simp
    qed
  next
    assume "nat (loads u) + 1 = LQEntries u"
    then show "(loadHead u + (nat (loads u) + 1)) mod LQEntries u = loadHead u" using d(2) by simp
  qed
  ultimately show ?thesis by simp
qed

lemma lq_push:
  assumes "lq_inv u" "nat (loads u) + 1 < LQEntries u"
    and "loadQueue v = (loadQueue u)[loadTail u := Some x]" "loadTail v = incrLdIdx u (loadTail u)" "loads v = loads u + 1"
    and "LQEntries v = LQEntries u" "loadHead v = loadHead u"
  shows "lq_inv v" "load_list v = load_list u @ [x]"
proof -
  note d = lq_invD [OF assms(1)]
  let ?n = "LQEntries u" and ?h = "loadHead u" and ?k = "nat (loads u)"
  have k: "nat (loads v) = Suc ?k" using assms(5) d(3) by simp
  have q: "loadQueue v = (loadQueue u)[(?h + ?k) mod ?n := Some x]" using assms(3) d(5) by simp
  have "loadQueue v ! ((?h + j) mod ?n) \<noteq> None \<longleftrightarrow> j < Suc ?k" if "j < ?n" for j
    using that d(1,4,6) d(8) [of j] ring_slot_inj [of ?h j ?n ?k] by (auto simp: q nth_list_update less_Suc_eq)
  moreover have "loadTail v = (?h + Suc ?k) mod ?n"
    using next_idx_slot [of ?n ?h ?k] assms(4) d(5,6) by (simp add: incrLdIdx_def)
  ultimately show "lq_inv v" using assms(2,5-7) d k by (simp add: lq_inv_def q)
  show "load_list v = load_list u @ [x]"
    using ring_push [of ?k "loadQueue u" ?h "Some x"] d(1,4) assms(7) by (simp add: load_list_def k q)
qed

lemma lq_pop:
  assumes "lq_inv u" "0 < nat (loads u)"
    and "loadQueue v = (loadQueue u)[loadHead u := None]" "loadHead v = incrLdIdx u (loadHead u)" "loads v = loads u - 1"
    and "LQEntries v = LQEntries u" "loadTail v = loadTail u"
  shows "lq_inv v" "load_list v = tl (load_list u)"
proof -
  note d = lq_invD [OF assms(1)]
  let ?n = "LQEntries u" and ?h = "loadHead u" and ?k = "nat (loads u)"
  obtain m where m: "?k = Suc m" using assms(2) by (cases ?k) auto
  have k: "nat (loads v) = m" "loads u = int (Suc m)" using assms(5) m d(3) by simp_all
  have h: "loadHead v = Suc ?h mod ?n" using next_idx_mod d(2) assms(4) by (simp add: incrLdIdx_def)
  have slot: "(loadHead v + j) mod ?n = (?h + Suc j) mod ?n" for j by (simp add: h mod_simps)
  have empty: "loadQueue v ! ((?h + Suc j) mod ?n) = (if Suc j = ?n then None else loadQueue u ! ((?h + Suc j) mod ?n))"
    if "j < ?n" for j
  proof (cases "Suc j = ?n")
    case True
    then show ?thesis using d(1,2) by (simp add: assms(3))
  next
    case False
    then have "(?h + Suc j) mod ?n \<noteq> (?h + 0) mod ?n" using that ring_slot_inj [of ?h "Suc j" ?n 0] by auto
    then show ?thesis using False d(2) by (simp add: assms(3))
  qed
  have "loadQueue v ! ((loadHead v + j) mod ?n) \<noteq> None \<longleftrightarrow> j < m" if "j < ?n" for j
    using empty [OF that] d(8) [of "Suc j"] that m d(4) unfolding slot by (cases "Suc j = ?n") auto
  moreover have "loadTail v = (loadHead v + m) mod ?n" using assms(7) d(5) m slot [of m] by simp
  moreover have "loadHead v < ?n" using h d(6) by simp
  ultimately show "lq_inv v" using assms(3,5-7) d m k by (simp add: lq_inv_def)
  have "ring (loadQueue v) (loadHead v) m = ring (loadQueue u) (Suc ?h) m"
  proof (rule nth_equalityI)
    fix j assume "j < length (ring (loadQueue v) (loadHead v) m)"
    then have j: "j < m" by simp
    then show "ring (loadQueue v) (loadHead v) m ! j = ring (loadQueue u) (Suc ?h) m ! j"
      using empty [of j] slot [of j] d(1,4) m by (simp add: assms(3))
  qed simp
  then show "load_list v = tl (load_list u)" by (simp add: load_list_def k(1) m ring_Cons)
qed

lemma lq_pop_back:
  assumes "lq_inv u" "nat (loads u) = Suc m" "i = (loadHead u + m) mod LQEntries u"
    and "loadQueue v = (loadQueue u)[i := None]" "loads v = loads u - 1" "loadTail v = i"
    and "LQEntries v = LQEntries u" "loadHead v = loadHead u"
  shows "lq_inv v" "load_list v = butlast (load_list u)"
proof -
  note d = lq_invD [OF assms(1)]
  let ?n = "LQEntries u" and ?h = "loadHead u"
  have k: "nat (loads v) = m" "loads u = int (Suc m)" using assms(2,5) d(3) by simp_all
  have q: "loadQueue v = (loadQueue u)[(?h + m) mod ?n := None]" using assms(3,4) by simp
  have "loadQueue v ! ((?h + j) mod ?n) \<noteq> None \<longleftrightarrow> j < m" if "j < ?n" for j
    using that d(1,4,6) d(8) [of j] assms(2) ring_slot_inj [of ?h j ?n m] by (auto simp: q nth_list_update less_Suc_eq)
  then show "lq_inv v" using assms(2-8) d k by (simp add: lq_inv_def)
  have "ring (loadQueue v) ?h m = ring (loadQueue u) ?h m"
    using ring_update_out [of m m "loadQueue u" ?h None] d(1,4) assms(2) by (simp add: q)
  then show "load_list v = butlast (load_list u)" by (simp add: load_list_def k(1) assms(2,8) ring_Suc)
qed

section \<open>Operations on the load queue\<close>

lemma insertLoad_ok:
  assumes "lq_inv u" "nat (loads u) + 1 < LQEntries u"
    and "mldom \<Longrightarrow> prepare p (pc (h x)) (seqNum (h x)) = Some p'" "\<not> mldom \<Longrightarrow> p' = p"
  shows "\<exists>u' h'. insertLoad mldom x (u, h, p) = Some (u', h', p') \<and> lq_inv u' \<and> load_list u' = load_list u @ [x] \<and>
    same_stores u u' \<and> same_stall u u' \<and> LQEntries u' = LQEntries u \<and> loadHead u' = loadHead u \<and>
    h' = modify x (set_idx (int (loadTail u)) (if stores u = 0 then -1 else int (storeTail u))) h"
proof -
  note d = lq_invD [OF assms(1)]
  let ?u = "u\<lparr>loadQueue := (loadQueue u)[loadTail u := Some x], loadTail := incrLdIdx u (loadTail u), loads := loads u + 1\<rparr>"
  let ?h = "modify x (set_idx (int (loadTail u)) (if stores u = 0 then -1 else int (storeTail u))) h"
  have a: "(loadTail u + 1) mod LQEntries u \<noteq> loadHead u" "0 \<le> loads u \<and> loads u < int (LQEntries u)" "loadTail u < length (loadQueue u)"
    using assms(2) lq_full_iff [OF assms(1)] d by simp_all
  have "(if mldom then prepare p (pc (?h x)) (seqNum (?h x)) else Some p) = Some p'"
    using assms(3,4) by (simp add: modify_def set_idx_def)
  then have "insertLoad mldom x (u, h, p) = Some (?u, ?h, p')"
    using a by (simp add: insertLoad_def Let_def del: One_nat_def)
  moreover have "lq_inv ?u" "load_list ?u = load_list u @ [x]"
    by (rule lq_push [OF assms(1,2)]; simp)+
  ultimately show ?thesis by (simp add: same_stores_def same_stall_def)
qed

lemma commit_loads_ok:
  assumes "lq_inv u"
  shows "\<exists>u'. commit_loads (nat (loads u)) y h u = Some u' \<and> lq_inv u' \<and>
    load_list u' = dropWhile (\<lambda>p. seqNum (h p) \<le> y) (load_list u) \<and> same_stores u u' \<and> same_stall u u' \<and>
    LQEntries u' = LQEntries u \<and> loadHead u' = (loadHead u + (nat (loads u) - nat (loads u'))) mod LQEntries u"
  using assms
proof (induction "nat (loads u)" arbitrary: u)
  case 0
  then have "load_list u = []" by (metis length_0_conv length_load_list)
  then show ?case using 0 lq_invD(2) [OF 0(2)] by (intro exI [of _ u]) (simp add: 0(1) [symmetric])
next
  case (Suc n)
  note d = lq_invD [OF Suc.prems]
  obtain p L where L: "load_list u = p # L" using Suc.hyps(2) by (metis length_load_list length_Suc_conv)
  have head: "load_at u (loadHead u) = Some p" using load_slot(1) [OF Suc.prems, of 0] Suc.hyps(2) d(2) L by simp
  let ?u = "u\<lparr>loadQueue := (loadQueue u)[loadHead u := None], loadHead := incrLdIdx u (loadHead u), loads := loads u - 1\<rparr>"
  show ?case
  proof (cases "seqNum (h p) \<le> y")
    case True
    have inv: "lq_inv ?u" "load_list ?u = L" using lq_pop [OF Suc.prems, of ?u] Suc.hyps(2) L by simp_all
    have n: "n = nat (loads ?u)" using Suc.hyps(2) by simp
    have "commitLoad u = Some ?u" using head d(1,2) by (simp add: commitLoad_def)
    then have step: "commit_loads (nat (loads u)) y h u = commit_loads (nat (loads ?u)) y h ?u"
      using True head n by (subst Suc.hyps(2) [symmetric]) simp
    from Suc.hyps(1) [OF n inv(1)] obtain u' where u': "commit_loads (nat (loads ?u)) y h ?u = Some u'" "lq_inv u'"
      "load_list u' = dropWhile (\<lambda>p. seqNum (h p) \<le> y) L" "same_stores ?u u'" "same_stall ?u u'"
      "LQEntries u' = LQEntries ?u" "loadHead u' = (loadHead ?u + (nat (loads ?u) - nat (loads u'))) mod LQEntries ?u"
      unfolding inv(2) by blast
    have "length (load_list u') \<le> length L" unfolding u'(3) by (rule length_dropWhile_le)
    then have "nat (loads u') \<le> n" using inv(2) n by (metis length_load_list)
    then have e: "Suc (loadHead u) + (n - nat (loads u')) = loadHead u + (nat (loads u) - nat (loads u'))"
      using Suc.hyps(2) by linarith
    have "loadHead ?u = Suc (loadHead u) mod LQEntries u" "LQEntries ?u = LQEntries u"
      using next_idx_mod d(2) by (simp_all add: incrLdIdx_def)
    then have hd: "loadHead u' = (loadHead u + (nat (loads u) - nat (loads u'))) mod LQEntries u"
      unfolding u'(7) n [symmetric] by (simp only: mod_add_left_eq e)
    have "same_stores u u'" "same_stall u u'" using u'(4,5) by (simp_all add: same_stores_def same_stall_def)
    then show ?thesis using u'(1-3,6) step True L hd by auto
  next
    case False
    then have "commit_loads (nat (loads u)) y h u = Some u" using head by (subst Suc.hyps(2) [symmetric]) simp
    then show ?thesis using False L Suc.prems d(2) by auto
  qed
qed

lemma commitLoads_ok:
  assumes "lq_inv u"
  shows "\<exists>u'. commitLoads y h u = Some u' \<and> lq_inv u' \<and>
    load_list u' = dropWhile (\<lambda>p. seqNum (h p) \<le> y) (load_list u) \<and> same_stores u u' \<and> same_stall u u' \<and>
    LQEntries u' = LQEntries u \<and> loadHead u' = (loadHead u + (nat (loads u) - nat (loads u'))) mod LQEntries u"
proof -
  note d = lq_invD [OF assms]
  have "loads u = 0 \<or> loadQueue u ! loadHead u \<noteq> None" using d(8) [of 0] d(2,3,6) by auto
  then have "commitLoads y h u = commit_loads (nat (loads u)) y h u"
    using d by (auto simp: commitLoads_def)
  then show ?thesis using commit_loads_ok [OF assms] by simp
qed

definition squash_heap :: "DynInstPtr set \<Rightarrow> inst_heap \<Rightarrow> inst_heap" where
  "squash_heap S h = (\<lambda>p. if p \<in> S then set_status Squashed (h p) else h p)"

lemma set_status_idem [simp]: "set_status s (set_status s i) = set_status s i"
  by (simp add: set_status_def)

lemma squash_heap_simps [simp]:
  "squash_heap {} h = h" "modify p (set_status Squashed) (squash_heap S h) = squash_heap (insert p S) h"
  "squash_heap S (modify p (set_status Squashed) h) = squash_heap (insert p S) h"
  "seqNum (squash_heap S h p) = seqNum (h p)"
  by (auto simp: squash_heap_def modify_def fun_eq_iff)

text \<open>
  A stalled queue waits for a store older than the load that stalled on it, and that load
  is in the queue.
\<close>

definition stall_inv :: "LSQUnit \<Rightarrow> inst_heap \<Rightarrow> bool" where
  "stall_inv u h \<longleftrightarrow> (stalled u \<longrightarrow> (\<exists>k<nat (loads u). stallingLoadIdx u = (loadHead u + k) mod LQEntries u \<and>
     stallingStoreIsn u < seqNum (h (load_list u ! k))))"

lemma stall_inv_heap: "(\<And>p. seqNum (h' p) = seqNum (h p)) \<Longrightarrow> stall_inv u h' = stall_inv u h"
  by (simp add: stall_inv_def)

lemma stall_inv_pop_back:
  assumes "stall_inv u h" "nat (loads u) = Suc n" "load_list v = butlast (load_list u)" "nat (loads v) = n"
    and "loadHead v = loadHead u" "LQEntries v = LQEntries u" "stallingLoadIdx v = stallingLoadIdx u"
    and "stallingStoreIsn v = stallingStoreIsn u" "stalled v \<Longrightarrow> stalled u \<and> stallingLoadIdx u \<noteq> (loadHead u + n) mod LQEntries u"
  shows "stall_inv v h"
  unfolding stall_inv_def
proof
  assume "stalled v"
  with assms(1,9) obtain k where k: "k < Suc n" "stallingLoadIdx u = (loadHead u + k) mod LQEntries u"
    "stallingStoreIsn u < seqNum (h (load_list u ! k))" "k \<noteq> n" unfolding stall_inv_def assms(2) by auto
  then have "load_list v ! k = load_list u ! k" using assms(2,3) by (simp add: nth_butlast)
  then show "\<exists>k<nat (loads v). stallingLoadIdx v = (loadHead v + k) mod LQEntries v \<and> stallingStoreIsn v < seqNum (h (load_list v ! k))"
    using k assms(4-8) by (intro exI [of _ k]) auto
qed

lemma squash_loads_ok:
  assumes "lq_inv u"
  shows "\<exists>u'. squash_loads (nat (loads u)) sq (decrLdIdx u (loadTail u)) (u, h) =
      Some (u', squash_heap (set (takeWhile (\<lambda>p. sq < seqNum (h p)) (rev (load_list u)))) h) \<and> lq_inv u' \<and>
    load_list u' = rev (dropWhile (\<lambda>p. sq < seqNum (h p)) (rev (load_list u))) \<and> same_stores u u' \<and>
    memDepViolator u' = memDepViolator u \<and> oblsMissInst u' = oblsMissInst u \<and> (stall_inv u h \<longrightarrow> stall_inv u' h) \<and>
    LQEntries u' = LQEntries u \<and> loadHead u' = loadHead u"
  using assms
proof (induction "nat (loads u)" arbitrary: u h)
  case 0
  then have "load_list u = []" by (metis length_0_conv length_load_list)
  then show ?case using 0 by (intro exI [of _ u]) (simp add: 0(1) [symmetric])
next
  case (Suc n)
  note d = lq_invD [OF Suc.prems]
  let ?i = "(loadHead u + n) mod LQEntries u"
  obtain L p where L: "load_list u = L @ [p]"
    using Suc.hyps(2) by (metis append_butlast_last_id length_load_list list.size(3) nat.distinct(1))
  have lenL: "length L = n" using L Suc.hyps(2) by (metis length_append_singleton length_load_list nat.inject)
  have i: "decrLdIdx u (loadTail u) = ?i"
    using prev_idx_slot [of "LQEntries u" "loadHead u" n] d(5,6) Suc.hyps(2) by (simp add: decrLdIdx_def)
  have last: "load_at u ?i = Some p" using load_slot(1) [OF Suc.prems, of n] Suc.hyps(2) L lenL by (simp add: nth_append)
  show ?case
  proof (cases "sq < seqNum (h p)")
    case True
    define u0 where "u0 = (if stalled u \<and> ?i = stallingLoadIdx u
      then u\<lparr>stalled := False, stallingStoreIsn := 0, stallingLoadIdx := 0\<rparr> else u)"
    define u1 where "u1 = (if needPostFetch (h p) \<and> readyToExpose (h p) \<and> \<not> isExposeSent (h p)
      then u0\<lparr>loadsToVLD := loadsToVLD u0 - 1\<rparr> else u0)"
    define v where "v = u1\<lparr>loadQueue := (loadQueue u1)[?i := None], loads := loads u1 - 1, loadTail := ?i\<rparr>"
    have s: "same_stores u u1" "same_loads u u1" "memDepViolator u1 = memDepViolator u" "oblsMissInst u1 = oblsMissInst u"
      by (simp_all add: u1_def u0_def same_stores_def same_loads_def)
    have s5: "stalled u \<and> stallingLoadIdx u \<noteq> ?i \<and> stallingLoadIdx u1 = stallingLoadIdx u \<and> stallingStoreIsn u1 = stallingStoreIsn u"
      if "stalled u1"
    proof -
      have "stalled u1 = stalled u0" "stallingLoadIdx u1 = stallingLoadIdx u0" "stallingStoreIsn u1 = stallingStoreIsn u0"
        by (simp_all add: u1_def)
      then show ?thesis using that by (cases "stalled u \<and> ?i = stallingLoadIdx u") (auto simp: u0_def)
    qed
    have u1: "loadQueue u1 = loadQueue u" "LQEntries u1 = LQEntries u" "loads u1 = loads u" "loadHead u1 = loadHead u"
      using s(2) by (simp_all add: same_loads_def)
    have inv: "lq_inv v" "load_list v = L"
      using lq_pop_back [OF Suc.prems Suc.hyps(2) [symmetric] refl, of v] u1 L by (simp_all add: v_def)
    have n: "n = nat (loads v)" using Suc.hyps(2) u1(3) by (simp add: v_def)
    have "?i < length (loadQueue u1)" using d(1,6) u1(1) by simp
    then have step: "squash_loads (nat (loads u)) sq (decrLdIdx u (loadTail u)) (u, h) =
        squash_loads (nat (loads v)) sq (decrLdIdx v (loadTail v)) (v, modify p (set_status Squashed) h)"
      unfolding Suc.hyps(2) [symmetric] n [symmetric] i using True last u1(2)
      by (simp add: squash_load_entry_def Let_def u0_def [symmetric] u1_def [symmetric] decrLdIdx_def v_def cong: if_cong)
    have sn: "seqNum (modify p (set_status Squashed) h q) = seqNum (h q)" for q by (simp add: modify_def set_status_def)
    from Suc.hyps(1) [OF n inv(1), of "modify p (set_status Squashed) h"] obtain u' where
      u': "squash_loads (nat (loads v)) sq (decrLdIdx v (loadTail v)) (v, modify p (set_status Squashed) h) =
        Some (u', squash_heap (set (takeWhile (\<lambda>p. sq < seqNum (h p)) (rev L))) (modify p (set_status Squashed) h))" "lq_inv u'"
      "load_list u' = rev (dropWhile (\<lambda>p. sq < seqNum (h p)) (rev L))" "same_stores v u'"
      "memDepViolator u' = memDepViolator v" "oblsMissInst u' = oblsMissInst v"
      "stall_inv v (modify p (set_status Squashed) h) \<longrightarrow> stall_inv u' (modify p (set_status Squashed) h)"
      "LQEntries u' = LQEntries v" "loadHead u' = loadHead v"
      unfolding inv(2) sn by (elim exE conjE) (rule that)
    have st: "stall_inv u h \<longrightarrow> stall_inv u' h"
    proof
      assume a: "stall_inv u h"
      have "stall_inv v h"
      proof (cases "stalled u1")
        case True
        have "stalled v = stalled u1" "stallingLoadIdx v = stallingLoadIdx u1" "stallingStoreIsn v = stallingStoreIsn u1"
          "loadHead v = loadHead u" "LQEntries v = LQEntries u" "load_list v = butlast (load_list u)"
          using u1 inv(2) L by (simp_all add: v_def)
        with s5 [OF True] show ?thesis by (intro stall_inv_pop_back [OF a Suc.hyps(2) [symmetric] _ n [symmetric]]) auto
      qed (simp add: stall_inv_def v_def)
      then show "stall_inv u' h" using u'(7) unfolding stall_inv_def sn by blast
    qed
    have "same_stores u u'" using u'(4) s(1) by (simp add: same_stores_def v_def)
    moreover have "takeWhile (\<lambda>p. sq < seqNum (h p)) (rev (load_list u)) = p # takeWhile (\<lambda>p. sq < seqNum (h p)) (rev L)"
      "dropWhile (\<lambda>p. sq < seqNum (h p)) (rev (load_list u)) = dropWhile (\<lambda>p. sq < seqNum (h p)) (rev L)"
      using True L by simp_all
    ultimately show ?thesis unfolding step using u'(1-6,8,9) st s(3,4) u1(2,4) by (intro exI [of _ u']) (simp add: v_def)
  next
    case False
    then have "squash_loads (nat (loads u)) sq (decrLdIdx u (loadTail u)) (u, h) = Some (u, h)"
      unfolding Suc.hyps(2) [symmetric] i using last by simp
    then show ?thesis using False L Suc.prems by auto
  qed
qed

end
