(* ===== verification/LSQ_Store.thy ===== *)
theory LSQ_Store
  imports LSQ_Queue
begin

text \<open>
  The store queue as a list in program order, with the invariant that ties the counts
  to it: stores that may be written back are counted until they complete, and the
  head has not completed.
\<close>

definition store_entries :: "LSQUnit \<Rightarrow> SQEntry list" where
  "store_entries u = ring (storeQueue u) (storeHead u) (nat (stores u))"

definition store_list :: "LSQUnit \<Rightarrow> DynInstPtr list" where
  "store_list u = map (\<lambda>e. the (sq_inst e)) (store_entries u)"

definition pending_wb :: "SQEntry \<Rightarrow> bool" where
  "pending_wb e \<longleftrightarrow> canWB e \<and> \<not> sq_completed e"

definition sq_inv :: "LSQUnit \<Rightarrow> bool" where
  "sq_inv u \<longleftrightarrow> length (storeQueue u) = SQEntries u \<and> storeHead u < SQEntries u \<and> 0 \<le> stores u \<and>
     stores u < int (SQEntries u) \<and> storeTail u = (storeHead u + nat (stores u)) mod SQEntries u \<and>
     (\<forall>e\<in>set (store_entries u). sq_inst e \<noteq> None \<and> (sq_completed e \<longrightarrow> canWB e)) \<and>
     storesToWB u = int (length (filter pending_wb (store_entries u)))"

text \<open>The completed stores at the head have been freed.\<close>

definition head_pending :: "LSQUnit \<Rightarrow> bool" where
  "head_pending u \<longleftrightarrow> (\<forall>e es. store_entries u = e # es \<longrightarrow> \<not> sq_completed e)"

lemma length_store_entries [simp]: "length (store_entries u) = nat (stores u)" "length (store_list u) = nat (stores u)"
  by (simp_all add: store_entries_def store_list_def)

lemma sq_invD:
  assumes "sq_inv u"
  shows "length (storeQueue u) = SQEntries u" "storeHead u < SQEntries u" "0 \<le> stores u" "nat (stores u) < SQEntries u"
    "storeTail u = (storeHead u + nat (stores u)) mod SQEntries u" "0 < SQEntries u" "storeTail u < SQEntries u"
    "\<And>e. e \<in> set (store_entries u) \<Longrightarrow> sq_inst e \<noteq> None" "\<And>e. e \<in> set (store_entries u) \<Longrightarrow> sq_completed e \<Longrightarrow> canWB e"
    "storesToWB u = int (length (filter pending_wb (store_entries u)))"
  using assms by (auto simp: sq_inv_def intro!: mod_less_divisor)

lemma same_stores_inv:
  "same_stores u u' \<Longrightarrow> sq_inv u' = sq_inv u" "same_stores u u' \<Longrightarrow> store_entries u' = store_entries u"
  "same_stores u u' \<Longrightarrow> store_list u' = store_list u" "same_stores u u' \<Longrightarrow> head_pending u' = head_pending u"
  by (simp_all add: same_stores_def sq_inv_def store_entries_def store_list_def head_pending_def)

lemma store_slot:
  assumes "sq_inv u" "k < nat (stores u)"
  shows "vec_get (storeQueue u) ((storeHead u + k) mod SQEntries u) = Some (store_entries u ! k)"
    "store_at u ((storeHead u + k) mod SQEntries u) = Some (store_entries u ! k, store_list u ! k)"
proof -
  note d = sq_invD [OF assms(1)]
  have lt: "(storeHead u + k) mod SQEntries u < SQEntries u" using d(6) by simp
  show g: "vec_get (storeQueue u) ((storeHead u + k) mod SQEntries u) = Some (store_entries u ! k)"
    using assms(2) d(1) lt by (simp add: store_entries_def)
  have "sq_inst (store_entries u ! k) \<noteq> None" using d(8) assms(2) by simp
  then show "store_at u ((storeHead u + k) mod SQEntries u) = Some (store_entries u ! k, store_list u ! k)"
    using g assms(2) by (auto simp: store_at_def store_list_def)
qed

lemma sq_full_iff:
  assumes "sq_inv u"
  shows "(storeTail u + 1) mod SQEntries u = storeHead u \<longleftrightarrow> nat (stores u) + 1 = SQEntries u"
proof -
  note d = sq_invD [OF assms]
  let ?n = "SQEntries u" and ?h = "storeHead u" and ?k = "nat (stores u) + 1"
  have e: "(storeTail u + 1) mod ?n = (?h + ?k) mod ?n" using d(5) by (simp add: mod_simps)
  have "?k < ?n \<Longrightarrow> (?h + ?k) mod ?n \<noteq> (?h + 0) mod ?n" using ring_slot_inj [of ?h ?k ?n 0] d(6) by auto
  then show ?thesis unfolding e using d(2,4) by (cases "?k = ?n") auto
qed

lemma insertStore_ok:
  assumes "sq_inv u" "nat (stores u) + 1 < SQEntries u" "head_pending u"
  shows "\<exists>u'. insertStore x (u, h) = Some (u', modify x (set_idx (int (loadTail u)) (int (storeTail u))) h) \<and> sq_inv u' \<and>
    store_entries u' = store_entries u @ [SQEntry_of (Some x)] \<and> head_pending u' \<and> same_loads u u' \<and> same_stall u u' \<and>
    SQEntries u' = SQEntries u \<and> storeHead u' = storeHead u \<and> storeWBIdx u' = storeWBIdx u"
proof -
  note d = sq_invD [OF assms(1)]
  let ?e = "SQEntry_of (Some x)"
  let ?u = "u\<lparr>storeQueue := (storeQueue u)[storeTail u := ?e], storeTail := incrStIdx u (storeTail u), stores := stores u + 1\<rparr>"
  have a: "(storeTail u + 1) mod SQEntries u \<noteq> storeHead u" "0 \<le> stores u \<and> stores u < int (SQEntries u)"
    using assms(2) sq_full_iff [OF assms(1)] d by simp_all
  then have "insertStore x (u, h) = Some (?u, modify x (set_idx (int (loadTail u)) (int (storeTail u))) h)"
    using d(1,7) by (simp add: insertStore_def Let_def del: One_nat_def)
  moreover have k: "nat (stores ?u) = Suc (nat (stores u))" using d(3) by simp
  have se: "store_entries ?u = store_entries u @ [?e]"
    using ring_push [of "nat (stores u)" "storeQueue u" "storeHead u" ?e] d(1,4,5) unfolding store_entries_def k by simp
  moreover have "storeTail ?u = (storeHead u + Suc (nat (stores u))) mod SQEntries u"
    using next_idx_slot [of "SQEntries u" "storeHead u" "nat (stores u)"] d(5,6) by (simp add: incrStIdx_def)
  then have "sq_inv ?u"
    unfolding sq_inv_def se using d assms(2) k by (auto simp: SQEntry_of_def pending_wb_def)
  moreover have "head_pending ?u"
    using assms(3) unfolding head_pending_def se by (cases "store_entries u") (auto simp: SQEntry_of_def)
  ultimately show ?thesis by (simp add: same_loads_def same_stall_def)
qed

text \<open>Replacing one entry.\<close>

lemma sq_replace:
  assumes "sq_inv u" "k < nat (stores u)" "storeQueue v = (storeQueue u)[(storeHead u + k) mod SQEntries u := e]"
    and "SQEntries v = SQEntries u" "storeHead v = storeHead u" "stores v = stores u" "storeTail v = storeTail u"
    and "sq_inst e \<noteq> None" "sq_completed e \<longrightarrow> canWB e"
    and "storesToWB v = storesToWB u + (if pending_wb e then 1 else 0) - (if pending_wb (store_entries u ! k) then 1 else 0)"
  shows "sq_inv v" "store_entries v = (store_entries u)[k := e]"
proof -
  note d = sq_invD [OF assms(1)]
  have "nat (stores u) \<le> length (storeQueue u)" using d(1,4) by simp
  from ring_update [OF assms(2) this, of "storeHead u" e]
  show se: "store_entries v = (store_entries u)[k := e]" using d(1) assms(3,5,6) by (simp add: store_entries_def)
  have k: "k < length (store_entries u)" using assms(2) by simp
  have "int (length (filter pending_wb ((store_entries u)[k := e]))) =
      int (length (filter pending_wb (store_entries u))) + (if pending_wb e then 1 else 0) -
        (if pending_wb (store_entries u ! k) then 1 else 0)"
    by (rule length_filter_update [OF k])
  then show "sq_inv v"
    unfolding sq_inv_def se using d assms k by (auto dest!: subsetD [OF set_update_subset_insert])
qed

section \<open>Committing stores\<close>

text \<open>The stores that are not older than the youngest committed instruction keep their mark.\<close>

fun commit_entries :: "InstSeqNum \<Rightarrow> inst_heap \<Rightarrow> SQEntry list \<Rightarrow> SQEntry list" where
  "commit_entries y h [] = []"
| "commit_entries y h (e # es) =
     (if canWB e then e # commit_entries y h es
      else if seqNum (h (the (sq_inst e))) > y then e # es
      else e\<lparr>canWB := True\<rparr> # commit_entries y h es)"

lemma length_commit_entries [simp]: "length (commit_entries y h es) = length es"
  by (induction es) auto

lemma tail_slot_iff:
  assumes "sq_inv u" "k \<le> nat (stores u)"
  shows "(storeHead u + k) mod SQEntries u = storeTail u \<longleftrightarrow> k = nat (stores u)"
  using sq_invD(4,5) [OF assms(1)] assms(2) ring_slot_inj [of "storeHead u" k "SQEntries u" "nat (stores u)"] by auto

definition same_but_stores :: "LSQUnit \<Rightarrow> LSQUnit \<Rightarrow> bool" where
  "same_but_stores u u' \<longleftrightarrow> same_loads u u' \<and> same_stall u u' \<and> storeWBIdx u' = storeWBIdx u \<and> SQEntries u' = SQEntries u"

lemma same_but_stores_refl [simp]: "same_but_stores u u"
  by (simp add: same_but_stores_def)

lemma same_but_stores_trans: "same_but_stores u v \<Longrightarrow> same_but_stores v w \<Longrightarrow> same_but_stores u w"
  by (simp add: same_but_stores_def same_loads_def same_stall_def)

lemma commit_walk:
  assumes "sq_inv u" "k \<le> nat (stores u)" "nat (stores u) - k \<le> fuel"
  shows "\<exists>u'. walk fuel (SQEntries u) (commit_store y h) ((storeHead u + k) mod SQEntries u) (storeTail u) u = Some u' \<and>
    sq_inv u' \<and> store_entries u' = take k (store_entries u) @ commit_entries y h (drop k (store_entries u)) \<and>
    same_but_stores u u' \<and> storeHead u' = storeHead u \<and> storeTail u' = storeTail u"
  using assms
proof (induction fuel arbitrary: u k)
  case 0
  then have "k = nat (stores u)" by simp
  then show ?case using tail_slot_iff [OF 0(1,2)] 0(1) by (intro exI [of _ u]) simp
next
  case (Suc fuel)
  note d = sq_invD [OF Suc.prems(1)]
  let ?i = "(storeHead u + k) mod SQEntries u"
  show ?case
  proof (cases "k = nat (stores u)")
    case True
    then show ?thesis using tail_slot_iff [OF Suc.prems(1,2)] Suc.prems(1) by (intro exI [of _ u]) simp
  next
    case False
    then have k: "k < nat (stores u)" using Suc.prems(2) by simp
    obtain e where e: "e = store_entries u ! k" by simp
    note at = store_slot [OF Suc.prems(1) k]
    have dr: "drop k (store_entries u) = e # drop (Suc k) (store_entries u)" using k e by (simp add: Cons_nth_drop_Suc)
    have p: "store_list u ! k = the (sq_inst e)" using k e by (simp add: store_list_def)
    have ne: "?i \<noteq> storeTail u" using tail_slot_iff [OF Suc.prems(1,2)] k by simp
    have nx: "next_idx (SQEntries u) ?i = (storeHead u + Suc k) mod SQEntries u" by (rule next_idx_slot [OF d(6)])
    have tk: "take (Suc k) (store_entries u) = take k (store_entries u) @ [e]" using k e by (simp add: take_Suc_conv_app_nth)
    consider "canWB e" | "\<not> canWB e" "seqNum (h (the (sq_inst e))) > y" | "\<not> canWB e" "\<not> seqNum (h (the (sq_inst e))) > y" by blast
    then show ?thesis
    proof cases
      case 1
      have step: "walk (Suc fuel) (SQEntries u) (commit_store y h) ?i (storeTail u) u =
          walk fuel (SQEntries u) (commit_store y h) ((storeHead u + Suc k) mod SQEntries u) (storeTail u) u"
        using 1 ne at(2) nx e by (simp add: commit_store_def)
      from Suc.IH [OF Suc.prems(1), of "Suc k"] k Suc.prems(3) show ?thesis
        unfolding step dr tk using 1 by simp
    next
      case 2
      then have "walk (Suc fuel) (SQEntries u) (commit_store y h) ?i (storeTail u) u = Some u"
        using ne at(2) e p by (simp add: commit_store_def)
      then show ?thesis using 2 dr Suc.prems(1) by (metis append_take_drop_id commit_entries.simps(2) same_but_stores_refl)
    next
      case 3
      let ?v = "u\<lparr>storeQueue := (storeQueue u)[?i := e\<lparr>canWB := True\<rparr>], storesToWB := storesToWB u + 1\<rparr>"
      have mem: "e \<in> set (store_entries u)" using k e by simp
      have "\<not> sq_completed e" using d(9) [OF mem] 3(1) by blast
      then have pend: "pending_wb (e\<lparr>canWB := True\<rparr>)" "\<not> pending_wb (store_entries u ! k)"
        using 3(1) e by (simp_all add: pending_wb_def)
      have inv: "sq_inv ?v" and se: "store_entries ?v = (store_entries u)[k := e\<lparr>canWB := True\<rparr>]"
        using sq_replace [OF Suc.prems(1) k, of ?v "e\<lparr>canWB := True\<rparr>"] pend d(8) [OF mem] by simp_all
      have "?i < length (storeQueue u)" using d(1,6) by simp
      then have step: "walk (Suc fuel) (SQEntries u) (commit_store y h) ?i (storeTail u) u =
          walk fuel (SQEntries u) (commit_store y h) ((storeHead u + Suc k) mod SQEntries u) (storeTail u) ?v"
        using 3 ne at(2) nx e p by (simp add: commit_store_def)
      have drv: "drop (Suc k) (store_entries ?v) = drop (Suc k) (store_entries u)"
        and tkv: "take (Suc k) (store_entries ?v) = take k (store_entries u) @ [e\<lparr>canWB := True\<rparr>]"
        unfolding se using k by (simp_all add: take_Suc_conv_app_nth)
      have le: "Suc k \<le> nat (stores ?v)" "nat (stores ?v) - Suc k \<le> fuel" using k Suc.prems(3) by simp_all
      from Suc.IH [OF inv le] obtain u' where
        u': "walk fuel (SQEntries u) (commit_store y h) ((storeHead u + Suc k) mod SQEntries u) (storeTail u) ?v = Some u'"
        "sq_inv u'" "store_entries u' = take k (store_entries u) @ [e\<lparr>canWB := True\<rparr>] @ commit_entries y h (drop (Suc k) (store_entries u))"
        "same_but_stores ?v u'" "storeHead u' = storeHead u" "storeTail u' = storeTail u"
        unfolding drv tkv by auto
      have "same_but_stores u u'" using u'(4) by (simp add: same_but_stores_def same_loads_def same_stall_def)
      then show ?thesis unfolding step dr using u' 3 by simp
    qed
  qed
qed

lemma commitStores_ok:
  assumes "sq_inv u"
  shows "\<exists>u'. commitStores y h u = Some u' \<and> sq_inv u' \<and> store_entries u' = commit_entries y h (store_entries u) \<and>
    same_but_stores u u' \<and> storeHead u' = storeHead u"
proof -
  note d = sq_invD [OF assms]
  have "stores u = 0 \<or> sq_inst (storeQueue u ! storeHead u) \<noteq> None"
  proof (cases "nat (stores u)")
    case (Suc m)
    then have "store_entries u ! 0 \<in> set (store_entries u)" by (intro nth_mem) simp
    then show ?thesis using d(8) store_slot(1) [OF assms, of 0] Suc d(1,2) by (auto simp: vec_get_def)
  qed (use d(3) in simp)
  moreover have "(storeHead u + 0) mod SQEntries u = storeHead u" using d(2) by simp
  ultimately have "commitStores y h u =
      walk (SQEntries u) (SQEntries u) (commit_store y h) ((storeHead u + 0) mod SQEntries u) (storeTail u) u"
    using d(1,2) by (auto simp: commitStores_def)
  with commit_walk [OF assms, of 0 "SQEntries u" y h] d(4) show ?thesis by auto
qed

section \<open>Squashing stores\<close>

definition store_squashed :: "InstSeqNum \<Rightarrow> inst_heap \<Rightarrow> SQEntry \<Rightarrow> bool" where
  "store_squashed sq h e \<longleftrightarrow> sq < seqNum (h (the (sq_inst e))) \<and> \<not> canWB e"

lemma sq_pop_back:
  assumes "sq_inv u" "nat (stores u) = Suc m" "i = (storeHead u + m) mod SQEntries u" "\<not> canWB (store_entries u ! m)"
    and "storeQueue v = (storeQueue u)[i := e]" "stores v = stores u - 1" "storeTail v = i"
    and "SQEntries v = SQEntries u" "storeHead v = storeHead u" "storesToWB v = storesToWB u"
  shows "sq_inv v" "store_entries v = butlast (store_entries u)"
proof -
  note d = sq_invD [OF assms(1)]
  have k: "nat (stores v) = m" "stores u = int (Suc m)" using assms(2,6) d(3) by simp_all
  have "ring (storeQueue v) (storeHead u) m = ring (storeQueue u) (storeHead u) m"
    using ring_update_out [of m m "storeQueue u" "storeHead u" e] d(1,4) assms(2,3,5) by simp
  then show se: "store_entries v = butlast (store_entries u)"
    by (simp add: store_entries_def k(1) assms(2,9) ring_Suc)
  have split: "store_entries u = butlast (store_entries u) @ [store_entries u ! m]"
  proof -
    have len: "length (store_entries u) = Suc m" using assms(2) by simp
    have ne: "store_entries u \<noteq> []"
    proof
      assume "store_entries u = []"
      then show False using len by (simp only: list.size)
    qed
    show ?thesis using append_butlast_last_id [OF ne] last_conv_nth [OF ne] len by simp
  qed
  have "\<not> pending_wb (store_entries u ! m)" using assms(4) by (simp add: pending_wb_def)
  then have "filter pending_wb (store_entries u) = filter pending_wb (butlast (store_entries u))"
    by (subst split) (simp del: append_butlast_last_id)
  then show "sq_inv v"
    unfolding sq_inv_def se using d assms(2-10) k by (auto dest: in_set_butlastD)
qed

lemma squash_stores_ok:
  assumes "sq_inv u" "\<And>p. stalled u \<Longrightarrow> sq < seqNum (h p) \<Longrightarrow> seqNum (h p) \<noteq> stallingStoreIsn u"
  shows "\<exists>u'. squash_stores (nat (stores u)) sq (decrStIdx u (storeTail u)) (u, h) =
      Some (u', squash_heap ((\<lambda>e. the (sq_inst e)) ` set (takeWhile (store_squashed sq h) (rev (store_entries u)))) h) \<and> sq_inv u' \<and>
    store_entries u' = rev (dropWhile (store_squashed sq h) (rev (store_entries u))) \<and> same_but_stores u u' \<and>
    storeHead u' = storeHead u"
  using assms
proof (induction "nat (stores u)" arbitrary: u h)
  case 0
  then have "store_entries u = []" by (metis length_0_conv length_store_entries(1))
  then show ?case using 0 by (intro exI [of _ u]) (simp add: 0(1) [symmetric])
next
  case (Suc n)
  note d = sq_invD [OF Suc.prems(1)]
  let ?i = "(storeHead u + n) mod SQEntries u"
  obtain L e where L: "store_entries u = L @ [e]"
    using Suc.hyps(2) by (metis append_butlast_last_id length_store_entries(1) list.size(3) nat.distinct(1))
  have lenL: "length L = n" using L Suc.hyps(2) by (metis length_append_singleton length_store_entries(1) nat.inject)
  have i: "decrStIdx u (storeTail u) = ?i"
    using prev_idx_slot [of "SQEntries u" "storeHead u" n] d(5,6) Suc.hyps(2) by (simp add: decrStIdx_def)
  have nth: "store_entries u ! n = e" using L lenL by (simp add: nth_append)
  then have p: "store_list u ! n = the (sq_inst e)" using Suc.hyps(2) by (simp add: store_list_def)
  have last: "store_at u ?i = Some (e, the (sq_inst e))"
    using store_slot(2) [OF Suc.prems(1), of n] Suc.hyps(2) nth p by simp
  show ?case
  proof (cases "store_squashed sq h e")
    case True
    then have T: "sq < seqNum (h (the (sq_inst e)))" "\<not> canWB e" by (simp_all add: store_squashed_def)
    define e1 where "e1 = e\<lparr>sq_inst := None, canWB := False, sq_req := None\<rparr>"
    define e2 where "e2 = (if isSplit e1 then e1\<lparr>sq_sreqLow := None, sq_sreqHigh := None\<rparr> else e1)"
    define v where "v = u\<lparr>storeQueue := (storeQueue u)[?i := e2], stores := stores u - 1, storeTail := ?i\<rparr>"
    define g where "g = modify (the (sq_inst e)) (set_status Squashed) h"
    have v: "SQEntries v = SQEntries u" "storeTail v = ?i" "stalled v = stalled u" "stallingStoreIsn v = stallingStoreIsn u"
      by (simp_all add: v_def)
    have inv: "sq_inv v" "store_entries v = L"
      using sq_pop_back [OF Suc.prems(1) Suc.hyps(2) [symmetric] refl, of v e2] T(2) nth L by (simp_all add: v_def)
    have n: "n = nat (stores v)" using Suc.hyps(2) by (simp add: v_def)
    have ok: "\<not> (stalled u \<and> seqNum (h (the (sq_inst e))) = stallingStoreIsn u)" using Suc.prems(2) T(1) by blast
    have "?i < length (storeQueue u)" using d(1,6) by simp
    then have "squash_store_entry ?i e (the (sq_inst e)) (u, h) = Some (v, g)"
      using ok by (simp add: squash_store_entry_def Let_def e1_def [symmetric] e2_def [symmetric] v_def g_def)
    then have step: "squash_stores (nat (stores u)) sq (decrStIdx u (storeTail u)) (u, h) =
        squash_stores (nat (stores v)) sq (decrStIdx v (storeTail v)) (v, g)"
      unfolding Suc.hyps(2) [symmetric] n [symmetric] i using T last v by (simp add: decrStIdx_def)
    have sn: "seqNum (g q) = seqNum (h q)" for q by (simp add: g_def modify_def)
    have sq: "store_squashed sq g = store_squashed sq h" by (simp add: store_squashed_def fun_eq_iff sn)
    have st: "\<And>p. stalled v \<Longrightarrow> sq < seqNum (g p) \<Longrightarrow> seqNum (g p) \<noteq> stallingStoreIsn v"
      using Suc.prems(2) v(3,4) sn by simp
    from Suc.hyps(1) [OF n inv(1), where h = g, OF st] obtain u' where
      u': "squash_stores (nat (stores v)) sq (decrStIdx v (storeTail v)) (v, g) =
        Some (u', squash_heap ((\<lambda>e. the (sq_inst e)) ` set (takeWhile (store_squashed sq h) (rev L))) g)" "sq_inv u'"
      "store_entries u' = rev (dropWhile (store_squashed sq h) (rev L))" "same_but_stores v u'" "storeHead u' = storeHead v"
      unfolding inv(2) sq by blast
    have "same_but_stores u u'" "storeHead u' = storeHead u"
      using u'(4,5) by (simp_all add: same_but_stores_def same_loads_def same_stall_def v_def)
    then show ?thesis unfolding step using u'(1-3) True L by (intro exI [of _ u']) (simp add: g_def)
  next
    case False
    then have "squash_stores (nat (stores u)) sq (decrStIdx u (storeTail u)) (u, h) = Some (u, h)"
      unfolding Suc.hyps(2) [symmetric] i using last by (auto simp: store_squashed_def)
    then show ?thesis using False L Suc.prems(1) by auto
  qed
qed

section \<open>Completing stores\<close>

lemma sq_pop:
  assumes "sq_inv u" "0 < nat (stores u)" "\<not> pending_wb (store_entries u ! 0)"
    and "v = u\<lparr>storeHead := incrStIdx u (storeHead u), stores := stores u - 1\<rparr>"
  shows "sq_inv v" "store_entries v = tl (store_entries u)"
proof -
  note d = sq_invD [OF assms(1)]
  obtain m where m: "nat (stores u) = Suc m" using assms(2) by (cases "nat (stores u)") auto
  have h: "storeHead v = Suc (storeHead u) mod SQEntries u" using next_idx_mod d(2) by (simp add: assms(4) incrStIdx_def)
  have k: "nat (stores v) = m" "stores v = stores u - 1" "storeQueue v = storeQueue u" "SQEntries v = SQEntries u"
    "storeTail v = storeTail u" "storesToWB v = storesToWB u"
    using m by (simp_all add: assms(4))
  show se: "store_entries v = tl (store_entries u)"
    using d(1) ring_mod [of "storeQueue u" "Suc (storeHead u)" m] unfolding store_entries_def k(1,3) h m by (simp add: ring_Cons)
  have "store_entries u = store_entries u ! 0 # tl (store_entries u)"
    using m by (cases "store_entries u") (auto dest: arg_cong [of _ _ length])
  then have "filter pending_wb (store_entries u) = filter pending_wb (tl (store_entries u))"
    using assms(3) by (metis filter.simps(2))
  moreover have "storeTail u = (storeHead v + m) mod SQEntries u" using d(5) m by (simp add: h mod_simps)
  moreover have "e \<in> set (store_entries u)" if "e \<in> set (tl (store_entries u))" for e
    using that by (cases "store_entries u") auto
  ultimately show "sq_inv v"
    unfolding sq_inv_def se using d k m h by auto
qed

lemma free_head_stores_ok:
  assumes "sq_inv u" "0 < nat (stores u)" "\<not> pending_wb (store_entries u ! 0)" "nat (stores u) \<le> fuel"
  shows "\<exists>u'. free_head_stores fuel u = Some u' \<and> sq_inv u' \<and>
    store_entries u' = dropWhile sq_completed (tl (store_entries u)) \<and> same_but_stores u u' \<and>
    storeHead u' = (storeHead u + (nat (stores u) - nat (stores u'))) mod SQEntries u"
  using assms
proof (induction fuel arbitrary: u)
  case (Suc fuel)
  define v where "v = u\<lparr>storeHead := incrStIdx u (storeHead u), stores := stores u - 1\<rparr>"
  note v = sq_pop [OF Suc.prems(1-3) v_def]
  have same: "same_but_stores u v" by (simp add: v_def same_but_stores_def same_loads_def same_stall_def)
  have n: "nat (stores v) = nat (stores u) - 1" by (simp add: v_def)
  have hd: "storeHead v = Suc (storeHead u) mod SQEntries u" "SQEntries v = SQEntries u"
    using next_idx_mod sq_invD(2) [OF Suc.prems(1)] by (simp_all add: v_def incrStIdx_def)
  have one: "storeHead v = (storeHead u + (nat (stores u) - nat (stores v))) mod SQEntries u"
    using hd n Suc.prems(2) by simp
  note d = sq_invD [OF v(1)]
  have s0: "(storeHead v + 0) mod SQEntries v = storeHead v" using d(2) by simp
  show ?case
  proof (cases "nat (stores v) = 0")
    case True
    then have "store_entries v = []" by (metis length_0_conv length_store_entries(1))
    moreover have "storeHead v = storeTail v" using tail_slot_iff [OF v(1), of 0] s0 True by simp
    moreover have "storeHead v < length (storeQueue v)" using d(1,2) by simp
    ultimately have "free_head_stores (Suc fuel) u = Some v" by (simp add: v_def [symmetric] Let_def)
    then show ?thesis using v same one \<open>store_entries v = []\<close> by auto
  next
    case False
    then have e: "vec_get (storeQueue v) (storeHead v) = Some (store_entries v ! 0)" using store_slot(1) [OF v(1), of 0] s0 by simp
    have ne: "storeHead v \<noteq> storeTail v" using tail_slot_iff [OF v(1), of 0] s0 False by simp
    obtain x xs where x: "store_entries v = x # xs" using False by (cases "store_entries v") (auto dest: arg_cong [of _ _ length])
    show ?thesis
    proof (cases "sq_completed x")
      case True
      then have np: "\<not> pending_wb (store_entries v ! 0)" using x by (simp add: pending_wb_def)
      have "0 < nat (stores v)" "nat (stores v) \<le> fuel" using False n Suc.prems(4) by linarith+
      from Suc.IH [OF v(1) this(1) np this(2)] obtain u' where u': "free_head_stores fuel v = Some u'" "sq_inv u'"
        "store_entries u' = dropWhile sq_completed (tl (store_entries v))" "same_but_stores v u'"
        "storeHead u' = (storeHead v + (nat (stores v) - nat (stores u'))) mod SQEntries v"
        by blast
      have "length (store_entries u') \<le> length (store_entries v)"
        unfolding u'(3) using length_dropWhile_le [of sq_completed "tl (store_entries v)"] x by simp
      then have "nat (stores u') \<le> nat (stores v)" by (simp only: length_store_entries)
      then have "Suc (storeHead u) + (nat (stores v) - nat (stores u')) = storeHead u + (nat (stores u) - nat (stores u'))"
        using n Suc.prems(2) by linarith
      then have head: "storeHead u' = (storeHead u + (nat (stores u) - nat (stores u'))) mod SQEntries u"
        unfolding u'(5) hd mod_add_left_eq by (simp only:)
      have "free_head_stores (Suc fuel) u = free_head_stores fuel v"
        using e ne True x by (simp add: v_def [symmetric] Let_def)
      moreover have "store_entries u' = dropWhile sq_completed (tl (store_entries u))"
        using u'(3) x True unfolding v(2) [symmetric] by simp
      ultimately show ?thesis using u'(1,2) same_but_stores_trans [OF same u'(4)] head by auto
    next
      case False
      then have "free_head_stores (Suc fuel) u = Some v" using e x by (simp add: v_def [symmetric] Let_def)
      moreover have "store_entries v = dropWhile sq_completed (tl (store_entries u))"
        using x False unfolding v(2) [symmetric] by simp
      ultimately show ?thesis using v(1) same one by auto
    qed
  qed
qed simp

lemma unstall_ok:
  assumes "lq_inv u" "stall_inv u h"
  shows "\<exists>u' r. unstall n u = Some (u', r) \<and> same_loads u u' \<and> same_stores u u' \<and> stall_inv u' h \<and>
    (stalled u' \<longrightarrow> stalled u \<and> stallingStoreIsn u \<noteq> n \<and> stallingStoreIsn u' = stallingStoreIsn u) \<and>
    memDepViolator u' = memDepViolator u \<and> oblsMissInst u' = oblsMissInst u \<and>
    r = (if stalled u \<and> n = stallingStoreIsn u then load_at u (stallingLoadIdx u) else None)"
proof (cases "stalled u \<and> n = stallingStoreIsn u")
  case True
  then obtain k where "k < nat (loads u)" "stallingLoadIdx u = (loadHead u + k) mod LQEntries u"
    using assms(2) by (auto simp: stall_inv_def)
  then have "load_at u (stallingLoadIdx u) = Some (load_list u ! k)" using load_slot(1) [OF assms(1)] by simp
  then show ?thesis using True by (auto simp: unstall_def same_loads_def same_stores_def stall_inv_def)
next
  case False
  then show ?thesis using assms(2) by (auto simp: unstall_def)
qed

lemma completeStore_ok:
  assumes "sq_inv u" "lq_inv u" "stall_inv u h" "head_pending u" "k < nat (stores u)" "pending_wb (store_entries u ! k)"
  shows "\<exists>u' r. completeStore c ((storeHead u + k) mod SQEntries u) (u, h) =
      Some (u', modify (store_list u ! k) (set_status Completed) h, r) \<and>
    sq_inv u' \<and> lq_inv u' \<and> stall_inv u' h \<and> head_pending u' \<and> load_list u' = load_list u \<and>
    store_entries u' = dropWhile sq_completed ((store_entries u)[k := (store_entries u ! k)\<lparr>sq_completed := True\<rparr>]) \<and>
    storeWBIdx u' = storeWBIdx u \<and> SQEntries u' = SQEntries u \<and> same_loads u u' \<and>
    storeHead u' = (storeHead u + (nat (stores u) - nat (stores u'))) mod SQEntries u \<and>
    (stalled u' \<longrightarrow> stalled u \<and> stallingStoreIsn u \<noteq> seqNum (h (store_list u ! k)) \<and> stallingStoreIsn u' = stallingStoreIsn u)"
proof -
  note d = sq_invD [OF assms(1)]
  define i where "i = (storeHead u + k) mod SQEntries u"
  let ?e = "(store_entries u ! k)\<lparr>sq_completed := True\<rparr>" and ?p = "store_list u ! k"
  define v where "v = u\<lparr>storeQueue := (storeQueue u)[i := ?e], storesToWB := storesToWB u - 1\<rparr>"
  have mem: "store_entries u ! k \<in> set (store_entries u)" using assms(5) by simp
  have v: "sq_inv v" "store_entries v = (store_entries u)[k := ?e]"
    using sq_replace [OF assms(1,5), of v ?e] assms(6) d(8) [OF mem] by (simp_all add: v_def i_def pending_wb_def)
  have vs: "same_but_stores u v" "storeHead v = storeHead u" "stores v = stores u" by (simp_all add: v_def same_but_stores_def same_loads_def same_stall_def)
  define w where "w = (if i = storeHead v then free_head_stores (SQEntries v) v else Some v)"
  obtain u1 where u1: "w = Some u1" "sq_inv u1" "store_entries u1 = dropWhile sq_completed ((store_entries u)[k := ?e])"
    "same_but_stores u u1" "storeHead u1 = (storeHead u + (nat (stores u) - nat (stores u1))) mod SQEntries u"
  proof (cases "k = 0")
    case True
    have np: "\<not> pending_wb (store_entries v ! 0)" using v(2) True assms(5) by (simp add: pending_wb_def)
    have "w = free_head_stores (SQEntries v) v" using True d(2) vs(2) by (simp add: w_def i_def)
    moreover have "0 < nat (stores v)" "nat (stores v) \<le> SQEntries v" using sq_invD(4) [OF v(1)] assms(5) vs(3) by linarith+
    ultimately obtain u1 where "w = Some u1" "sq_inv u1" "store_entries u1 = dropWhile sq_completed (tl (store_entries v))" "same_but_stores v u1"
        "storeHead u1 = (storeHead v + (nat (stores v) - nat (stores u1))) mod SQEntries v"
      using free_head_stores_ok [OF v(1) _ np, of "SQEntries v"] by blast
    moreover have "dropWhile sq_completed (tl (store_entries v)) = dropWhile sq_completed ((store_entries u)[k := ?e])"
      using v(2) True assms(5) by (cases "store_entries u") (auto dest: arg_cong [of _ _ length])
    moreover have "SQEntries v = SQEntries u" by (simp add: v_def)
    ultimately show ?thesis using that [of u1] same_but_stores_trans [OF vs(1)] vs(2,3) by simp
  next
    case False
    then have "i \<noteq> storeHead u" using ring_slot_inj [of "storeHead u" k "SQEntries u" 0] assms(5) d(2,4) by (auto simp: i_def)
    then have "w = Some v" using vs(2) by (simp add: w_def)
    moreover have "dropWhile sq_completed ((store_entries u)[k := ?e]) = (store_entries u)[k := ?e]"
      using assms(4,5) False by (cases "store_entries u"; cases k) (auto simp: head_pending_def)
    ultimately show ?thesis using that v vs d(2) by simp
  qed
  have l1: "lq_inv u1" "load_list u1 = load_list u" "stall_inv u1 h"
    using u1(4) assms(2,3) same_loads_inv [of u u1] by (auto simp: same_but_stores_def stall_inv_def same_loads_def same_stall_def)
  obtain u2 r where u2: "unstall (seqNum (h ?p)) u1 = Some (u2, r)" "same_loads u1 u2" "same_stores u1 u2" "stall_inv u2 h"
    "stalled u2 \<longrightarrow> stalled u1 \<and> stallingStoreIsn u1 \<noteq> seqNum (h ?p) \<and> stallingStoreIsn u2 = stallingStoreIsn u1"
    using unstall_ok [OF l1(1,3), of "seqNum (h ?p)"] by blast
  define u3 where "u3 = (if needsTSO c then u2\<lparr>storeInFlight := False\<rparr> else u2)"
  have s3: "same_loads u1 u3" "same_stores u1 u3" using u2(2,3) by (simp_all add: u3_def same_loads_def same_stores_def)
  have "i < length (storeQueue u)" using d(1,6) by (simp add: i_def)
  moreover have "(if i = storeHead u then free_head_stores (SQEntries v) v else Some v) = Some u1"
    using u1(1) vs by (auto simp: w_def same_but_stores_def)
  ultimately have "completeStore c i (u, h) = Some (u3, modify ?p (set_status Completed) h, r)"
    using store_slot(2) [OF assms(1,5), folded i_def] u2(1) unfolding completeStore_def
    by (simp add: v_def [symmetric] u3_def)
  moreover have "sq_inv u3" "store_entries u3 = store_entries u1" using same_stores_inv [OF s3(2)] u1(2) by simp_all
  moreover have "lq_inv u3" "load_list u3 = load_list u" using same_loads_inv [OF s3(1)] l1 by simp_all
  moreover have "stall_inv u3 h" using u2(4) by (simp add: u3_def stall_inv_def load_list_def)
  moreover have "head_pending u3" unfolding head_pending_def \<open>store_entries u3 = store_entries u1\<close> u1(3)
    by (auto simp: dropWhile_eq_Cons_conv)
  moreover have "storeWBIdx u3 = storeWBIdx u" "SQEntries u3 = SQEntries u" "same_loads u u3"
    "storeHead u3 = (storeHead u + (nat (stores u) - nat (stores u3))) mod SQEntries u"
    using s3 u1(4,5) by (simp_all add: same_stores_def same_but_stores_def same_loads_def same_stall_def)
  moreover have "stalled u3 \<longrightarrow> stalled u \<and> stallingStoreIsn u \<noteq> seqNum (h ?p) \<and> stallingStoreIsn u3 = stallingStoreIsn u"
    using u2(5) u1(4) by (auto simp: u3_def same_but_stores_def same_stall_def)
  ultimately show ?thesis using u1(3) unfolding i_def by auto
qed

end
