(* ===== verification/LSQ_Inv.thy ===== *)
theory LSQ_Inv
  imports LSQ_Store
begin

text \<open>
  The invariant of a load/store queue: both queues are in program order, the stores
  that may be written back come first and precede every load, and the index that an
  instruction remembers in the other queue is the slot between its older and its
  younger neighbours there. Every operation keeps it.
\<close>

section \<open>Program order\<close>

abbreviation seq_sorted :: "inst_heap \<Rightarrow> DynInstPtr list \<Rightarrow> bool" where
  "seq_sorted h ps \<equiv> sorted_wrt (\<lambda>p q. seqNum (h p) < seqNum (h q)) ps"

text \<open>How many instructions of a queue are older than a sequence number.\<close>

definition older :: "inst_heap \<Rightarrow> InstSeqNum \<Rightarrow> DynInstPtr list \<Rightarrow> nat" where
  "older h n ps = length (filter (\<lambda>p. seqNum (h p) < n) ps)"

lemma older_append [simp]: "older h n (ps @ qs) = older h n ps + older h n qs"
  by (simp add: older_def)

lemma older_all: "\<forall>p\<in>set ps. seqNum (h p) < n \<Longrightarrow> older h n ps = length ps"
  by (simp add: older_def)

lemma older_none: "\<forall>p\<in>set ps. n \<le> seqNum (h p) \<Longrightarrow> older h n ps = 0"
  by (auto simp: older_def filter_empty_conv)

lemma older_le: "older h n ps \<le> length ps"
  by (simp add: older_def)

lemma older_cong: "(\<And>p. p \<in> set ps \<Longrightarrow> seqNum (h' p) = seqNum (h p)) \<Longrightarrow> older h' n ps = older h n ps"
  by (simp add: older_def cong: filter_cong)

lemma sorted_take_older:
  assumes "seq_sorted h ps"
  shows "filter (\<lambda>p. seqNum (h p) < n) ps = take (older h n ps) ps"
  using assms
proof (induction ps)
  case (Cons p ps)
  show ?case
  proof (cases "seqNum (h p) < n")
    case False
    then have "\<forall>q\<in>set (p # ps). n \<le> seqNum (h q)" using Cons.prems by auto
    then show ?thesis using older_none [of "p # ps" n h] by (auto simp: filter_empty_conv)
  qed (use Cons in \<open>auto simp: older_def\<close>)
qed (simp add: older_def)

lemma sorted_older_iff:
  assumes "seq_sorted h ps" "i < length ps"
  shows "seqNum (h (ps ! i)) < n \<longleftrightarrow> i < older h n ps"
proof
  assume lt: "seqNum (h (ps ! i)) < n"
  show "i < older h n ps"
  proof (rule ccontr)
    assume "\<not> i < older h n ps"
    have "ps ! i \<in> set (filter (\<lambda>p. seqNum (h p) < n) ps)" using assms(2) lt by simp
    then obtain j where "j < older h n ps" "ps ! j = ps ! i" "j < length ps"
      unfolding sorted_take_older [OF assms(1)] using older_le [of h n ps] by (auto simp: in_set_conv_nth)
    moreover have "j < i" using \<open>\<not> i < older h n ps\<close> calculation(1) by simp
    ultimately show False using sorted_wrt_nth_less [OF assms(1), of j i] assms(2) by simp
  qed
next
  assume "i < older h n ps"
  then have "ps ! i \<in> set (take (older h n ps) ps)" using assms(2) by (auto simp: in_set_conv_nth)
  then show "seqNum (h (ps ! i)) < n" unfolding sorted_take_older [OF assms(1), symmetric] by simp
qed

lemma dropWhile_sorted:
  assumes "seq_sorted h ps"
  shows "dropWhile (\<lambda>p. seqNum (h p) \<le> y) ps = filter (\<lambda>p. y < seqNum (h p)) ps"
  using assms
proof (induction ps)
  case (Cons p ps)
  show ?case
  proof (cases "seqNum (h p) \<le> y")
    case False
    then have "\<forall>q\<in>set (p # ps). y < seqNum (h q)" using Cons.prems by auto
    then have "filter (\<lambda>p. y < seqNum (h p)) (p # ps) = p # ps" by (intro filter_True) auto
    then show ?thesis using False by simp
  qed (use Cons in auto)
qed simp

lemma rev_dropWhile_sorted:
  assumes "seq_sorted h ps"
  shows "rev (dropWhile (\<lambda>p. sq < seqNum (h p)) (rev ps)) = filter (\<lambda>p. seqNum (h p) \<le> sq) ps"
  using assms
proof (induction ps rule: rev_induct)
  case (snoc p ps)
  then have IH: "rev (dropWhile (\<lambda>p. sq < seqNum (h p)) (rev ps)) = filter (\<lambda>p. seqNum (h p) \<le> sq) ps"
    by (auto simp: sorted_wrt_append)
  show ?case
  proof (cases "sq < seqNum (h p)")
    case False
    then have "filter (\<lambda>p. seqNum (h p) \<le> sq) ps = ps"
      using snoc.prems by (intro filter_True) (auto simp: sorted_wrt_append)
    then show ?thesis using False by simp
  qed (use IH in simp)
qed simp

lemma takeWhile_rev_sorted:
  assumes "seq_sorted h ps"
  shows "set (takeWhile (\<lambda>p. sq < seqNum (h p)) (rev ps)) = {p \<in> set ps. sq < seqNum (h p)}"
  using assms
proof (induction ps rule: rev_induct)
  case (snoc p ps)
  then have IH: "set (takeWhile (\<lambda>p. sq < seqNum (h p)) (rev ps)) = {p \<in> set ps. sq < seqNum (h p)}"
    and lt: "\<forall>q\<in>set ps. seqNum (h q) < seqNum (h p)" by (auto simp: sorted_wrt_append)
  show ?case
  proof (cases "sq < seqNum (h p)")
    case False
    then have "{q \<in> set (ps @ [p]). sq < seqNum (h q)} = {}" using lt by force
    then show ?thesis using False by simp
  qed (use IH in auto)
qed simp

section \<open>The invariant\<close>

definition order_inv :: "LSQUnit \<Rightarrow> inst_heap \<Rightarrow> bool" where
  "order_inv u h \<longleftrightarrow> seq_sorted h (load_list u) \<and> seq_sorted h (store_list u) \<and>
     (\<forall>p\<in>set (store_list u). \<forall>l\<in>set (load_list u). seqNum (h p) \<noteq> seqNum (h l)) \<and>
     sorted_wrt (\<lambda>e f. canWB f \<longrightarrow> canWB e) (store_entries u) \<and>
     (\<forall>e\<in>set (store_entries u). \<forall>l\<in>set (load_list u). canWB e \<longrightarrow> seqNum (h (the (sq_inst e))) < seqNum (h l))"

definition lq_link :: "LSQUnit \<Rightarrow> inst_heap \<Rightarrow> DynInstPtr \<Rightarrow> bool" where
  "lq_link u h p \<longleftrightarrow> lqIdx (ldst (h p)) = int ((loadHead u + older h (seqNum (h p)) (load_list u)) mod LQEntries u)"

definition sq_link :: "LSQUnit \<Rightarrow> inst_heap \<Rightarrow> DynInstPtr \<Rightarrow> bool" where
  "sq_link u h l \<longleftrightarrow> (let n = older h (seqNum (h l)) (store_list u) in
     sqIdx (ldst (h l)) = -1 \<and> n = 0 \<or> sqIdx (ldst (h l)) = int ((storeHead u + n) mod SQEntries u))"

definition link_inv :: "LSQUnit \<Rightarrow> inst_heap \<Rightarrow> bool" where
  "link_inv u h \<longleftrightarrow> (\<forall>e\<in>set (store_entries u). \<not> canWB e \<longrightarrow> lq_link u h (the (sq_inst e))) \<and>
     (\<forall>l\<in>set (load_list u). sq_link u h l)"

text \<open>The write-back index: the stores before it have been sent, none from it on has completed.\<close>

definition wb_at :: "LSQUnit \<Rightarrow> nat \<Rightarrow> bool" where
  "wb_at u w \<longleftrightarrow> w \<le> nat (stores u) \<and> storeWBIdx u = (storeHead u + w) mod SQEntries u \<and>
     (\<forall>e\<in>set (take w (store_entries u)). canWB e) \<and> (\<forall>e\<in>set (drop w (store_entries u)). \<not> sq_completed e)"

definition lsq_inv :: "LSQUnit \<Rightarrow> inst_heap \<Rightarrow> bool" where
  "lsq_inv u h \<longleftrightarrow> lq_inv u \<and> sq_inv u \<and> head_pending u \<and> stall_inv u h \<and> order_inv u h \<and> link_inv u h \<and> (\<exists>w. wb_at u w)"

lemma lsq_invD:
  assumes "lsq_inv u h"
  shows "lq_inv u" "sq_inv u" "head_pending u" "stall_inv u h" "order_inv u h" "link_inv u h" "\<exists>w. wb_at u w"
  using assms by (simp_all add: lsq_inv_def)

lemma order_invD:
  assumes "order_inv u h"
  shows "seq_sorted h (load_list u)" "seq_sorted h (store_list u)"
    "\<And>p l. p \<in> set (store_list u) \<Longrightarrow> l \<in> set (load_list u) \<Longrightarrow> seqNum (h p) \<noteq> seqNum (h l)"
    "sorted_wrt (\<lambda>e f. canWB f \<longrightarrow> canWB e) (store_entries u)"
    "\<And>e l. e \<in> set (store_entries u) \<Longrightarrow> l \<in> set (load_list u) \<Longrightarrow> canWB e \<Longrightarrow> seqNum (h (the (sq_inst e))) < seqNum (h l)"
  using assms unfolding order_inv_def by blast+

lemma store_list_entries: "set (store_list u) = (\<lambda>e. the (sq_inst e)) ` set (store_entries u)"
  by (simp add: store_list_def)

text \<open>Other stages change instructions, but not their numbers and indices.\<close>

definition lsq_frame :: "inst_heap \<Rightarrow> inst_heap \<Rightarrow> bool" where
  "lsq_frame h h' \<longleftrightarrow> (\<forall>p. seqNum (h' p) = seqNum (h p) \<and> lqIdx (ldst (h' p)) = lqIdx (ldst (h p)) \<and> sqIdx (ldst (h' p)) = sqIdx (ldst (h p)))"

lemma lsq_frame_refl [simp]: "lsq_frame h h"
  by (simp add: lsq_frame_def)

lemma lsq_frame_trans: "lsq_frame h h' \<Longrightarrow> lsq_frame h' h'' \<Longrightarrow> lsq_frame h h''"
  by (simp add: lsq_frame_def)

lemma lsq_frame_inv:
  assumes "lsq_frame h h'"
  shows "lsq_inv u h' = lsq_inv u h"
proof -
  have s: "seqNum (h' p) = seqNum (h p)" "lqIdx (ldst (h' p)) = lqIdx (ldst (h p))" "sqIdx (ldst (h' p)) = sqIdx (ldst (h p))" for p
    using assms by (simp_all add: lsq_frame_def)
  have "order_inv u h' = order_inv u h" by (simp add: order_inv_def s)
  moreover have "older h' = older h" by (simp add: older_def fun_eq_iff s)
  then have "link_inv u h' = link_inv u h" by (simp add: link_inv_def lq_link_def sq_link_def s)
  moreover have "stall_inv u h' = stall_inv u h" by (simp add: stall_inv_def s)
  ultimately show ?thesis by (simp add: lsq_inv_def)
qed

lemma frame_set_status: "lsq_frame h (modify p (set_status st) h)"
  by (simp add: lsq_frame_def modify_apply set_status_def)

lemma frame_squash_heap: "lsq_frame h (squash_heap S h)"
  by (simp add: lsq_frame_def squash_heap_def set_status_def)

lemma insert_heap_simps [simp]:
  "seqNum (modify x (set_idx a b) h p) = seqNum (h p)"
  "p \<noteq> x \<Longrightarrow> ldst (modify x (set_idx a b) h p) = ldst (h p)"
  "lqIdx (ldst (modify x (set_idx a b) h x)) = a" "sqIdx (ldst (modify x (set_idx a b) h x)) = b"
  by (simp_all add: modify_apply set_idx_def)

lemma set_idx_simps [simp]:
  "seqNum (set_idx a b i) = seqNum i" "lqIdx (ldst (set_idx a b i)) = a" "sqIdx (ldst (set_idx a b i)) = b"
  by (simp_all add: set_idx_def)

lemma older_insert [simp]: "older (modify x (set_idx a b) h) = older h"
  by (simp add: older_def fun_eq_iff)

lemma stall_inv_move:
  assumes "stall_inv u h" "same_stall u u'" "\<And>q. seqNum (h' q) = seqNum (h q)"
    and "\<And>k. stalled u \<Longrightarrow> k < nat (loads u) \<Longrightarrow> stallingLoadIdx u = (loadHead u + k) mod LQEntries u \<Longrightarrow>
      \<exists>k'<nat (loads u'). (loadHead u' + k') mod LQEntries u' = (loadHead u + k) mod LQEntries u \<and> load_list u' ! k' = load_list u ! k"
  shows "stall_inv u' h'"
  unfolding stall_inv_def
proof
  assume "stalled u'"
  then have st: "stalled u" "stallingLoadIdx u' = stallingLoadIdx u" "stallingStoreIsn u' = stallingStoreIsn u"
    using assms(2) by (simp_all add: same_stall_def)
  then obtain k where k: "k < nat (loads u)" "stallingLoadIdx u = (loadHead u + k) mod LQEntries u"
    "stallingStoreIsn u < seqNum (h (load_list u ! k))" using assms(1) by (auto simp: stall_inv_def)
  from assms(4) [OF st(1) k(1,2)] obtain k' where "k' < nat (loads u')"
    "(loadHead u' + k') mod LQEntries u' = (loadHead u + k) mod LQEntries u" "load_list u' ! k' = load_list u ! k" by blast
  then show "\<exists>k<nat (loads u'). stallingLoadIdx u' = (loadHead u' + k) mod LQEntries u' \<and> stallingStoreIsn u' < seqNum (h' (load_list u' ! k))"
    using st k by (intro exI [of _ k']) (simp add: assms(3))
qed

section \<open>Insertion\<close>

text \<open>A new instruction is younger than everything in the queues.\<close>

definition fresh_inst :: "LSQUnit \<Rightarrow> inst_heap \<Rightarrow> DynInstPtr \<Rightarrow> bool" where
  "fresh_inst u h x \<longleftrightarrow> (\<forall>p\<in>set (load_list u) \<union> set (store_list u). p \<noteq> x \<and> seqNum (h p) < seqNum (h x))"

lemma insertLoad_inv:
  assumes "lsq_inv u h" "nat (loads u) + 1 < LQEntries u" "fresh_inst u h x"
    and "mldom \<Longrightarrow> prepare p (pc (h x)) (seqNum (h x)) = Some p'" "\<not> mldom \<Longrightarrow> p' = p"
  shows "\<exists>u' h'. insertLoad mldom x (u, h, p) = Some (u', h', p') \<and> lsq_inv u' h' \<and> load_list u' = load_list u @ [x] \<and>
    same_stores u u' \<and> (\<forall>q. seqNum (h' q) = seqNum (h q))"
proof -
  note i = lsq_invD [OF assms(1)] note o = order_invD [OF i(5)]
  define g where "g = modify x (set_idx (int (loadTail u)) (if stores u = 0 then -1 else int (storeTail u))) h"
  obtain u' where u': "insertLoad mldom x (u, h, p) = Some (u', g, p')" "lq_inv u'" "load_list u' = load_list u @ [x]"
    "same_stores u u'" "same_stall u u'" "LQEntries u' = LQEntries u" "loadHead u' = loadHead u"
    using insertLoad_ok [where h = h and x = x and mldom = mldom and p = p and p' = p', OF i(1) assms(2)] assms(4,5)
    unfolding g_def by blast
  note ss = same_stores_inv [OF u'(4)]
  have n: "nat (loads u') = Suc (nat (loads u))" using arg_cong [OF u'(3), of length] by simp
  have fl: "p \<noteq> x" "seqNum (h p) < seqNum (h x)" if "p \<in> set (load_list u)" for p
    using assms(3) that by (auto simp: fresh_inst_def)
  have fs: "p \<noteq> x" "seqNum (h p) < seqNum (h x)" if "p \<in> set (store_list u)" for p
    using assms(3) that by (auto simp: fresh_inst_def)
  have fe: "seqNum (h (the (sq_inst e))) < seqNum (h x)" "seqNum (h (the (sq_inst e))) \<noteq> seqNum (h x)"
    if "e \<in> set (store_entries u)" for e
    using fs(2) [of "the (sq_inst e)"] that by (simp_all add: store_list_entries)
  have sn: "seqNum (g q) = seqNum (h q)" for q by (simp add: g_def)
  have "order_inv u' g" unfolding order_inv_def ss(2,3) u'(3) sn
    using i(5) fl(2) fe by (auto simp: order_inv_def sorted_wrt_append store_list_entries)
  moreover have "stall_inv u' g"
  proof (rule stall_inv_move [OF i(4) u'(5) sn])
    fix k assume "k < nat (loads u)"
    then show "\<exists>k'<nat (loads u'). (loadHead u' + k') mod LQEntries u' = (loadHead u + k) mod LQEntries u \<and> load_list u' ! k' = load_list u ! k"
      by (intro exI [of _ k]) (simp add: u'(3,6,7) n nth_append)
  qed
  moreover have "link_inv u' g" unfolding link_inv_def
  proof (intro conjI ballI impI)
    fix e assume e: "e \<in> set (store_entries u')" "\<not> canWB e"
    let ?q = "the (sq_inst e)"
    have q: "?q \<in> set (store_list u)" using e ss(2) by (auto simp: store_list_def)
    have "lq_link u h ?q" using i(6) e ss(2) by (auto simp: link_inv_def)
    moreover have "older h (seqNum (h ?q)) [x] = 0" using fs(2) [OF q] by (intro older_none) simp
    ultimately show "lq_link u' g ?q"
      using fs(1) [OF q] by (simp add: lq_link_def g_def u'(3,6,7))
  next
    fix l assume "l \<in> set (load_list u')"
    then consider "l = x" | "l \<in> set (load_list u)" "l \<noteq> x" using u'(3) fl(1) by auto
    then show "sq_link u' g l"
    proof cases
      case 1
      have "older h (seqNum (h x)) (store_list u) = nat (stores u)" using fs(2) older_all [of "store_list u" h] by simp
      moreover have "storeHead u' = storeHead u" "SQEntries u' = SQEntries u" using u'(4) by (simp_all add: same_stores_def)
      ultimately show ?thesis using 1 sq_invD(3,5) [OF i(2)] by (auto simp: sq_link_def Let_def g_def ss(3))
    next
      case 2
      then have "sq_link u h l" using i(6) by (simp add: link_inv_def)
      then show ?thesis using 2 u'(4) by (simp add: sq_link_def g_def ss(3) same_stores_def)
    qed
  qed
  moreover have "\<exists>w. wb_at u' w"
    using i(7) u'(4) ss(2) by (simp add: wb_at_def same_stores_def)
  ultimately have "lsq_inv u' g" using u'(2) i(2,3) ss(1,4) by (simp add: lsq_inv_def)
  then show ?thesis using u'(1,3,4) sn by blast
qed

lemma insertStore_inv:
  assumes "lsq_inv u h" "nat (stores u) + 1 < SQEntries u" "fresh_inst u h x"
  shows "\<exists>u' h'. insertStore x (u, h) = Some (u', h') \<and> lsq_inv u' h' \<and>
    store_entries u' = store_entries u @ [SQEntry_of (Some x)] \<and> same_loads u u' \<and> (\<forall>q. seqNum (h' q) = seqNum (h q))"
proof -
  note i = lsq_invD [OF assms(1)] note o = order_invD [OF i(5)]
  define g where "g = modify x (set_idx (int (loadTail u)) (int (storeTail u))) h"
  obtain u' where u': "insertStore x (u, h) = Some (u', g)" "sq_inv u'" "store_entries u' = store_entries u @ [SQEntry_of (Some x)]"
    "head_pending u'" "same_loads u u'" "same_stall u u'" "SQEntries u' = SQEntries u" "storeHead u' = storeHead u" "storeWBIdx u' = storeWBIdx u"
    using insertStore_ok [OF i(2) assms(2) i(3), of x h] unfolding g_def by blast
  note sl = same_loads_inv [OF u'(5)]
  have x: "sq_inst (SQEntry_of (Some x)) = Some x" "\<not> canWB (SQEntry_of (Some x))" "\<not> sq_completed (SQEntry_of (Some x))"
    by (simp_all add: SQEntry_of_def)
  have st: "store_list u' = store_list u @ [x]" using x(1) by (simp add: store_list_def u'(3))
  have n: "nat (stores u') = Suc (nat (stores u))" using arg_cong [OF u'(3), of length] by simp
  have fl: "p \<noteq> x" "seqNum (h p) < seqNum (h x)" if "p \<in> set (load_list u)" for p
    using assms(3) that by (auto simp: fresh_inst_def)
  have fe: "the (sq_inst e) \<noteq> x" "seqNum (h (the (sq_inst e))) < seqNum (h x)" if "e \<in> set (store_entries u)" for e
    using assms(3) that by (auto simp: fresh_inst_def store_list_entries)
  have sn: "seqNum (g q) = seqNum (h q)" for q by (simp add: g_def)
  have ll: "load_list u' = load_list u" "lq_inv u'" "loadHead u' = loadHead u" "LQEntries u' = LQEntries u" "loads u' = loads u"
    using sl i(1) u'(5) by (simp_all add: same_loads_def)
  have "order_inv u' g"
  proof -
    have "seqNum (h p) \<noteq> seqNum (h l)" if "p \<in> insert x (set (store_list u))" "l \<in> set (load_list u)" for p l
      using o(3) fl(2) that by force
    then show ?thesis unfolding order_inv_def st u'(3) ll sn
      using o fe(2) x by (auto simp: sorted_wrt_append store_list_entries)
  qed
  moreover have "stall_inv u' g" using i(4) u'(6) ll by (simp add: stall_inv_def same_stall_def sn)
  moreover have "link_inv u' g" unfolding link_inv_def
  proof (intro conjI ballI impI)
    fix e assume "e \<in> set (store_entries u')" "\<not> canWB e"
    then consider "the (sq_inst e) = x" | "e \<in> set (store_entries u)" "\<not> canWB e" using u'(3) x(1) by auto
    then show "lq_link u' g (the (sq_inst e))"
    proof cases
      case 1
      have "older h (seqNum (h x)) (load_list u) = nat (loads u)" using fl(2) older_all [of "load_list u" h] by simp
      then show ?thesis using 1 lq_invD(5) [OF i(1)] by (simp add: lq_link_def g_def ll)
    next
      case 2
      then have "lq_link u h (the (sq_inst e))" using i(6) by (simp add: link_inv_def)
      then show ?thesis using fe(1) [OF 2(1)] by (simp add: lq_link_def g_def ll)
    qed
  next
    fix l assume l: "l \<in> set (load_list u')"
    then have "sq_link u h l" "l \<noteq> x" using i(6) fl(1) ll(1) by (auto simp: link_inv_def)
    moreover have "older h (seqNum (h l)) [x] = 0" using fl(2) [of l] l ll(1) by (intro older_none) simp
    ultimately show "sq_link u' g l" by (simp add: sq_link_def g_def st u'(7,8))
  qed
  moreover have "\<exists>w. wb_at u' w"
  proof -
    obtain w where w: "wb_at u w" using i(7) by blast
    then have "wb_at u' w" using x n by (auto simp: wb_at_def u'(3,7-9))
    then show ?thesis ..
  qed
  ultimately have "lsq_inv u' g" using u'(2,4) ll(2) by (simp add: lsq_inv_def)
  then show ?thesis using u'(1,3,5) sn by blast
qed

section \<open>Commit\<close>

text \<open>The two calls that IEW makes when commit reports the youngest committed instruction.\<close>

definition lsq_commit :: "InstSeqNum \<Rightarrow> inst_heap \<Rightarrow> LSQUnit \<Rightarrow> LSQUnit option" where
  "lsq_commit doneSeqNum h u = do { u \<leftarrow> commitStores doneSeqNum h u; commitLoads doneSeqNum h u }"

text \<open>A load that waits for a store has not committed.\<close>

definition commit_legal :: "LSQUnit \<Rightarrow> inst_heap \<Rightarrow> InstSeqNum \<Rightarrow> bool" where
  "commit_legal u h y \<longleftrightarrow> (stalled u \<longrightarrow> (\<forall>l. load_at u (stallingLoadIdx u) = Some l \<longrightarrow> y < seqNum (h l)))"

definition committed_entry :: "InstSeqNum \<Rightarrow> inst_heap \<Rightarrow> SQEntry \<Rightarrow> SQEntry" where
  "committed_entry y h e = (if seqNum (h (the (sq_inst e))) \<le> y then e\<lparr>canWB := True\<rparr> else e)"

lemma committed_entry_simps [simp]:
  "sq_inst (committed_entry y h e) = sq_inst e" "sq_completed (committed_entry y h e) = sq_completed e"
  "canWB (committed_entry y h e) \<longleftrightarrow> canWB e \<or> seqNum (h (the (sq_inst e))) \<le> y"
  by (simp_all add: committed_entry_def)

lemma canWB_same [simp]: "canWB e \<Longrightarrow> e\<lparr>canWB := True\<rparr> = e"
  by (cases e) simp

lemma commit_entries_map:
  assumes "sorted_wrt (\<lambda>e f. canWB f \<longrightarrow> canWB e) es" "seq_sorted h (map (\<lambda>e. the (sq_inst e)) es)"
  shows "commit_entries y h es = map (committed_entry y h) es"
  using assms
proof (induction es)
  case (Cons e es)
  consider "canWB e" | "\<not> canWB e" "seqNum (h (the (sq_inst e))) \<le> y" | "\<not> canWB e" "y < seqNum (h (the (sq_inst e)))" by linarith
  then show ?case
  proof cases
    case 3
    then have "\<forall>f\<in>set es. y < seqNum (h (the (sq_inst f)))" using Cons.prems(2) by auto
    then have "map (committed_entry y h) es = es" by (intro map_idI) (auto simp: committed_entry_def)
    moreover have "committed_entry y h e = e" using 3 by (simp add: committed_entry_def)
    ultimately show ?thesis using 3 by simp
  qed (use Cons in \<open>auto simp: committed_entry_def\<close>)
qed simp

lemma lsq_commit_inv:
  assumes "lsq_inv u h" "commit_legal u h y"
  shows "\<exists>u'. lsq_commit y h u = Some u' \<and> lsq_inv u' h \<and>
    load_list u' = filter (\<lambda>p. y < seqNum (h p)) (load_list u) \<and> store_entries u' = map (committed_entry y h) (store_entries u) \<and>
    same_stall u u'"
proof -
  note i = lsq_invD [OF assms(1)] note o = order_invD [OF i(5)]
  obtain v where v: "commitStores y h u = Some v" "sq_inv v" "store_entries v = commit_entries y h (store_entries u)"
    "same_but_stores u v" "storeHead v = storeHead u" using commitStores_ok [OF i(2)] by blast
  have sl: "same_loads u v" using v(4) by (simp add: same_but_stores_def)
  then have lv: "lq_inv v" "load_list v = load_list u" "loads v = loads u" "loadHead v = loadHead u" "LQEntries v = LQEntries u"
    using same_loads_inv [OF sl] i(1) by (simp_all add: same_loads_def)
  obtain u' where u': "commitLoads y h v = Some u'" "lq_inv u'" "load_list u' = dropWhile (\<lambda>p. seqNum (h p) \<le> y) (load_list u)"
    "same_stores v u'" "same_stall v u'" "LQEntries u' = LQEntries u"
    "loadHead u' = (loadHead u + (nat (loads u) - nat (loads u'))) mod LQEntries u"
    using commitLoads_ok [OF lv(1), of y h] unfolding lv by blast
  have L: "load_list u' = filter (\<lambda>p. y < seqNum (h p)) (load_list u)" unfolding u'(3) by (rule dropWhile_sorted [OF o(1)])
  have E: "store_entries u' = map (committed_entry y h) (store_entries u)"
    using commit_entries_map [OF o(4), of h y] o(2) same_stores_inv(2) [OF u'(4)] v(3) by (simp add: store_list_def)
  have S: "store_list u' = store_list u" by (simp add: store_list_def E)
  have eq: "storeHead u' = storeHead u" "SQEntries u' = SQEntries u" "storeWBIdx u' = storeWBIdx u" "same_stall u u'"
    using u'(4,5) v(4,5) by (simp_all add: same_stores_def same_but_stores_def same_stall_def)
  have n: "nat (stores u') = nat (stores u)" using arg_cong [OF S, of length] by simp
  have "order_inv u' h" unfolding order_inv_def S
  proof (intro conjI)
    show "seq_sorted h (load_list u')" unfolding L using o(1) by (rule sorted_wrt_filter)
    show "sorted_wrt (\<lambda>e f. canWB f \<longrightarrow> canWB e) (store_entries u')"
      unfolding E sorted_wrt_map
    proof (rule sorted_wrt_mono_rel [of _ "\<lambda>e f. (canWB f \<longrightarrow> canWB e) \<and> seqNum (h (the (sq_inst e))) < seqNum (h (the (sq_inst f)))"])
      show "sorted_wrt (\<lambda>e f. (canWB f \<longrightarrow> canWB e) \<and> seqNum (h (the (sq_inst e))) < seqNum (h (the (sq_inst f)))) (store_entries u)"
        using o(2,4) by (simp add: sorted_wrt_iff_nth_less store_list_def)
    qed auto
    show "\<forall>e\<in>set (store_entries u'). \<forall>l\<in>set (load_list u'). canWB e \<longrightarrow> seqNum (h (the (sq_inst e))) < seqNum (h l)"
      unfolding E L using o(5) by fastforce
  qed (use o(2,3) L in auto)
  moreover have pop: "load_list u' = drop (nat (loads u) - nat (loads u')) (load_list u)"
    and popped: "\<forall>p\<in>set (take (nat (loads u) - nat (loads u')) (load_list u)). seqNum (h p) \<le> y"
  proof -
    have app: "takeWhile (\<lambda>p. seqNum (h p) \<le> y) (load_list u) @ load_list u' = load_list u" unfolding u'(3) by simp
    from arg_cong [OF this, of length] have "length (takeWhile (\<lambda>p. seqNum (h p) \<le> y) (load_list u)) = nat (loads u) - nat (loads u')"
      by simp
    then show "load_list u' = drop (nat (loads u) - nat (loads u')) (load_list u)"
      "\<forall>p\<in>set (take (nat (loads u) - nat (loads u')) (load_list u)). seqNum (h p) \<le> y"
      using app by (metis append_eq_conv_conj set_takeWhileD)+
  qed
  moreover have "link_inv u' h" unfolding link_inv_def
  proof (intro conjI ballI impI)
    fix e assume "e \<in> set (store_entries u')" "\<not> canWB e"
    then obtain f where f: "f \<in> set (store_entries u)" "the (sq_inst e) = the (sq_inst f)" "\<not> canWB f" "y < seqNum (h (the (sq_inst f)))"
      unfolding E by auto
    let ?q = "the (sq_inst f)" and ?m = "nat (loads u) - nat (loads u')"
    have "older h (seqNum (h ?q)) (take ?m (load_list u)) = length (take ?m (load_list u))"
      using popped f(4) by (intro older_all) auto
    then have "older h (seqNum (h ?q)) (load_list u) = ?m + older h (seqNum (h ?q)) (load_list u')"
      by (subst append_take_drop_id [of ?m "load_list u", symmetric], subst older_append) (simp add: pop)
    moreover have "lq_link u h ?q" using i(6) f by (auto simp: link_inv_def)
    ultimately show "lq_link u' h (the (sq_inst e))"
      unfolding lq_link_def f(2) u'(6,7) by (simp add: mod_add_left_eq add.assoc)
  next
    fix l assume "l \<in> set (load_list u')"
    then have "sq_link u h l" using i(6) L by (simp add: link_inv_def)
    then show "sq_link u' h l" by (simp add: sq_link_def S eq(1,2))
  qed
  moreover have "stall_inv u' h"
  proof (rule stall_inv_move [OF i(4) eq(4) refl])
    fix k assume k: "stalled u" "k < nat (loads u)" "stallingLoadIdx u = (loadHead u + k) mod LQEntries u"
    let ?m = "nat (loads u) - nat (loads u')"
    have y: "y < seqNum (h (load_list u ! k))" using assms(2) k load_slot(1) [OF i(1) k(2)] by (simp add: commit_legal_def)
    have "?m \<le> k"
    proof (rule ccontr)
      assume "\<not> ?m \<le> k"
      then have "take ?m (load_list u) ! k \<in> set (take ?m (load_list u))" using k(2) by (intro nth_mem) simp
      then show False using popped y \<open>\<not> ?m \<le> k\<close> by auto
    qed
    then have "(loadHead u' + (k - ?m)) mod LQEntries u' = (loadHead u + k) mod LQEntries u"
      unfolding u'(6,7) mod_add_left_eq by (simp add: add.assoc del: add_diff_assoc)
    moreover have "k - ?m < nat (loads u')" using k(2) \<open>?m \<le> k\<close> arg_cong [OF pop, of length]
      by (simp only: length_drop length_load_list) arith
    moreover have "load_list u' ! (k - ?m) = load_list u ! k" using k(2) \<open>?m \<le> k\<close> by (subst pop) simp
    ultimately show "\<exists>k'<nat (loads u'). (loadHead u' + k') mod LQEntries u' = (loadHead u + k) mod LQEntries u \<and> load_list u' ! k' = load_list u ! k"
      by blast
  qed
  moreover have "\<exists>w. wb_at u' w"
    using i(7) eq n by (auto simp: wb_at_def E take_map drop_map)
  moreover have "head_pending u'" using i(3) unfolding head_pending_def E by (auto simp: map_eq_Cons_conv)
  ultimately show ?thesis using v(1,2) u' L E eq same_stores_inv(1) [OF u'(4)] by (auto simp: lsq_commit_def lsq_inv_def)
qed

section \<open>Squash\<close>

text \<open>Committed stores are not squashed.\<close>

definition squash_legal :: "LSQUnit \<Rightarrow> inst_heap \<Rightarrow> InstSeqNum \<Rightarrow> bool" where
  "squash_legal u h sq \<longleftrightarrow> (\<forall>e\<in>set (store_entries u). canWB e \<longrightarrow> seqNum (h (the (sq_inst e))) \<le> sq)"

lemma squash_suffix:
  assumes "squash_legal u h sq"
  shows "rev (dropWhile (store_squashed sq h) (rev (store_entries u))) =
      rev (dropWhile (\<lambda>e. sq < seqNum (h (the (sq_inst e)))) (rev (store_entries u)))"
    "takeWhile (store_squashed sq h) (rev (store_entries u)) =
      takeWhile (\<lambda>e. sq < seqNum (h (the (sq_inst e)))) (rev (store_entries u))"
proof -
  have "store_squashed sq h e \<longleftrightarrow> sq < seqNum (h (the (sq_inst e)))" if "e \<in> set (rev (store_entries u))" for e
    using assms that by (fastforce simp: store_squashed_def squash_legal_def)
  then show "rev (dropWhile (store_squashed sq h) (rev (store_entries u))) =
      rev (dropWhile (\<lambda>e. sq < seqNum (h (the (sq_inst e)))) (rev (store_entries u)))"
    "takeWhile (store_squashed sq h) (rev (store_entries u)) =
      takeWhile (\<lambda>e. sq < seqNum (h (the (sq_inst e)))) (rev (store_entries u))"
    by (auto intro!: arg_cong [of _ _ rev] dropWhile_cong takeWhile_cong)
qed

lemma entries_rev_dropWhile:
  assumes "seq_sorted h (map (\<lambda>e. the (sq_inst e)) es)"
  shows "rev (dropWhile (\<lambda>e. sq < seqNum (h (the (sq_inst e)))) (rev es)) = filter (\<lambda>e. seqNum (h (the (sq_inst e))) \<le> sq) es"
  using assms
proof (induction es rule: rev_induct)
  case (snoc e es)
  then have IH: "rev (dropWhile (\<lambda>e. sq < seqNum (h (the (sq_inst e)))) (rev es)) = filter (\<lambda>e. seqNum (h (the (sq_inst e))) \<le> sq) es"
    by (auto simp: sorted_wrt_append)
  show ?case
  proof (cases "sq < seqNum (h (the (sq_inst e)))")
    case False
    then have "filter (\<lambda>e. seqNum (h (the (sq_inst e))) \<le> sq) es = es"
      using snoc.prems by (intro filter_True) (auto simp: sorted_wrt_append)
    then show ?thesis using False by simp
  qed (use IH in simp)
qed simp

lemma filter_prefix:
  "rev (dropWhile P (rev xs)) = take (length (rev (dropWhile P (rev xs)))) xs"
proof -
  have "rev (dropWhile P (rev xs)) @ rev (takeWhile P (rev xs)) = xs"
    by (metis rev_append rev_rev_ident takeWhile_dropWhile_id)
  then show ?thesis by (metis append_eq_conv_conj)
qed

lemma lsq_squash_inv:
  assumes "lsq_inv u h" "squash_legal u h sq" "mldom \<Longrightarrow> squash p sq = Some p'" "\<not> mldom \<Longrightarrow> p' = p"
  shows "\<exists>u' h'. lsq_squash mldom sq (u, h, p) = Some (u', h', p') \<and> lsq_inv u' h' \<and> lsq_frame h h' \<and>
    load_list u' = filter (\<lambda>q. seqNum (h q) \<le> sq) (load_list u) \<and>
    store_entries u' = filter (\<lambda>e. seqNum (h (the (sq_inst e))) \<le> sq) (store_entries u)"
proof -
  note i = lsq_invD [OF assms(1)] note o = order_invD [OF i(5)]
  obtain v where v: "squash_loads (nat (loads u)) sq (decrLdIdx u (loadTail u)) (u, h) =
      Some (v, squash_heap (set (takeWhile (\<lambda>p. sq < seqNum (h p)) (rev (load_list u)))) h)" "lq_inv v"
    "load_list v = rev (dropWhile (\<lambda>p. sq < seqNum (h p)) (rev (load_list u)))" "same_stores u v" "stall_inv v h"
    "LQEntries v = LQEntries u" "loadHead v = loadHead u"
    using squash_loads_ok [OF i(1), of sq h] i(4) by blast
  define g where "g = squash_heap (set (takeWhile (\<lambda>p. sq < seqNum (h p)) (rev (load_list u)))) h"
  have gs: "seqNum (g q) = seqNum (h q)" for q by (simp add: g_def)
  define w where "w = v\<lparr>memDepViolator := forget_younger sq g (memDepViolator v), oblsMissInst := forget_younger sq g (oblsMissInst v)\<rparr>"
  have ww: "same_loads v w" "same_stores u w" "stalled w = stalled v" "stallingStoreIsn w = stallingStoreIsn v" "stallingLoadIdx w = stallingLoadIdx v"
    using v(4) by (simp_all add: w_def same_loads_def same_stores_def)
  note ssw = same_stores_inv [OF ww(2)]
  have L: "load_list v = filter (\<lambda>q. seqNum (h q) \<le> sq) (load_list u)" unfolding v(3) by (rule rev_dropWhile_sorted [OF o(1)])
  have st: "seqNum (g q) \<noteq> stallingStoreIsn w" if s: "stalled w" and q: "sq < seqNum (g q)" for q
  proof -
    have "stalled v" using s ww(3) by simp
    then obtain k where "k < nat (loads v)" "stallingStoreIsn v < seqNum (h (load_list v ! k))"
      using v(5) by (auto simp: stall_inv_def)
    moreover have "load_list v ! k \<in> set (load_list v)" using calculation(1) by simp
    ultimately show ?thesis using q L ww(4) by (auto simp: gs)
  qed
  have sqg: "store_squashed sq g = store_squashed sq h" by (simp add: store_squashed_def gs fun_eq_iff)
  have "sq_inv w" using ssw(1) i(2) by simp
  from squash_stores_ok [OF this, where h = g and sq = sq, OF st] obtain x k where
    x: "squash_stores (nat (stores w)) sq (decrStIdx w (storeTail w)) (w, g) = Some (x, k)" "lsq_frame g k" "sq_inv x"
    "store_entries x = rev (dropWhile (store_squashed sq h) (rev (store_entries u)))" "same_but_stores w x" "storeHead x = storeHead w"
    unfolding ssw(2) sqg using frame_squash_heap by blast
  have fr: "lsq_frame h k" using lsq_frame_trans [OF frame_squash_heap x(2) [unfolded g_def]] .
  have E: "store_entries x = filter (\<lambda>e. seqNum (h (the (sq_inst e))) \<le> sq) (store_entries u)"
    using x(4) entries_rev_dropWhile [of h "store_entries u" sq] o(2) unfolding squash_suffix(1) [OF assms(2)] by (simp add: store_list_def)
  have P: "store_entries x = take (nat (stores x)) (store_entries u)"
    using filter_prefix [of "store_squashed sq h" "store_entries u"] unfolding x(4) [symmetric] by simp
  have S: "store_list x = filter (\<lambda>q. seqNum (h q) \<le> sq) (store_list u)" "store_list x = take (nat (stores x)) (store_list u)"
    unfolding store_list_def by (simp_all add: E filter_map o_def) (simp add: E [symmetric] P take_map [symmetric])
  have sl: "same_loads v x" using ww(1) x(5) by (simp add: same_but_stores_def same_loads_def)
  have lx: "lq_inv x" "load_list x = load_list v" "loadHead x = loadHead u" "LQEntries x = LQEntries u" "loads x = loads v"
    using same_loads_inv [OF sl] v(2,6,7) sl by (simp_all add: same_loads_def)
  have eq: "storeHead x = storeHead u" "SQEntries x = SQEntries u" "storeWBIdx x = storeWBIdx u"
    using x(5,6) ww(2) by (simp_all add: same_but_stores_def same_stores_def)
  have "order_inv x h" unfolding order_inv_def lx(2) L S(1) E
    using o by (auto simp: sorted_wrt_filter)
  moreover have "stall_inv x h"
  proof -
    have "stalled x = stalled v" "stallingLoadIdx x = stallingLoadIdx v" "stallingStoreIsn x = stallingStoreIsn v"
      using x(5) ww by (simp_all add: same_but_stores_def same_stall_def)
    then show ?thesis using v(5,6,7) lx by (simp add: stall_inv_def)
  qed
  moreover have "link_inv x h" unfolding link_inv_def
  proof (intro conjI ballI impI)
    fix e assume "e \<in> set (store_entries x)" "\<not> canWB e"
    then have e: "e \<in> set (store_entries u)" "seqNum (h (the (sq_inst e))) \<le> sq" "lq_link u h (the (sq_inst e))"
      using E i(6) by (auto simp: link_inv_def)
    have "older h (seqNum (h (the (sq_inst e)))) (load_list x) = older h (seqNum (h (the (sq_inst e)))) (load_list u)"
      unfolding lx(2) L older_def filter_filter using e(2) by (intro arg_cong [of _ _ length] filter_cong) auto
    then show "lq_link x h (the (sq_inst e))" using e(3) by (simp add: lq_link_def lx(3,4))
  next
    fix l assume "l \<in> set (load_list x)"
    then have l: "seqNum (h l) \<le> sq" "sq_link u h l" using lx(2) L i(6) by (auto simp: link_inv_def)
    have "older h (seqNum (h l)) (store_list x) = older h (seqNum (h l)) (store_list u)"
      unfolding S(1) older_def filter_filter using l(1) by (intro arg_cong [of _ _ length] filter_cong) auto
    then show "sq_link x h l" using l(2) by (simp add: sq_link_def eq(1,2))
  qed
  moreover have "\<exists>w. wb_at x w"
  proof -
    obtain w where w: "wb_at u w" using i(7) by blast
    have "filter (\<lambda>e. seqNum (h (the (sq_inst e))) \<le> sq) (take w (store_entries u)) = take w (store_entries u)"
      using w assms(2) by (intro filter_True) (auto simp: wb_at_def squash_legal_def dest: in_set_takeD)
    then have "w \<le> length (store_entries x)"
      unfolding E using w by (subst append_take_drop_id [of w "store_entries u", symmetric], subst filter_append) (simp add: wb_at_def)
    moreover have "take w (store_entries x) = take w (store_entries u)" using calculation by (subst P) simp
    moreover have "set (drop w (store_entries x)) \<subseteq> set (drop w (store_entries u))"
      by (subst P) (simp add: drop_take set_take_subset)
    ultimately have "wb_at x w" using w eq by (auto simp: wb_at_def)
    then show ?thesis ..
  qed
  moreover have "head_pending x" using i(3) unfolding head_pending_def
    by (subst P, cases "store_entries u"; cases "nat (stores x)") auto
  ultimately have "lsq_inv x h" using lx(1) x(3) by (simp add: lsq_inv_def)
  then have "lsq_inv x k" by (simp add: lsq_frame_inv [OF fr])
  moreover have "stores w = stores v" "storeTail w = storeTail v" by (simp_all add: w_def)
  then have "lsq_squash mldom sq (u, h, p) = Some (x, k, p')"
    using v(1) x(1) assms(3,4) lq_invD(3) [OF i(1)] sq_invD(3) [OF i(2)]
    by (simp add: lsq_squash_def Let_def g_def [symmetric] w_def [symmetric])
  ultimately show ?thesis using fr lx(2) L E by (intro exI [of _ x] exI [of _ k]) simp
qed

section \<open>Completion of a store\<close>

text \<open>
  The stores that leave the queue are a prefix of it; \<open>m\<close> is their number. What a load or
  the write-back index points to moves with the head.
\<close>

lemma drop_heads_inv:
  assumes "lsq_inv u h" "lq_inv u'" "sq_inv u'" "head_pending u'" "stall_inv u' h" "same_loads u u'"
    and "store_list u' = drop m (store_list u)" "map canWB (store_entries u') = drop m (map canWB (store_entries u))"
    and "m \<le> nat (stores u)" "\<forall>e\<in>set (take m (store_entries u)). canWB e"
    and "storeHead u' = (storeHead u + m) mod SQEntries u" "SQEntries u' = SQEntries u" "\<exists>w. wb_at u' w"
  shows "lsq_inv u' h"
proof -
  note i = lsq_invD [OF assms(1)] note o = order_invD [OF i(5)]
  note sl = same_loads_inv [OF assms(6)]
  have ll: "load_list u' = load_list u" "loadHead u' = loadHead u" "LQEntries u' = LQEntries u"
    using sl assms(6) by (simp_all add: same_loads_def)
  have len: "length (store_entries u') = nat (stores u) - m" using arg_cong [OF assms(8), of length] by simp
  have ent: "\<exists>f\<in>set (store_entries u). the (sq_inst e) = the (sq_inst f) \<and> canWB e = canWB f" if e: "e \<in> set (store_entries u')" for e
  proof -
    obtain j where j: "j < nat (stores u) - m" "e = store_entries u' ! j" using e len by (auto simp: in_set_conv_nth)
    have "the (sq_inst e) = the (sq_inst (store_entries u ! (m + j)))"
      using arg_cong [OF assms(7), of "\<lambda>x. x ! j"] j len by (simp add: store_list_def)
    moreover have "canWB e = canWB (store_entries u ! (m + j))"
      using arg_cong [OF assms(8), of "\<lambda>x. x ! j"] j len by simp
    moreover have "store_entries u ! (m + j) \<in> set (store_entries u)" using j by simp
    ultimately show ?thesis by blast
  qed
  have "order_inv u' h" unfolding order_inv_def ll
  proof (intro conjI)
    show "seq_sorted h (load_list u)" by (rule o(1))
    show "seq_sorted h (store_list u')" unfolding assms(7) by (rule sorted_wrt_drop [OF o(2)])
    show "\<forall>p\<in>set (store_list u'). \<forall>l\<in>set (load_list u). seqNum (h p) \<noteq> seqNum (h l)"
      unfolding assms(7) using o(3) by (auto dest: in_set_dropD)
    have "sorted_wrt (\<lambda>a b. b \<longrightarrow> a) (map canWB (store_entries u'))"
      unfolding assms(8) using o(4) by (intro sorted_wrt_drop) (simp add: sorted_wrt_map)
    then show "sorted_wrt (\<lambda>e f. canWB f \<longrightarrow> canWB e) (store_entries u')" by (simp add: sorted_wrt_map)
    show "\<forall>e\<in>set (store_entries u'). \<forall>l\<in>set (load_list u). canWB e \<longrightarrow> seqNum (h (the (sq_inst e))) < seqNum (h l)"
      using ent o(5) by fastforce
  qed
  moreover have "link_inv u' h" unfolding link_inv_def
  proof (intro conjI ballI impI)
    fix e assume "e \<in> set (store_entries u')" "\<not> canWB e"
    then obtain f where "f \<in> set (store_entries u)" "the (sq_inst e) = the (sq_inst f)" "\<not> canWB f" using ent by blast
    then show "lq_link u' h (the (sq_inst e))" using i(6) by (auto simp: link_inv_def lq_link_def ll)
  next
    fix l assume l: "l \<in> set (load_list u')"
    have "older h (seqNum (h l)) (take m (store_list u)) = length (take m (store_list u))"
    proof (rule older_all, rule ballI)
      fix p assume "p \<in> set (take m (store_list u))"
      then obtain e where e: "e \<in> set (take m (store_entries u))" "p = the (sq_inst e)" by (auto simp: store_list_def take_map)
      then show "seqNum (h p) < seqNum (h l)" using o(5) [of e l] assms(10) l ll(1) by (auto dest: in_set_takeD)
    qed
    then have "older h (seqNum (h l)) (store_list u) = m + older h (seqNum (h l)) (store_list u')"
      using assms(9) by (subst append_take_drop_id [of m "store_list u", symmetric], subst older_append) (simp add: assms(7))
    moreover have "sq_link u h l" using i(6) l ll(1) by (simp add: link_inv_def)
    ultimately show "sq_link u' h l" unfolding sq_link_def Let_def assms(11,12) by (auto simp: mod_add_left_eq add.assoc)
  qed
  ultimately show ?thesis using assms(2-5,13) by (simp add: lsq_inv_def)
qed

lemma dropWhile_drop: "dropWhile P xs = drop (length xs - length (dropWhile P xs)) xs"
  by (metis append_eq_conv_conj diff_add_inverse2 length_append takeWhile_dropWhile_id add.commute)

lemma completed_prefix:
  assumes "length (dropWhile sq_completed es) = n"
  shows "\<forall>e\<in>set (take (length es - n) es). sq_completed e"
proof -
  have "take (length es - n) es = takeWhile sq_completed es"
    using assms by (metis append_eq_conv_conj diff_add_inverse2 length_append takeWhile_dropWhile_id)
  then show ?thesis by (auto dest: set_takeWhileD)
qed

text \<open>
  A store that has been sent completes; or, for the two stores that are never sent, the one
  at the write-back index completes and the index moves on.
\<close>

lemma completeStore_inv:
  assumes "lsq_inv u h" "wb_at u w" "k < nat (stores u)" "pending_wb (store_entries u ! k)"
    and "adv = (k = w)" "k \<le> w"
  shows "\<exists>u' r. completeStore c ((storeHead u + k) mod SQEntries u) (u, h) = Some (u', modify (store_list u ! k) (set_status Completed) h, r) \<and>
    lsq_inv (if adv then u'\<lparr>storeWBIdx := incrStIdx u' (storeWBIdx u')\<rparr> else u') h \<and> same_loads u u' \<and>
    store_entries u' = dropWhile sq_completed ((store_entries u)[k := (store_entries u ! k)\<lparr>sq_completed := True\<rparr>])"
proof -
  note i = lsq_invD [OF assms(1)] note o = order_invD [OF i(5)]
  define es where "es = (store_entries u)[k := (store_entries u ! k)\<lparr>sq_completed := True\<rparr>]"
  obtain u' r where u': "completeStore c ((storeHead u + k) mod SQEntries u) (u, h) = Some (u', modify (store_list u ! k) (set_status Completed) h, r)"
    "sq_inv u'" "lq_inv u'" "stall_inv u' h" "head_pending u'" "store_entries u' = dropWhile sq_completed es"
    "storeWBIdx u' = storeWBIdx u" "SQEntries u' = SQEntries u" "same_loads u u'"
    "storeHead u' = (storeHead u + (nat (stores u) - nat (stores u'))) mod SQEntries u"
    using completeStore_ok [OF i(2,1,4,3) assms(3,4), of c] unfolding es_def by blast
  let ?m = "nat (stores u) - nat (stores u')"
  have len: "length es = nat (stores u)" "length (dropWhile sq_completed es) = nat (stores u')"
    using u'(6) by (simp_all add: es_def flip: length_store_entries(1))
  have dr: "store_entries u' = drop ?m es" using dropWhile_drop [of sq_completed es] u'(6) len by simp
  have comp: "\<forall>e\<in>set (take ?m es). sq_completed e" using completed_prefix [OF len(2)] len(1) by simp
  have esi: "map sq_inst es = map sq_inst (store_entries u)" "map canWB es = map canWB (store_entries u)"
    using assms(3) by (simp_all add: es_def map_update list_update_same_conv)
  have insts: "store_list u' = drop ?m (store_list u)"
  proof -
    have "map (\<lambda>e. the (sq_inst e)) es = map (\<lambda>e. the (sq_inst e)) (store_entries u)"
      using arg_cong [OF esi(1), of "map the"] by (simp add: o_def)
    then show ?thesis unfolding store_list_def dr drop_map [symmetric] by (simp only:)
  qed
  have cw: "map canWB (store_entries u') = drop ?m (map canWB (store_entries u))" unfolding dr esi(2) [symmetric] drop_map ..
  define b where "b = (if adv then Suc w else w)"
  have after: "e \<in> set (drop b es) \<Longrightarrow> \<not> sq_completed e" for e
  proof -
    have "drop b es = drop b (store_entries u)" using assms(5,6) by (auto simp: es_def b_def)
    moreover have "set (drop b (store_entries u)) \<subseteq> set (drop w (store_entries u))" by (simp add: b_def set_drop_subset_set_drop)
    ultimately show "e \<in> set (drop b es) \<Longrightarrow> \<not> sq_completed e" using assms(2) by (auto simp: wb_at_def)
  qed
  have bl: "b \<le> nat (stores u)" using assms(2,3,5) by (auto simp: b_def wb_at_def)
  have "?m \<le> b"
  proof (rule ccontr)
    assume "\<not> ?m \<le> b"
    then have b: "b < ?m" "b < length es" using len(1) by auto
    then have "take ?m es ! b \<in> set (take ?m es)" by (intro nth_mem) simp
    then have "es ! b \<in> set (take ?m es)" using b(1) by simp
    moreover have "es ! b \<in> set (drop b es)" using Cons_nth_drop_Suc [OF b(2), symmetric] by simp
    ultimately show False using comp after by blast
  qed
  have canb: "\<forall>e\<in>set (take b (store_entries u)). canWB e"
  proof -
    have "canWB (store_entries u ! k)" using assms(4) by (simp add: pending_wb_def)
    then show ?thesis using assms(2,3,5) by (auto simp: b_def wb_at_def take_Suc_conv_app_nth)
  qed
  have tk: "\<forall>e\<in>set (take ?m (store_entries u)). canWB e"
    using canb \<open>?m \<le> b\<close> by (meson set_take_subset_set_take subsetD)
  define x where "x = (if adv then u'\<lparr>storeWBIdx := incrStIdx u' (storeWBIdx u')\<rparr> else u')"
  have sx: "same_loads u' x" "store_entries x = store_entries u'" "stores x = stores u'" "storeHead x = storeHead u'" "SQEntries x = SQEntries u'"
    by (simp_all add: x_def same_loads_def store_entries_def)
  have "storeWBIdx x = (storeHead u + b) mod SQEntries u"
    using assms(2) u'(7,8) next_idx_slot [of "SQEntries u" "storeHead u" w] sq_invD(6) [OF i(2)]
    by (simp add: x_def b_def wb_at_def incrStIdx_def)
  then have "storeWBIdx x = (storeHead x + (b - ?m)) mod SQEntries x"
    unfolding sx u'(8,10) mod_add_left_eq using \<open>?m \<le> b\<close> by (simp only: add.assoc le_add_diff_inverse)
  moreover have "take (b - ?m) (store_entries x) = drop ?m (take b es)" by (simp add: sx dr drop_take)
  moreover have "\<forall>e\<in>set (drop ?m (take b es)). canWB e"
  proof -
    have "map canWB (take b es) = map canWB (take b (store_entries u))" using esi(2) unfolding take_map [symmetric] by simp
    then have "canWB ` set (take b es) = canWB ` set (take b (store_entries u))" unfolding set_map [symmetric] by (simp only:)
    then have "canWB e" if "e \<in> set (take b es)" for e using canb that by (metis image_iff)
    then show ?thesis using in_set_dropD by fast
  qed
  moreover have "drop (b - ?m) (store_entries x) = drop b es" using \<open>?m \<le> b\<close> by (simp add: sx dr)
  moreover have "b - ?m \<le> nat (stores x)" using bl \<open>?m \<le> b\<close> unfolding sx(3) by linarith
  ultimately have "wb_at x (b - ?m)" unfolding wb_at_def using after by (simp only:) blast
  then have "\<exists>w. wb_at x w" ..
  moreover have "sq_inv x" "lq_inv x" "head_pending x" "stall_inv x h" "store_list x = store_list u'"
    using u'(2-5) by (simp_all add: x_def sq_inv_def lq_inv_def head_pending_def store_entries_def stall_inv_def load_list_def store_list_def)
  moreover have "same_loads u x" by (rule same_loads_trans [OF u'(9) sx(1)])
  ultimately have "lsq_inv x h"
    using drop_heads_inv [OF assms(1), of x ?m] insts cw tk u'(8,10) by (simp add: sx)
  then show ?thesis using u'(1,6,9) unfolding x_def es_def by blast
qed

end
