(* ===== verification/LSQ_Forward.thy ===== *)
theory LSQ_Forward
  imports LSQ_Inv
begin

text \<open>
  Loads that look for their data in the store queue (the first half of \<^verbatim>\<open>LSQUnit::read\<close> in
  \<^verbatim>\<open>lsq_unit.hh\<close>), and the proof that a load gets the bytes that the older stores of the
  program leave in memory.
\<close>

section \<open>Operations\<close>

datatype fwd_result = Forwarded "8 word list" | PartialOverlap nat | NotForwarded

text \<open>Stores that are considered: the others carry no data or go to a device.\<close>

definition forwardable :: "inst_heap \<Rightarrow> SQEntry \<Rightarrow> DynInstPtr \<Rightarrow> bool" where
  "forwardable h e p \<longleftrightarrow> \<not> (sq_size e = 0 \<or> strictlyOrdered (h p) \<or>
     (case sq_req e of Some r \<Rightarrow> isCacheMaintenance r | None \<Rightarrow> False))"

text \<open>
  The loop from the youngest older store to the write-back index; a walk inside the ring
  takes at most as many steps as there are entries. The sums are taken in \<^verbatim>\<open>Addr\<close>.
\<close>

fun forward_loop :: "nat \<Rightarrow> Request \<Rightarrow> LSQUnit \<Rightarrow> inst_heap \<Rightarrow> nat \<Rightarrow> fwd_result option" where
  "forward_loop 0 req u h store_idx = (if store_idx = storeWBIdx u then Some NotForwarded else None)"
| "forward_loop (Suc n) req u h store_idx =
     (if store_idx = storeWBIdx u then Some NotForwarded
      else do {
        let store_idx = decrStIdx u store_idx;
        (e, p) \<leftarrow> store_at u store_idx;
        if \<not> forwardable h e p then forward_loop n req u h store_idx
        else do {
          assertion (instFlags (h p) EffAddrValid);
          let ea = effAddr (ldst (h p));
          let store_has_lower_limit = (getVaddr req \<ge> ea);
          let store_has_upper_limit = (getVaddr req + of_nat (getSize req) \<le> ea + of_nat (sq_size e));
          let lower_load_has_store_part = (getVaddr req < ea + of_nat (sq_size e));
          let upper_load_has_store_part = (getVaddr req + of_nat (getSize req) > ea);
          if store_has_lower_limit \<and> store_has_upper_limit \<and> \<not> isLLSC req
          then if isAllZeros e then Some (Forwarded (replicate (getSize req) 0))
               else do {
                 let shift_amt = unat (getVaddr req - ea);
                 assertion (shift_amt + getSize req \<le> length (sq_data e));
                 Some (Forwarded (take (getSize req) (drop shift_amt (sq_data e))))
               }
          else if (\<not> isLLSC req \<and>
                   (store_has_lower_limit \<and> lower_load_has_store_part \<or>
                    store_has_upper_limit \<and> upper_load_has_store_part \<or>
                    lower_load_has_store_part \<and> upper_load_has_store_part)) \<or>
                  (isLLSC req \<and> (store_has_lower_limit \<or> upper_load_has_store_part) \<and>
                   (store_has_upper_limit \<or> lower_load_has_store_part))
          then do { assertion (\<not> sq_completed e); Some (PartialOverlap store_idx) }
          else forward_loop n req u h store_idx
        }
      })"

definition forward :: "Request \<Rightarrow> LSQUnit \<Rightarrow> inst_heap \<Rightarrow> int \<Rightarrow> fwd_result option" where
  "forward req u h store_idx =
     (if store_idx = -1 then Some NotForwarded else forward_loop (SQEntries u) req u h (nat store_idx))"

text \<open>
  The outcome of the queue part of \<^verbatim>\<open>read\<close>: the load is retried, reads a memory-mapped
  register, is answered by a store, or goes on to the cache. The second component of the
  state changes is the load given to \<^verbatim>\<open>rescheduleMemInst\<close>.
\<close>

datatype read_outcome = ReplayStrictlyOrdered | ReadIpr | ReadForwarded | ReadStalled | ReadCache

definition clearIssued :: "DynInst \<Rightarrow> DynInst" where
  "clearIssued i = reset_status Issued i"

definition read_queue ::
  "Request \<Rightarrow> bool \<Rightarrow> nat \<Rightarrow> LSQUnit \<times> inst_heap \<Rightarrow> (read_outcome \<times> LSQUnit \<times> inst_heap) option" where
  "read_queue req split load_idx s = do {
     let (u, h) = s;
     load_inst \<leftarrow> load_at u load_idx;
     if isStrictlyOrdered req \<and> (load_idx \<noteq> loadHead u \<or> \<not> status (h load_inst) AtCommit)
     then Some (ReplayStrictlyOrdered, u, h)
     else do {
       assertion (isLLSC req \<longrightarrow> \<not> split);
       if isMmappedIpr req then do {
         assertion (memData (ldst (h load_inst)) = None);
         Some (ReadIpr, u, h)
       }
       else do {
         r \<leftarrow> forward req u h (sqIdx (ldst (h load_inst)));
         case r of
           Forwarded bytes \<Rightarrow>
             Some (ReadForwarded, u, modify load_inst (\<lambda>i. i\<lparr>ldst := (ldst i)\<lparr>memData := Some bytes\<rparr>,
               sdo := (sdo i)\<lparr>if_ldStFwd := True\<rparr>\<rparr>) h)
         | PartialOverlap store_idx \<Rightarrow> do {
             (e, p) \<leftarrow> store_at u store_idx;
             older_load \<leftarrow> (if stalled u then do {
                 q \<leftarrow> load_at u (stallingLoadIdx u); Some (seqNum (h load_inst) < seqNum (h q)) } else Some True);
             let u = (if older_load then u\<lparr>stalled := True, stallingStoreIsn := seqNum (h p), stallingLoadIdx := load_idx\<rparr> else u);
             Some (ReadStalled, u, modify load_inst clearIssued h)
           }
         | NotForwarded \<Rightarrow> Some (ReadCache, u, h)
       }
     }
   }"

section \<open>Memory in program order\<close>

text \<open>What a store writes, and what a load reads, in a memory of bytes.\<close>

definition apply_store :: "inst_heap \<Rightarrow> SQEntry \<Rightarrow> (Addr \<Rightarrow> 8 word) \<Rightarrow> Addr \<Rightarrow> 8 word" where
  "apply_store h e m = (if forwardable h e (the (sq_inst e))
     then (\<lambda>a. let k = unat (a - effAddr (ldst (h (the (sq_inst e))))) in
            if k < sq_size e then if isAllZeros e then 0 else sq_data e ! k else m a)
     else m)"

definition apply_stores :: "inst_heap \<Rightarrow> SQEntry list \<Rightarrow> (Addr \<Rightarrow> 8 word) \<Rightarrow> Addr \<Rightarrow> 8 word" where
  "apply_stores h es m = fold (apply_store h) es m"

definition load_bytes :: "Request \<Rightarrow> (Addr \<Rightarrow> 8 word) \<Rightarrow> 8 word list" where
  "load_bytes req m = map (\<lambda>i. m (getVaddr req + of_nat i)) [0..<getSize req]"

text \<open>
  A store with data has a valid address, does not run over the end of the address space,
  and its data fit the entry unless it only writes zeros.
\<close>

definition entry_ok :: "inst_heap \<Rightarrow> SQEntry \<Rightarrow> bool" where
  "entry_ok h e \<longleftrightarrow> length (sq_data e) = 16 \<and> (forwardable h e (the (sq_inst e)) \<longrightarrow>
     instFlags (h (the (sq_inst e))) EffAddrValid \<and> unat (effAddr (ldst (h (the (sq_inst e))))) + sq_size e < 2 ^ 64 \<and>
     (isAllZeros e \<or> sq_size e \<le> 16))"

definition load_ok :: "Request \<Rightarrow> bool" where
  "load_ok req \<longleftrightarrow> 0 < getSize req \<and> unat (getVaddr req) + getSize req < 2 ^ 64"

definition overlaps :: "inst_heap \<Rightarrow> SQEntry \<Rightarrow> Request \<Rightarrow> bool" where
  "overlaps h e req \<longleftrightarrow> unat (getVaddr req) < unat (effAddr (ldst (h (the (sq_inst e))))) + sq_size e \<and>
     unat (effAddr (ldst (h (the (sq_inst e))))) < unat (getVaddr req) + getSize req"

lemma apply_stores_snoc: "apply_stores h (es @ [e]) m = apply_store h e (apply_stores h es m)"
  by (simp add: apply_stores_def)

lemma unat_sum:
  fixes a :: Addr
  assumes "unat a + n < 2 ^ 64"
  shows "unat (a + of_nat n) = unat a + n"
  using assms by (simp add: unat_word_ariths(1) unat_of_nat)

lemma unat_offset:
  fixes a b :: Addr
  assumes "unat b + unat (a - b) < 2 ^ 64"
  shows "unat a = unat b + unat (a - b)"
proof -
  have "unat (b + (a - b)) = (unat b + unat (a - b)) mod 2 ^ 64" by (subst unat_word_ariths(1)) simp
  then show ?thesis using assms by simp
qed

lemma disjoint_store:
  assumes "entry_ok h e" "load_ok req" "forwardable h e (the (sq_inst e)) \<Longrightarrow> \<not> overlaps h e req"
  shows "load_bytes req (apply_store h e m) = load_bytes req m"
proof (cases "forwardable h e (the (sq_inst e))")
  case True
  let ?ea = "effAddr (ldst (h (the (sq_inst e))))"
  have far: "\<not> unat (getVaddr req + of_nat i - ?ea) < sq_size e" if "i < getSize req" for i
  proof
    assume lt: "unat (getVaddr req + of_nat i - ?ea) < sq_size e"
    have a: "unat (getVaddr req + of_nat i) = unat (getVaddr req) + i" using assms(2) that by (intro unat_sum) (simp add: load_ok_def)
    have "unat ?ea + unat (getVaddr req + of_nat i - ?ea) < 2 ^ 64" using lt assms(1) True by (simp add: entry_ok_def)
    then have "unat (getVaddr req + of_nat i) = unat ?ea + unat (getVaddr req + of_nat i - ?ea)"
      by (rule unat_offset)
    then show False using lt a that assms(3) [OF True] by (auto simp: overlaps_def)
  qed
  then show ?thesis using True by (auto simp: load_bytes_def apply_store_def Let_def)
qed (simp add: apply_store_def)

lemma covering_store:
  assumes "entry_ok h e" "load_ok req" "forwardable h e (the (sq_inst e))"
    and "unat (effAddr (ldst (h (the (sq_inst e))))) \<le> unat (getVaddr req)"
    and "unat (getVaddr req) + getSize req \<le> unat (effAddr (ldst (h (the (sq_inst e))))) + sq_size e"
  defines "k \<equiv> unat (getVaddr req - effAddr (ldst (h (the (sq_inst e)))))"
  shows "k + getSize req \<le> sq_size e"
    "load_bytes req (apply_store h e m) = (if isAllZeros e then replicate (getSize req) 0 else take (getSize req) (drop k (sq_data e)))"
proof -
  let ?ea = "effAddr (ldst (h (the (sq_inst e))))"
  have k: "k = unat (getVaddr req) - unat ?ea" unfolding k_def using assms(4) by (simp add: unat_sub word_le_nat_alt)
  then show le: "k + getSize req \<le> sq_size e" using assms(4,5) by linarith
  have at: "unat (getVaddr req + of_nat i - ?ea) = k + i" if "i < getSize req" for i
  proof -
    have "unat (getVaddr req - ?ea) + i < 2 ^ 64" using that le assms(1,3) by (simp add: k_def entry_ok_def)
    from unat_sum [OF this] show ?thesis by (simp add: k_def algebra_simps)
  qed
  have "sq_size e \<le> length (sq_data e)" if "\<not> isAllZeros e" using assms(1,3) that by (simp add: entry_ok_def)
  then show "load_bytes req (apply_store h e m) = (if isAllZeros e then replicate (getSize req) 0 else take (getSize req) (drop k (sq_data e)))"
    using le at assms(3) by (intro nth_equalityI) (auto simp: load_bytes_def apply_store_def Let_def)
qed

text \<open>The comparisons of the code say how the two byte ranges lie.\<close>

lemma limits:
  assumes "entry_ok h e" "load_ok req" "forwardable h e (the (sq_inst e))"
  defines "ea \<equiv> effAddr (ldst (h (the (sq_inst e))))"
  shows "ea \<le> getVaddr req \<longleftrightarrow> unat ea \<le> unat (getVaddr req)"
    "getVaddr req + of_nat (getSize req) \<le> ea + of_nat (sq_size e) \<longleftrightarrow> unat (getVaddr req) + getSize req \<le> unat ea + sq_size e"
    "getVaddr req < ea + of_nat (sq_size e) \<longleftrightarrow> unat (getVaddr req) < unat ea + sq_size e"
    "ea < getVaddr req + of_nat (getSize req) \<longleftrightarrow> unat ea < unat (getVaddr req) + getSize req"
proof -
  have s: "unat (ea + of_nat (sq_size e)) = unat ea + sq_size e"
    unfolding ea_def by (rule unat_sum) (use assms(1,3) in \<open>simp add: entry_ok_def\<close>)
  have l: "unat (getVaddr req + of_nat (getSize req)) = unat (getVaddr req) + getSize req"
    by (rule unat_sum) (use assms(2) in \<open>simp add: load_ok_def\<close>)
  show "ea \<le> getVaddr req \<longleftrightarrow> unat ea \<le> unat (getVaddr req)"
    "getVaddr req + of_nat (getSize req) \<le> ea + of_nat (sq_size e) \<longleftrightarrow> unat (getVaddr req) + getSize req \<le> unat ea + sq_size e"
    "getVaddr req < ea + of_nat (sq_size e) \<longleftrightarrow> unat (getVaddr req) < unat ea + sq_size e"
    "ea < getVaddr req + of_nat (getSize req) \<longleftrightarrow> unat ea < unat (getVaddr req) + getSize req"
    by (simp_all add: word_le_nat_alt word_less_nat_alt s l)
qed

section \<open>The result of the walk\<close>

definition older_overlap :: "inst_heap \<Rightarrow> SQEntry \<Rightarrow> Request \<Rightarrow> bool" where
  "older_overlap h e req \<longleftrightarrow> forwardable h e (the (sq_inst e)) \<and> overlaps h e req"

fun fwd_spec :: "Request \<Rightarrow> LSQUnit \<Rightarrow> inst_heap \<Rightarrow> nat \<Rightarrow> nat \<Rightarrow> fwd_result \<Rightarrow> bool" where
  "fwd_spec req u h w j (Forwarded bs) \<longleftrightarrow> (\<forall>m. bs = load_bytes req (apply_stores h (take j (store_entries u)) m))"
| "fwd_spec req u h w j (PartialOverlap i) \<longleftrightarrow> (\<exists>k. w \<le> k \<and> k < j \<and> i = (storeHead u + k) mod SQEntries u \<and>
     older_overlap h (store_entries u ! k) req)"
| "fwd_spec req u h w j NotForwarded \<longleftrightarrow> (\<forall>m. load_bytes req (apply_stores h (take j (store_entries u)) m) =
     load_bytes req (apply_stores h (take w (store_entries u)) m))"

lemma fwd_spec_step:
  assumes "fwd_spec req u h w j r" "j < nat (stores u)" "entry_ok h (store_entries u ! j)" "load_ok req"
    and "\<not> older_overlap h (store_entries u ! j) req"
  shows "fwd_spec req u h w (Suc j) r"
proof -
  have "load_bytes req (apply_stores h (take (Suc j) (store_entries u)) m) = load_bytes req (apply_stores h (take j (store_entries u)) m)" for m
    using disjoint_store [OF assms(3,4)] assms(2,5) by (simp add: take_Suc_conv_app_nth apply_stores_snoc older_overlap_def)
  then show ?thesis using assms(1) by (cases r) (auto intro: less_SucI)
qed

lemma forward_loop_spec:
  assumes "sq_inv u" "wb_at u w" "w \<le> j" "j \<le> nat (stores u)" "j - w \<le> fuel" "load_ok req"
    and "\<And>e. e \<in> set (store_entries u) \<Longrightarrow> entry_ok h e"
  shows "\<exists>r. forward_loop fuel req u h ((storeHead u + j) mod SQEntries u) = Some r \<and> fwd_spec req u h w j r"
  using assms(3-5)
proof (induction fuel arbitrary: j)
  case 0
  then have "j = w" by simp
  then show ?case using assms(2) by (simp add: wb_at_def)
next
  case (Suc fuel)
  note d = sq_invD [OF assms(1)]
  have wb: "(storeHead u + j) mod SQEntries u = storeWBIdx u \<longleftrightarrow> j = w"
    using assms(2) d(4) Suc.prems(1,2) ring_slot_inj [of "storeHead u" j "SQEntries u" w] by (auto simp: wb_at_def)
  show ?case
  proof (cases "j = w")
    case True
    then show ?thesis using wb by simp
  next
    case False
    then obtain i where i: "j = Suc i" "w \<le> i" "i < nat (stores u)" using Suc.prems by (cases j) auto
    define e where "e = store_entries u ! i"
    have prev: "decrStIdx u ((storeHead u + j) mod SQEntries u) = (storeHead u + i) mod SQEntries u"
      unfolding i(1) decrStIdx_def by (rule prev_idx_slot [OF d(6)])
    have at: "store_at u ((storeHead u + i) mod SQEntries u) = Some (e, the (sq_inst e))"
      using store_slot(2) [OF assms(1) i(3)] i(3) by (simp add: e_def store_list_def)
    have ok: "entry_ok h e" using assms(7) i(3) by (simp add: e_def)
    obtain r where r: "forward_loop fuel req u h ((storeHead u + i) mod SQEntries u) = Some r" "fwd_spec req u h w i r"
    proof -
      have "i \<le> nat (stores u)" "i - w \<le> fuel" using i Suc.prems(3) by linarith+
      then show ?thesis using Suc.IH [OF i(2)] that by blast
    qed
    have nc: "\<not> sq_completed e"
    proof -
      have "drop w (store_entries u) ! (i - w) \<in> set (drop w (store_entries u))" using i by (intro nth_mem) simp
      then show ?thesis using assms(2) i(2,3) by (simp add: wb_at_def e_def)
    qed
    show ?thesis
    proof (cases "forwardable h e (the (sq_inst e))")
      case False
      then have "forward_loop (Suc fuel) req u h ((storeHead u + j) mod SQEntries u) = Some r"
        using wb \<open>j \<noteq> w\<close> prev at r(1) by simp
      then show ?thesis using fwd_spec_step [OF r(2) i(3)] ok False assms(6) i(1) by (auto simp: e_def older_overlap_def)
    next
      case True
      have valid: "instFlags (h (the (sq_inst e))) EffAddrValid" using ok True by (simp add: entry_ok_def)
      note lim = limits [OF ok assms(6) True]
      have pos: "0 < getSize req" using assms(6) by (simp add: load_ok_def)
      let ?ea = "effAddr (ldst (h (the (sq_inst e))))"
      have unf: "forward_loop (Suc fuel) req u h ((storeHead u + j) mod SQEntries u) =
        (if unat ?ea \<le> unat (getVaddr req) \<and> unat (getVaddr req) + getSize req \<le> unat ?ea + sq_size e \<and> \<not> isLLSC req
         then if isAllZeros e then Some (Forwarded (replicate (getSize req) 0))
              else do { assertion (unat (getVaddr req - ?ea) + getSize req \<le> length (sq_data e));
                        Some (Forwarded (take (getSize req) (drop (unat (getVaddr req - ?ea)) (sq_data e)))) }
         else if overlaps h e req then Some (PartialOverlap ((storeHead u + i) mod SQEntries u))
         else Some r)"
        using wb \<open>j \<noteq> w\<close> prev at True valid nc r(1) pos by (auto simp: Let_def lim overlaps_def)
      show ?thesis
      proof (cases "unat ?ea \<le> unat (getVaddr req) \<and> unat (getVaddr req) + getSize req \<le> unat ?ea + sq_size e \<and> \<not> isLLSC req")
        case cov: True
        note c = covering_store [OF ok assms(6) True]
        have "unat (getVaddr req - ?ea) + getSize req \<le> length (sq_data e)" if "\<not> isAllZeros e"
          using c(1) cov that ok True by (simp add: entry_ok_def)
        then have "forward_loop (Suc fuel) req u h ((storeHead u + j) mod SQEntries u) =
            Some (Forwarded (if isAllZeros e then replicate (getSize req) 0 else take (getSize req) (drop (unat (getVaddr req - ?ea)) (sq_data e))))"
          unfolding unf if_P [OF cov] by simp
        then show ?thesis using c(2) cov i by (simp add: take_Suc_conv_app_nth apply_stores_snoc e_def)
      next
        case nocov: False
        show ?thesis
        proof (cases "overlaps h e req")
          case ov: True
          then have "forward_loop (Suc fuel) req u h ((storeHead u + j) mod SQEntries u) = Some (PartialOverlap ((storeHead u + i) mod SQEntries u))"
            unfolding unf if_not_P [OF nocov] by simp
          then show ?thesis using ov i True by (auto simp: older_overlap_def e_def intro!: exI [of _ i])
        next
          case no: False
          then have "forward_loop (Suc fuel) req u h ((storeHead u + j) mod SQEntries u) = Some r" unfolding unf if_not_P [OF nocov] by simp
          then show ?thesis using fwd_spec_step [OF r(2) i(3)] ok no assms(6) i(1) by (auto simp: e_def older_overlap_def)
        qed
      qed
    qed
  qed
qed

section \<open>Loads read the memory of the program\<close>

lemma sent_before_load:
  assumes "lsq_inv u h" "wb_at u w" "l \<in> set (load_list u)"
  shows "w \<le> older h (seqNum (h l)) (store_list u)"
proof (cases w)
  case (Suc n)
  note o = order_invD [OF lsq_invD(5) [OF assms(1)]]
  have n: "n < nat (stores u)" using assms(2) Suc by (simp add: wb_at_def)
  then have "store_entries u ! n \<in> set (take w (store_entries u))"
    using Suc by (auto simp: take_Suc_conv_app_nth)
  then have "canWB (store_entries u ! n)" using assms(2) by (simp add: wb_at_def)
  then have "seqNum (h (store_list u ! n)) < seqNum (h l)"
    using o(5) [of "store_entries u ! n" l] assms(3) n by (simp add: store_list_def)
  then have "n < older h (seqNum (h l)) (store_list u)" using sorted_older_iff [OF o(2), of n] n by simp
  then show ?thesis using Suc by simp
qed simp

lemma forward_ok:
  assumes "lsq_inv u h" "wb_at u w" "l \<in> set (load_list u)" "load_ok req" "\<forall>e\<in>set (store_entries u). entry_ok h e"
  shows "\<exists>r. forward req u h (sqIdx (ldst (h l))) = Some r \<and> fwd_spec req u h w (older h (seqNum (h l)) (store_list u)) r"
proof -
  note i = lsq_invD [OF assms(1)]
  let ?c = "older h (seqNum (h l)) (store_list u)"
  have c: "w \<le> ?c" "?c \<le> nat (stores u)" "?c - w \<le> SQEntries u"
    using sent_before_load [OF assms(1-3)] older_le [of h "seqNum (h l)" "store_list u"] sq_invD(4) [OF i(2)] by auto
  have link: "sqIdx (ldst (h l)) = -1 \<and> ?c = 0 \<or> sqIdx (ldst (h l)) = int ((storeHead u + ?c) mod SQEntries u)"
    using i(6) assms(3) by (auto simp: link_inv_def sq_link_def Let_def)
  show ?thesis
  proof (cases "sqIdx (ldst (h l)) = -1")
    case True
    then have "w = 0" "?c = 0" using link c(1) by auto
    then show ?thesis using True by (simp add: forward_def)
  next
    case False
    then have "forward req u h (sqIdx (ldst (h l))) = forward_loop (SQEntries u) req u h ((storeHead u + ?c) mod SQEntries u)"
      using link by (simp add: forward_def)
    then show ?thesis using forward_loop_spec [OF i(2) assms(2) c assms(4), of h] assms(5) by simp
  qed
qed


text \<open>The rest of the queue part of \<^verbatim>\<open>read\<close> keeps the invariant and fails no assertion.\<close>

lemma read_queue_ok:
  assumes "lsq_inv u h" "k < nat (loads u)" "load_ok req" "\<forall>e\<in>set (store_entries u). entry_ok h e"
    and "isLLSC req \<longrightarrow> \<not> split" "isMmappedIpr req \<longrightarrow> memData (ldst (h (load_list u ! k))) = None"
  shows "\<exists>r u' h'. read_queue req split ((loadHead u + k) mod LQEntries u) (u, h) = Some (r, u', h') \<and> lsq_inv u' h' \<and>
    lsq_frame h h' \<and> same_loads u u' \<and> same_stores u u'"
proof -
  note i = lsq_invD [OF assms(1)] note o = order_invD [OF i(5)]
  obtain w where w: "wb_at u w" using i(7) by blast
  let ?i = "(loadHead u + k) mod LQEntries u" and ?l = "load_list u ! k"
  have at: "load_at u ?i = Some ?l" by (rule load_slot(1) [OF i(1) assms(2)])
  have mem: "?l \<in> set (load_list u)" using assms(2) by simp
  obtain r where r: "forward req u h (sqIdx (ldst (h ?l))) = Some r" "fwd_spec req u h w (older h (seqNum (h ?l)) (store_list u)) r"
    using forward_ok [OF assms(1) w mem assms(3,4)] by blast
  consider "isStrictlyOrdered req \<and> (?i \<noteq> loadHead u \<or> \<not> status (h ?l) AtCommit)"
    | "\<not> (isStrictlyOrdered req \<and> (?i \<noteq> loadHead u \<or> \<not> status (h ?l) AtCommit))" "isMmappedIpr req"
    | "\<not> (isStrictlyOrdered req \<and> (?i \<noteq> loadHead u \<or> \<not> status (h ?l) AtCommit))" "\<not> isMmappedIpr req" by blast
  then show ?thesis
  proof cases
    case 3
    show ?thesis
    proof (cases r)
      case (Forwarded bs)
      let ?h = "modify ?l (\<lambda>i. i\<lparr>ldst := (ldst i)\<lparr>memData := Some bs\<rparr>, sdo := (sdo i)\<lparr>if_ldStFwd := True\<rparr>\<rparr>) h"
      have fr: "lsq_frame h ?h" by (simp add: lsq_frame_def modify_apply)
      have "read_queue req split ?i (u, h) = Some (ReadForwarded, u, ?h)"
        using 3 at r(1) Forwarded assms(5) by (simp add: read_queue_def)
      then show ?thesis using fr assms(1) lsq_frame_inv [OF fr] by auto
    next
      case (PartialOverlap j)
      then obtain n where n: "n < older h (seqNum (h ?l)) (store_list u)" "j = (storeHead u + n) mod SQEntries u" using r(2) by auto
      have ns: "n < nat (stores u)" using n(1) older_le [of h "seqNum (h ?l)" "store_list u"] by simp
      have st: "store_at u j = Some (store_entries u ! n, store_list u ! n)" unfolding n(2) by (rule store_slot(2) [OF i(2) ns])
      have lt: "seqNum (h (store_list u ! n)) < seqNum (h ?l)" using sorted_older_iff [OF o(2), of n] ns n(1) by simp
      define b where "b = (if stalled u then do { q \<leftarrow> load_at u (stallingLoadIdx u); Some (seqNum (h ?l) < seqNum (h q)) } else Some True)"
      obtain x where x: "b = Some x"
      proof (cases "stalled u")
        case True
        then obtain m where "m < nat (loads u)" "stallingLoadIdx u = (loadHead u + m) mod LQEntries u" using i(4) by (auto simp: stall_inv_def)
        then show ?thesis using that load_slot(1) [OF i(1)] True by (simp add: b_def)
      qed (use that in \<open>simp add: b_def\<close>)
      define v where "v = (if x then u\<lparr>stalled := True, stallingStoreIsn := seqNum (h (store_list u ! n)), stallingLoadIdx := ?i\<rparr> else u)"
      let ?h = "modify ?l clearIssued h"
      have fr: "lsq_frame h ?h" by (simp add: lsq_frame_def modify_apply clearIssued_def reset_status_def)
      have same: "same_loads u v" "same_stores u v" by (simp_all add: v_def same_loads_def same_stores_def)
      have "read_queue req split ?i (u, h) = Some (ReadStalled, v, ?h)"
        using 3 at r(1) PartialOverlap assms(5) st x by (simp add: read_queue_def b_def [symmetric] v_def)
      moreover have "stall_inv v h"
        using i(4) assms(2) lt by (cases x) (auto simp: v_def stall_inv_def load_list_def intro!: exI [of _ k])
      then have "lsq_inv v h" using assms(1) same_loads_inv [OF same(1)] same_stores_inv [OF same(2)] same
        by (simp add: lsq_inv_def order_inv_def link_inv_def lq_link_def sq_link_def wb_at_def same_loads_def same_stores_def)
      ultimately show ?thesis using fr same lsq_frame_inv [OF fr] by auto
    next
      case NotForwarded
      then have "read_queue req split ?i (u, h) = Some (ReadCache, u, h)" using 3 at r(1) assms(5) by (simp add: read_queue_def)
      then show ?thesis using assms(1) by auto
    qed
  qed (use at assms(1,5,6) in \<open>auto simp: read_queue_def\<close>)
qed

end
