(* ===== verification/LSQ_Check.thy ===== *)
theory LSQ_Check
  imports LSQ_Inv
begin

text \<open>
  The searches through the load queue: memory order violations found by an executing store
  or load, invalidations from outside, the loads that may be exposed, and the speculation
  buffer (\<^verbatim>\<open>checkViolations\<close>, \<^verbatim>\<open>checkSnoop\<close>, \<^verbatim>\<open>checkPrevLoadsExecuted\<close>, \<^verbatim>\<open>checkSpecBufHit\<close>,
  \<^verbatim>\<open>findProbeLoad\<close>, \<^verbatim>\<open>executeStore\<close> and \<^verbatim>\<open>updateVisibleState\<close> of \<^verbatim>\<open>lsq_unit_impl.hh\<close>).
\<close>

section \<open>Memory order violations\<close>

definition last_byte :: "DynInst \<Rightarrow> Addr" where
  "last_byte i = effAddr (ldst i) + of_nat (effSize (ldst i)) - 1"

definition addr_conflict :: "nat \<Rightarrow> DynInst \<Rightarrow> DynInst \<Rightarrow> bool" where
  "addr_conflict shift i l \<longleftrightarrow> drop_bit shift (last_byte i) \<ge> drop_bit shift (effAddr (ldst l)) \<and>
     drop_bit shift (effAddr (ldst i)) \<le> drop_bit shift (last_byte l)"

text \<open>Loads that have not been sent need no check.\<close>

definition not_checked :: "DynInst \<Rightarrow> bool" where
  "not_checked l \<longleftrightarrow> \<not> instFlags l EffAddrValid \<or> strictlyOrdered l \<or> fenceDelay l"

text \<open>
  The body of the loop; the state is the fault to return, \<^verbatim>\<open>memDepViolator\<close> and the heap.
\<close>

type_synonym violation_state = "Fault option \<times> DynInstPtr option \<times> inst_heap"

definition check_violation :: "nat \<Rightarrow> DynInstPtr \<Rightarrow> DynInstPtr \<Rightarrow> violation_state \<Rightarrow> (bool \<times> violation_state) option" where
  "check_violation shift inst ld s = (let (f, v, h) = s in
     if not_checked (h ld) \<or> \<not> addr_conflict shift (h inst) (h ld) then Some (True, f, v, h)
     else if isLoad (h inst) then
       if instFlags (h ld) HitExternalSnoop \<and> (case v of None \<Rightarrow> True | Some m \<Rightarrow> seqNum (h ld) < seqNum (h m))
       then Some (False, Some M5PanicFault, Some ld, h)
       else Some (True, f, v, modify ld (set_flag PossibleLoadViolation True) h)
     else if (case v of None \<Rightarrow> False | Some m \<Rightarrow> seqNum (h ld) > seqNum (h m)) then Some (False, f, v, h)
     else Some (False, Some M5PanicFault, Some ld, h))"

definition checkViolations ::
  "nat \<Rightarrow> DynInstPtr \<Rightarrow> LSQUnit \<times> inst_heap \<Rightarrow> (Fault option \<times> LSQUnit \<times> inst_heap) option" where
  "checkViolations load_idx inst s = do {
     let (u, h) = s;
     (f, v, h) \<leftarrow> walk (LQEntries u) (LQEntries u)
       (\<lambda>i s. do { ld \<leftarrow> load_at u i; check_violation (depCheckShift u) inst ld s })
       load_idx (loadTail u) (None, memDepViolator u, h);
     Some (f, u\<lparr>memDepViolator := v\<rparr>, h)
   }"

text \<open>
  Executing a store: \<^verbatim>\<open>initiateAcc\<close> runs the instruction, which calls \<^verbatim>\<open>LSQUnit::write\<close>; what it
  does is an argument.
\<close>

definition executeStore ::
  "(DynInstPtr \<Rightarrow> LSQUnit \<times> inst_heap \<Rightarrow> (Fault option \<times> LSQUnit \<times> inst_heap) option) \<Rightarrow>
   DynInstPtr \<Rightarrow> LSQUnit \<times> inst_heap \<Rightarrow> (Fault option \<times> LSQUnit \<times> inst_heap) option" where
  "executeStore initiateAcc store_inst s = do {
     let (u, h) = s;
     assertion (stores u \<noteq> 0);
     let store_idx = nat (sqIdx (ldst (h store_inst)));
     assertion (\<not> isSquashed (h store_inst));
     let load_idx = nat (lqIdx (ldst (h store_inst)));
     (store_fault, u, h) \<leftarrow> initiateAcc store_inst (u, h);
     if instFlags (h store_inst) TranslationStarted \<and> \<not> instFlags (h store_inst) TranslationCompleted \<and> store_fault = None
     then Some (store_fault, u, h)
     else if \<not> instFlags (h store_inst) Predicate then Some (store_fault, u, h)
     else do {
       e \<leftarrow> vec_get (storeQueue u) store_idx;
       if sq_size e = 0 then Some (store_fault, u, h)
       else do {
         assertion (store_fault = None);
         u \<leftarrow> (if si_isStoreConditional (staticInst (h store_inst))
               then do { q \<leftarrow> vec_set (storeQueue u) store_idx (e\<lparr>canWB := True\<rparr>);
                         Some (u\<lparr>storeQueue := q, storesToWB := storesToWB u + 1\<rparr>) }
               else Some u);
         checkViolations load_idx store_inst (u, h)
       }
     }
   }"

section \<open>Walks as loops over a list\<close>

fun walk_list :: "('a \<Rightarrow> 's \<Rightarrow> (bool \<times> 's) option) \<Rightarrow> 'a list \<Rightarrow> 's \<Rightarrow> 's option" where
  "walk_list f [] s = Some s"
| "walk_list f (x # xs) s = do { (go, s) \<leftarrow> f x s; if go then walk_list f xs s else Some s }"

lemma walk_loads:
  assumes "lq_inv u" "k \<le> nat (loads u)" "nat (loads u) - k \<le> fuel"
  shows "walk fuel (LQEntries u) (\<lambda>i s. do { l \<leftarrow> load_at u i; f l s }) ((loadHead u + k) mod LQEntries u) (loadTail u) s =
    walk_list f (drop k (load_list u)) s"
  using assms(2,3)
proof (induction fuel arbitrary: k s)
  case 0
  then have "k = nat (loads u)" by simp
  then show ?case using lq_invD(5) [OF assms(1)] by simp
next
  case (Suc fuel)
  note d = lq_invD [OF assms(1)]
  show ?case
  proof (cases "k = nat (loads u)")
    case True
    then show ?thesis using d(5) by simp
  next
    case False
    then have k: "k < nat (loads u)" using Suc.prems(1) by simp
    have ne: "(loadHead u + k) mod LQEntries u \<noteq> loadTail u"
      using ring_slot_inj [of "loadHead u" k "LQEntries u" "nat (loads u)"] k d(4,5) by auto
    have nx: "next_idx (LQEntries u) ((loadHead u + k) mod LQEntries u) = (loadHead u + Suc k) mod LQEntries u"
      by (rule next_idx_slot [OF d(6)])
    have dr: "drop k (load_list u) = load_list u ! k # drop (Suc k) (load_list u)" using k by (simp add: Cons_nth_drop_Suc)
    have "walk fuel (LQEntries u) (\<lambda>i s. do { l \<leftarrow> load_at u i; f l s }) ((loadHead u + Suc k) mod LQEntries u) (loadTail u) s' =
        walk_list f (drop (Suc k) (load_list u)) s'" for s'
      using Suc.IH [of "Suc k"] k Suc.prems(2) by simp
    then show ?thesis
      using ne load_slot(1) [OF assms(1) k] by (simp add: dr nx split: option.splits cong: if_cong)
  qed
qed

lemma walk_list_keeps:
  assumes "walk_list f xs s = Some s'" "I s" "\<And>x s go s'. x \<in> set xs \<Longrightarrow> I s \<Longrightarrow> f x s = Some (go, s') \<Longrightarrow> I s'"
  shows "I s'"
  using assms
proof (induction xs arbitrary: s)
  case (Cons x xs)
  then obtain go t where t: "f x s = Some (go, t)" "(if go then walk_list f xs t else Some t) = Some s'"
    by (auto simp: bind_eq_Some_conv)
  have "I t" using Cons.prems(2,3) t(1) by (meson list.set_intros(1))
  then show ?case using t(2) Cons.IH [of t] Cons.prems(3) by (cases go) auto
qed simp

lemma walk_list_total:
  assumes "\<And>x s. x \<in> set xs \<Longrightarrow> I s \<Longrightarrow> \<exists>go s'. f x s = Some (go, s') \<and> I s'" "I s"
  shows "\<exists>s'. walk_list f xs s = Some s' \<and> I s'"
  using assms
proof (induction xs arbitrary: s)
  case (Cons x xs)
  then obtain go t where t: "f x s = Some (go, t)" "I t" by (meson list.set_intros(1))
  then show ?case using Cons.IH [of t] Cons.prems(1) by (cases go) auto
qed simp

section \<open>An executing store finds the loads that overtook it\<close>

definition store_conflict :: "nat \<Rightarrow> inst_heap \<Rightarrow> DynInstPtr \<Rightarrow> DynInstPtr \<Rightarrow> bool" where
  "store_conflict shift h p l \<longleftrightarrow> \<not> not_checked (h l) \<and> addr_conflict shift (h p) (h l)"

lemma store_walk:
  assumes "\<not> isLoad (h p)"
  shows "walk_list (check_violation shift p) ls (None, v, h) = Some (case find (store_conflict shift h p) ls of
      None \<Rightarrow> (None, v, h)
    | Some l \<Rightarrow> (if (case v of None \<Rightarrow> False | Some m \<Rightarrow> seqNum (h l) > seqNum (h m)) then (None, v, h)
                 else (Some M5PanicFault, Some l, h)))"
  using assms by (induction ls) (auto simp: check_violation_def store_conflict_def Let_def)

lemma checkViolations_store:
  assumes "lsq_inv u h" "e \<in> set (store_entries u)" "\<not> canWB e" "\<not> isLoad (h (the (sq_inst e)))"
  shows "checkViolations (nat (lqIdx (ldst (h (the (sq_inst e)))))) (the (sq_inst e)) (u, h) =
    Some (case find (store_conflict (depCheckShift u) h (the (sq_inst e)))
            (drop (older h (seqNum (h (the (sq_inst e)))) (load_list u)) (load_list u)) of
      None \<Rightarrow> (None, u, h)
    | Some l \<Rightarrow> (if (case memDepViolator u of None \<Rightarrow> False | Some m \<Rightarrow> seqNum (h l) > seqNum (h m)) then (None, u, h)
                 else (Some M5PanicFault, u\<lparr>memDepViolator := Some l\<rparr>, h)))"
proof -
  note i = lsq_invD [OF assms(1)]
  let ?p = "the (sq_inst e)"
  let ?k = "older h (seqNum (h ?p)) (load_list u)"
  have k: "?k \<le> nat (loads u)" "nat (loads u) - ?k \<le> LQEntries u"
    using older_le [of h "seqNum (h ?p)" "load_list u"] lq_invD(4) [OF i(1)] by auto
  have idx: "nat (lqIdx (ldst (h ?p))) = (loadHead u + ?k) mod LQEntries u"
    using i(6) assms(2,3) by (simp add: link_inv_def lq_link_def)
  have "checkViolations (nat (lqIdx (ldst (h ?p)))) ?p (u, h) =
      do { (f, v, h) \<leftarrow> walk_list (check_violation (depCheckShift u) ?p) (drop ?k (load_list u)) (None, memDepViolator u, h);
           Some (f, u\<lparr>memDepViolator := v\<rparr>, h) }"
    unfolding checkViolations_def idx Let_def
    using walk_loads [OF i(1) k, where f = "check_violation (depCheckShift u) ?p"] by simp
  then show ?thesis unfolding store_walk [where shift = "depCheckShift u" and h = h and p = ?p, OF assms(4)]
    by (auto split: option.splits)
qed

text \<open>The ranges of two accesses that do not run over the end of the address space.\<close>

definition access_ok :: "DynInst \<Rightarrow> bool" where
  "access_ok i \<longleftrightarrow> 0 < effSize (ldst i) \<and> unat (effAddr (ldst i)) + effSize (ldst i) \<le> 2 ^ 64"

definition same_byte :: "DynInst \<Rightarrow> DynInst \<Rightarrow> bool" where
  "same_byte i l \<longleftrightarrow> (\<exists>a. unat (a - effAddr (ldst i)) < effSize (ldst i) \<and> unat (a - effAddr (ldst l)) < effSize (ldst l))"

lemma drop_bit_mono_word: "(a :: 'a::len word) \<le> b \<Longrightarrow> drop_bit n a \<le> drop_bit n b"
  unfolding word_le_nat_alt unat_drop_bit_eq by (simp add: drop_bit_eq_div div_le_mono)

lemma byte_range:
  assumes "access_ok i" "unat (a - effAddr (ldst i)) < effSize (ldst i)"
  shows "effAddr (ldst i) \<le> a" "a \<le> last_byte i"
proof -
  let ?e = "effAddr (ldst i)" and ?n = "effSize (ldst i)"
  have "unat (?e + (a - ?e)) = (unat ?e + unat (a - ?e)) mod 2 ^ 64" by (subst unat_word_ariths(1)) simp
  moreover have "unat ?e + unat (a - ?e) < 2 ^ 64" using assms by (simp add: access_ok_def)
  ultimately have a: "unat a = unat ?e + unat (a - ?e)" by simp
  then show "?e \<le> a" by (simp add: word_le_nat_alt)
  obtain m where m: "?n = Suc m" using assms(1) by (cases ?n) (auto simp: access_ok_def)
  have "last_byte i = ?e + of_nat m" by (simp add: last_byte_def m)
  moreover have "unat (?e + of_nat m) = (unat ?e + m) mod 2 ^ 64"
    by (simp add: unat_word_ariths(1) unat_of_nat mod_simps)
  ultimately have "unat (last_byte i) = unat ?e + m" using assms(1) m by (simp add: access_ok_def)
  then show "a \<le> last_byte i" using a assms(2) m by (simp add: word_le_nat_alt)
qed

lemma same_byte_conflict:
  assumes "access_ok i" "access_ok l" "same_byte i l"
  shows "addr_conflict shift i l"
proof -
  obtain a where a: "unat (a - effAddr (ldst i)) < effSize (ldst i)" "unat (a - effAddr (ldst l)) < effSize (ldst l)"
    using assms(3) by (auto simp: same_byte_def)
  note r = byte_range [OF assms(1) a(1)] byte_range [OF assms(2) a(2)]
  have "effAddr (ldst l) \<le> last_byte i" "effAddr (ldst i) \<le> last_byte l" using r by (meson order_trans)+
  then show ?thesis unfolding addr_conflict_def by (intro conjI drop_bit_mono_word)
qed

lemma find_oldest:
  assumes "seq_sorted h ls" "find P ls = Some l" "x \<in> set ls" "P x"
  shows "seqNum (h l) \<le> seqNum (h x)"
  using assms by (induction ls) (auto split: if_splits intro: less_imp_le)

text \<open>
  (C29) No load that overtook a store is missed. When a store that has not committed executes,
  \<^verbatim>\<open>checkViolations\<close> ends without trapping; if some younger load in the queue has been sent to
  a byte of the store, then afterwards \<^verbatim>\<open>memDepViolator\<close> is that load or an older instruction,
  so the squash that it causes removes the load. A fault is only reported for a younger load
  whose address range, in units of \<^verbatim>\<open>2^LSQDepCheckShift\<close> bytes, meets that of the store.
\<close>

theorem store_catches_overtaking_loads:
  assumes "lsq_inv u h" "e \<in> set (store_entries u)" "\<not> canWB e" "p = the (sq_inst e)" "\<not> isLoad (h p)" "access_ok (h p)"
  shows "\<exists>f v. checkViolations (nat (lqIdx (ldst (h p)))) p (u, h) = Some (f, u\<lparr>memDepViolator := v\<rparr>, h) \<and>
    (\<forall>l\<in>set (load_list u). seqNum (h p) < seqNum (h l) \<and> \<not> not_checked (h l) \<and> access_ok (h l) \<and> same_byte (h p) (h l) \<longrightarrow>
      (\<exists>m. v = Some m \<and> seqNum (h m) \<le> seqNum (h l))) \<and>
    (f \<noteq> None \<longrightarrow> (\<exists>l\<in>set (load_list u). v = Some l \<and> seqNum (h p) < seqNum (h l) \<and> addr_conflict (depCheckShift u) (h p) (h l)))"
proof -
  note o = order_invD [OF lsq_invD(5) [OF assms(1)]]
  let ?k = "older h (seqNum (h p)) (load_list u)"
  let ?ls = "drop ?k (load_list u)" and ?P = "store_conflict (depCheckShift u) h p"
  note cv = checkViolations_store [OF assms(1-3), folded assms(4), OF assms(5)]
  have srt: "seq_sorted h ?ls" using o(1) by (rule sorted_wrt_drop)
  have pin: "p \<in> set (store_list u)" using assms(2,4) by (simp add: store_list_entries)
  have young: "l \<in> set ?ls \<longleftrightarrow> l \<in> set (load_list u) \<and> seqNum (h p) < seqNum (h l)" for l
  proof
    assume "l \<in> set ?ls"
    then obtain j where j: "l = load_list u ! (?k + j)" "?k + j < nat (loads u)" by (auto simp: in_set_conv_nth)
    then have "\<not> seqNum (h l) < seqNum (h p)" using sorted_older_iff [OF o(1), of "?k + j" "seqNum (h p)"] by simp
    moreover have "l \<in> set (load_list u)" using j by simp
    ultimately show "l \<in> set (load_list u) \<and> seqNum (h p) < seqNum (h l)" using o(3) [OF pin, of l] by simp
  next
    assume l: "l \<in> set (load_list u) \<and> seqNum (h p) < seqNum (h l)"
    then obtain j where j: "l = load_list u ! j" "j < length (load_list u)" by (auto simp: in_set_conv_nth)
    then have "?k \<le> j" using sorted_older_iff [OF o(1) j(2), of "seqNum (h p)"] l by simp
    then have "?ls ! (j - ?k) = l" "j - ?k < length ?ls" using j by auto
    then show "l \<in> set ?ls" by (metis nth_mem)
  qed
  have conf: "l \<in> set ?ls \<and> ?P l"
    if "l \<in> set (load_list u)" "seqNum (h p) < seqNum (h l) \<and> \<not> not_checked (h l) \<and> access_ok (h l) \<and> same_byte (h p) (h l)" for l
    using that same_byte_conflict [OF assms(6)] young by (simp add: store_conflict_def)
  show ?thesis
  proof (cases "find ?P ?ls")
    case None
    then have none: "\<not> ?P l" if "l \<in> set ?ls" for l using that by (simp add: find_None_iff)
    then have "checkViolations (nat (lqIdx (ldst (h p)))) p (u, h) = Some (None, u\<lparr>memDepViolator := memDepViolator u\<rparr>, h)"
      unfolding cv None by simp
    then show ?thesis using none conf by (intro exI [of _ None] exI [of _ "memDepViolator u"] conjI ballI impI) auto
  next
    case (Some l)
    then have l: "l \<in> set ?ls" "?P l" by (auto simp: find_Some_iff in_set_conv_nth)
    have first: "seqNum (h l) \<le> seqNum (h x)" if "x \<in> set ?ls" "?P x" for x by (rule find_oldest [OF srt Some that])
    show ?thesis
    proof (cases "case memDepViolator u of None \<Rightarrow> False | Some m \<Rightarrow> seqNum (h l) > seqNum (h m)")
      case True
      then obtain m where m: "memDepViolator u = Some m" "seqNum (h m) < seqNum (h l)" by (auto split: option.splits)
      then have "checkViolations (nat (lqIdx (ldst (h p)))) p (u, h) = Some (None, u\<lparr>memDepViolator := Some m\<rparr>, h)"
        unfolding cv Some by (cases u) simp
      moreover have "seqNum (h m) \<le> seqNum (h x)" if "x \<in> set ?ls" "?P x" for x using first [OF that] m(2) by simp
      ultimately show ?thesis using conf by (intro exI [of _ None] exI [of _ "Some m"] conjI ballI impI) auto
    next
      case False
      then have "checkViolations (nat (lqIdx (ldst (h p)))) p (u, h) = Some (Some M5PanicFault, u\<lparr>memDepViolator := Some l\<rparr>, h)"
        unfolding cv Some by (simp split: option.splits)
      moreover have "addr_conflict (depCheckShift u) (h p) (h l)" "l \<in> set (load_list u)" "seqNum (h p) < seqNum (h l)"
        using l young by (simp_all add: store_conflict_def)
      ultimately show ?thesis using conf first
        by (intro exI [of _ "Some M5PanicFault"] exI [of _ "Some l"] conjI ballI impI) (auto intro!: bexI [of _ l])
    qed
  qed
qed

end
