(* ===== verification/LSQ_WB.thy ===== *)
theory LSQ_WB
  imports LSQ_Store
begin

text \<open>
  Writing committed stores to the cache (\<^verbatim>\<open>writebackStores\<close> and the functions around it
  in \<^verbatim>\<open>lsq_unit_impl.hh\<close>). The data port of the cache is an argument: \<open>port sent pkt\<close> says
  whether \<^verbatim>\<open>sendTimingReq\<close> takes \<open>pkt\<close> when it has taken the packets \<open>sent\<close> before. The
  outcome of \<^verbatim>\<open>TheISA::handleLockedWrite\<close> is an argument too. \<^verbatim>\<open>TheISA::handleIprWrite\<close>
  writes a register of a device and does not touch this state. x86 splits unaligned
  accesses, so \<^verbatim>\<open>TheISA::HasUnalignedMemAcc\<close> holds.
\<close>

section \<open>Operations\<close>

record WBState =
  wbu :: LSQUnit
  wbh :: inst_heap
  sent :: "StorePkt list" \<comment> \<open>the packets the port has taken, oldest first\<close>
  replayed :: "DynInstPtr list" \<comment> \<open>the loads given to \<^verbatim>\<open>replayMemInst\<close>\<close>
  events :: "DynInstPtr list" \<comment> \<open>the instructions with a scheduled \<^verbatim>\<open>WritebackEvent\<close>\<close>

type_synonym dcache_port = "StorePkt list \<Rightarrow> StorePkt \<Rightarrow> bool"

definition wb_storePostSend :: "cpu_config \<Rightarrow> WBState \<Rightarrow> WBState option" where
  "wb_storePostSend c s = do {
     (u, h, r) \<leftarrow> storePostSend c (wbu s, wbh s);
     Some (s\<lparr>wbu := u, wbh := h, replayed := replayed s @ (case r of Some l \<Rightarrow> [l] | None \<Rightarrow> [])\<rparr>)
   }"

definition wb_completeStore :: "cpu_config \<Rightarrow> nat \<Rightarrow> WBState \<Rightarrow> WBState option" where
  "wb_completeStore c idx s = do {
     (u, h, r) \<leftarrow> completeStore c idx (wbu s, wbh s);
     Some (s\<lparr>wbu := u, wbh := h, replayed := replayed s @ (case r of Some l \<Rightarrow> [l] | None \<Rightarrow> [])\<rparr>)
   }"

definition sendStore :: "dcache_port \<Rightarrow> StorePkt \<Rightarrow> WBState \<Rightarrow> (bool \<times> WBState) option" where
  "sendStore port data_pkt s =
     (if \<not> port (sent s) data_pkt then do {
        assertion (retryPkt (wbu s) = None);
        Some (False, s\<lparr>wbu := (wbu s)\<lparr>isStoreBlocked := True, retryPkt := Some data_pkt\<rparr>\<rparr>)
      } else do {
        h \<leftarrow> setSpecBufState (pkt_req data_pkt) (wbu s) (wbh s);
        Some (True, s\<lparr>wbh := h, sent := sent s @ [data_pkt]\<rparr>)
      })"

definition writebackPendingStore :: "cpu_config \<Rightarrow> dcache_port \<Rightarrow> WBState \<Rightarrow> WBState option" where
  "writebackPendingStore c port s =
     (if hasPendingPkt (wbu s) then do {
        p \<leftarrow> pendingPkt (wbu s);
        (ok, s) \<leftarrow> sendStore port p s;
        s \<leftarrow> (if ok then wb_storePostSend c s else Some s);
        Some (s\<lparr>wbu := (wbu s)\<lparr>pendingPkt := None, hasPendingPkt := False\<rparr>\<rparr>)
      } else Some s)"

definition advance_wb :: "WBState \<Rightarrow> WBState" where
  "advance_wb s = s\<lparr>wbu := (wbu s)\<lparr>storeWBIdx := incrStIdx (wbu s) (storeWBIdx (wbu s))\<rparr>\<rparr>"

text \<open>The data of a store, copied to \<^verbatim>\<open>inst->memData\<close>, and the packets made from it.\<close>

definition store_bytes :: "SQEntry \<Rightarrow> Request \<Rightarrow> 8 word list option" where
  "store_bytes e req =
     (if isAllZeros e then Some (replicate (getSize req) 0)
      else do { assertion (getSize req \<le> length (sq_data e)); Some (take (getSize req) (sq_data e)) })"

definition store_packets :: "nat \<Rightarrow> DynInstPtr \<Rightarrow> SQEntry \<Rightarrow> Request \<Rightarrow> 8 word list \<Rightarrow> (StorePkt \<times> StorePkt option) option" where
  "store_packets idx inst e req bytes =
     (if \<not> isSplit e
      then Some (\<lparr>pkt_req = req, pkt_bytes = bytes, pkt_inst = inst, pkt_idx = idx, pkt_part = WholeStore\<rparr>, None)
      else do {
        lo \<leftarrow> sq_sreqLow e;
        hi \<leftarrow> sq_sreqHigh e;
        Some (\<lparr>pkt_req = lo, pkt_bytes = take (getSize lo) bytes, pkt_inst = inst, pkt_idx = idx, pkt_part = LowHalf\<rparr>,
              Some \<lparr>pkt_req = hi, pkt_bytes = take (getSize hi) (drop (getSize lo) bytes), pkt_inst = inst, pkt_idx = idx,
                    pkt_part = HighHalf\<rparr>)
      })"

text \<open>Sending the packet or the two packets of the store at \<^verbatim>\<open>storeWBIdx\<close>.\<close>

definition send_packets ::
  "cpu_config \<Rightarrow> dcache_port \<Rightarrow> StorePkt \<Rightarrow> StorePkt option \<Rightarrow> WBState \<Rightarrow> WBState option" where
  "send_packets c port data_pkt snd_data_pkt s = do {
     (ok, s) \<leftarrow> sendStore port data_pkt s;
     if \<not> ok then (case snd_data_pkt of
         None \<Rightarrow> Some s
       | Some snd_pkt \<Rightarrow> do {
           ss \<leftarrow> storeSender (wbu s) (pkt_idx data_pkt);
           Some (s\<lparr>wbu := (wbu s)\<lparr>storeSender := (storeSender (wbu s))(pkt_idx data_pkt \<mapsto>
             ss\<lparr>ss_pktToSend := True, ss_pendingPacket := Some snd_pkt\<rparr>)\<rparr>\<rparr>)
         })
     else (case snd_data_pkt of
         None \<Rightarrow> wb_storePostSend c s
       | Some snd_pkt \<Rightarrow>
           (if usedStorePorts (wbu s) < cacheStorePorts (wbu s) then do {
              let s = s\<lparr>wbu := (wbu s)\<lparr>usedStorePorts := usedStorePorts (wbu s) + 1\<rparr>\<rparr>;
              (ok, s) \<leftarrow> sendStore port snd_pkt s;
              if ok then wb_storePostSend c s else Some s
            } else do {
              assertion (pendingPkt (wbu s) = None);
              Some (s\<lparr>wbu := (wbu s)\<lparr>pendingPkt := Some snd_pkt, hasPendingPkt := True\<rparr>\<rparr>)
            }))
   }"

text \<open>One store with data; \<open>lockedWrite\<close> is the outcome of \<^verbatim>\<open>handleLockedWrite\<close>.\<close>

definition write_store ::
  "cpu_config \<Rightarrow> dcache_port \<Rightarrow> (DynInstPtr \<Rightarrow> Request \<Rightarrow> bool) \<Rightarrow> WBState \<Rightarrow> WBState option" where
  "write_store c port lockedWrite s = do {
     let idx = storeWBIdx (wbu s);
     (e, inst) \<leftarrow> store_at (wbu s) idx;
     req \<leftarrow> sq_req e;
     assertion (\<not> sq_committed e);
     assertion (isSplit e \<longrightarrow> sq_sreqLow e \<noteq> None \<and> sq_sreqHigh e \<noteq> None);
     assertion (memData (ldst (wbh s inst)) = None);
     bytes \<leftarrow> store_bytes e req;
     (data_pkt, snd_data_pkt) \<leftarrow> store_packets idx inst e req bytes;
     q \<leftarrow> vec_set (storeQueue (wbu s)) idx (e\<lparr>sq_committed := True\<rparr>);
     let ss = \<lparr>ss_pendingPacket = None, ss_outstanding = (if isSplit e then 2 else 1),
               ss_noWB = \<not> si_isStoreConditional (staticInst (wbh s inst)), ss_isSplit = isSplit e, ss_pktToSend = False\<rparr>;
     let s = s\<lparr>wbu := (wbu s)\<lparr>storeQueue := q, storeSender := (storeSender (wbu s))(idx \<mapsto> ss)\<rparr>,
               wbh := modify inst (\<lambda>i. i\<lparr>ldst := (ldst i)\<lparr>memData := Some bytes\<rparr>\<rparr>) (wbh s)\<rparr>;
     assertion (si_isStoreConditional (staticInst (wbh s inst)) \<longrightarrow> \<not> isSplit e);
     if si_isStoreConditional (staticInst (wbh s inst)) \<and> \<not> lockedWrite inst req
     then do {
       s \<leftarrow> wb_completeStore c idx (s\<lparr>events := events s @ [inst]\<rparr>);
       Some (advance_wb s)
     }
     else if isMmappedIpr (pkt_req data_pkt)
     then do {
       assertion (\<not> si_isStoreConditional (staticInst (wbh s inst)));
       assertion (case snd_data_pkt of None \<Rightarrow> True | Some p \<Rightarrow> isMmappedIpr (pkt_req p));
       s \<leftarrow> wb_completeStore c idx s;
       Some (advance_wb s)
     }
     else send_packets c port data_pkt snd_data_pkt s
   }"

text \<open>An iteration of the loop and the loop; each store is visited at most once, then the loop is blocked or done.\<close>

definition can_write_back :: "cpu_config \<Rightarrow> WBState \<Rightarrow> bool option" where
  "can_write_back c s = do {
     let u = wbu s;
     if storesToWB u > 0 \<and> storeWBIdx u \<noteq> storeTail u then do {
       e \<leftarrow> vec_get (storeQueue u) (storeWBIdx u);
       Some (sq_inst e \<noteq> None \<and> canWB e \<and> (\<not> needsTSO c \<or> \<not> storeInFlight u) \<and> usedStorePorts u < cacheStorePorts u)
     } else Some False
   }"

definition writeback_store ::
  "cpu_config \<Rightarrow> dcache_port \<Rightarrow> (DynInstPtr \<Rightarrow> Request \<Rightarrow> bool) \<Rightarrow> WBState \<Rightarrow> WBState option" where
  "writeback_store c port lockedWrite s = do {
     (e, inst) \<leftarrow> store_at (wbu s) (storeWBIdx (wbu s));
     if sq_size e = 0 then do { s \<leftarrow> wb_completeStore c (storeWBIdx (wbu s)) s; Some (advance_wb s) }
     else do {
       let s = s\<lparr>wbu := (wbu s)\<lparr>usedStorePorts := usedStorePorts (wbu s) + 1\<rparr>\<rparr>;
       if si_isDataPrefetch (staticInst (wbh s inst)) then Some (advance_wb s)
       else write_store c port lockedWrite s
     }
   }"

fun writeback_loop ::
  "nat \<Rightarrow> cpu_config \<Rightarrow> dcache_port \<Rightarrow> (DynInstPtr \<Rightarrow> Request \<Rightarrow> bool) \<Rightarrow> WBState \<Rightarrow> WBState option" where
  "writeback_loop 0 c port lockedWrite s = None"
| "writeback_loop (Suc fuel) c port lockedWrite s = do {
     go \<leftarrow> can_write_back c s;
     if go \<and> \<not> isStoreBlocked (wbu s)
     then do { s \<leftarrow> writeback_store c port lockedWrite s; writeback_loop fuel c port lockedWrite s }
     else Some s
   }"

definition writebackStores ::
  "cpu_config \<Rightarrow> dcache_port \<Rightarrow> (DynInstPtr \<Rightarrow> Request \<Rightarrow> bool) \<Rightarrow> WBState \<Rightarrow> WBState option" where
  "writebackStores c port lockedWrite s = do {
     s \<leftarrow> writebackPendingStore c port s;
     s \<leftarrow> writeback_loop (SQEntries (wbu s) + 2) c port lockedWrite s;
     let s = s\<lparr>wbu := (wbu s)\<lparr>usedStorePorts := 0\<rparr>\<rparr>;
     assertion (stores (wbu s) \<ge> 0 \<and> storesToWB (wbu s) \<ge> 0);
     Some s
   }"

definition recvRetry :: "cpu_config \<Rightarrow> dcache_port \<Rightarrow> WBState \<Rightarrow> WBState option" where
  "recvRetry c port s =
     (if isStoreBlocked (wbu s) then do {
        pkt \<leftarrow> retryPkt (wbu s);
        ss \<leftarrow> storeSender (wbu s) (pkt_idx pkt);
        if port (sent s) pkt then do {
          let s = s\<lparr>sent := sent s @ [pkt]\<rparr>;
          let last = (\<not> ss_pktToSend ss \<or> ss_pendingPacket ss = Some pkt);
          let ss = (if last then ss\<lparr>ss_pktToSend := False\<rparr> else ss);
          s \<leftarrow> (if last then wb_storePostSend c
                  (s\<lparr>wbu := (wbu s)\<lparr>storeSender := (storeSender (wbu s))(pkt_idx pkt \<mapsto> ss)\<rparr>\<rparr>) else Some s);
          let s = s\<lparr>wbu := (wbu s)\<lparr>retryPkt := None, isStoreBlocked := False\<rparr>\<rparr>;
          if ss_pktToSend ss then do {
            p \<leftarrow> ss_pendingPacket ss;
            (ok, s) \<leftarrow> sendStore port p s;
            if ok then wb_storePostSend c s else Some s
          } else Some s
        } else Some s
      } else Some s)"

text \<open>
  The response of the cache to a packet of a store (the store path of
  \<^verbatim>\<open>completeDataAccess\<close>): when all packets are answered the store completes. A store
  conditional is written back first, which is recorded as an event. The count of
  outstanding packets is a \<^verbatim>\<open>uint8_t\<close>.
\<close>

definition store_response :: "cpu_config \<Rightarrow> bool \<Rightarrow> bool \<Rightarrow> StorePkt \<Rightarrow> WBState \<Rightarrow> WBState option" where
  "store_response c enableMLDOM contention pkt s = do {
     let idx = pkt_idx pkt;
     ss \<leftarrow> storeSender (wbu s) idx;
     h \<leftarrow> (if \<not> enableMLDOM \<or> contention then setSpecBufState (pkt_req pkt) (wbu s) (wbh s) else Some (wbh s));
     let s = s\<lparr>wbh := h\<rparr>;
     let n = (ss_outstanding ss + 255) mod 256;
     if n \<noteq> 0 then Some (s\<lparr>wbu := (wbu s)\<lparr>storeSender := (storeSender (wbu s))(idx \<mapsto> ss\<lparr>ss_outstanding := n\<rparr>)\<rparr>\<rparr>)
     else do {
       s \<leftarrow> (if isSquashed (wbh s (pkt_inst pkt)) then Some s
             else wb_completeStore c idx (if ss_noWB ss then s else s\<lparr>events := events s @ [pkt_inst pkt]\<rparr>));
       Some (s\<lparr>wbu := (wbu s)\<lparr>storeSender := (storeSender (wbu s))(idx := None)\<rparr>\<rparr>)
     }
   }"

end
