(* ===== verification/LSQ_Example.thy ===== *)
theory LSQ_Example
  imports LSQ_Forward LSQ_Check LSQ_WB
begin

text \<open>
  A small load/store queue on which the theorems about the queue are applied: instruction 1
  stores eight bytes at address 256, instruction 2 loads the upper four of them and instruction
  3 loads sixteen bytes from address 248. Queues of three entries, one of them the sentinel.
\<close>

definition lx_static :: "bool \<Rightarrow> StaticInst" where
  "lx_static ld =
     \<lparr>si_isMemRef = True, si_isLoad = ld, si_isStore = (\<not> ld), si_isControl = False,
      si_isStoreConditional = False, si_isInstPrefetch = False, si_isDataPrefetch = False,
      si_isMemBarrier = False, si_isWriteBarrier = False, si_isNonSpeculative = False,
      si_isFloating = False, si_isInteger = True, si_srcRegs = [], si_destRegs = []\<rparr>"

definition lx_inst :: "nat \<Rightarrow> bool \<Rightarrow> Addr \<Rightarrow> nat \<Rightarrow> int \<Rightarrow> int \<Rightarrow> DynInst" where
  "lx_inst sn ld a n lq sq =
     (let i = initVars 2 2 \<lparr>regClass = IntRegClass, regIdx = 0, elemIdx = no_elem, flatIdx = 0\<rparr> (lx_static ld) (of_nat sn) sn
      in set_flag EffAddrValid True (i\<lparr>ldst := (ldst i)\<lparr>effAddr := a, effSize := n, lqIdx := lq, sqIdx := sq\<rparr>\<rparr>))"

definition lx_heap :: inst_heap where
  "lx_heap = (\<lambda>p. if p = 1 then lx_inst 1 False 256 8 0 0 else if p = 2 then lx_inst 2 True 260 4 0 1 else lx_inst 3 True 248 16 1 1)"

definition lx_req :: "Addr \<Rightarrow> nat \<Rightarrow> Request" where
  "lx_req a n = \<lparr>getVaddr = a, getPaddr = a, getSize = n, isLLSC = False, isStrictlyOrdered = False, isMmappedIpr = False,
     isCacheMaintenance = False, is_STORE_NO_DATA = False, is_CACHE_BLOCK_ZERO = False, isLockedRMW = False, isInstFetch = False,
     isStoreCheck = False, isSwap = False\<rparr>"

definition lx_entry :: SQEntry where
  "lx_entry = (SQEntry_of (Some 1))\<lparr>sq_size := 8, sq_req := Some (lx_req 256 8), sq_data := [1, 2, 3, 4, 5, 6, 7, 8, 0, 0, 0, 0, 0, 0, 0, 0]\<rparr>"

definition lx_unit :: LSQUnit where
  "lx_unit = (the (mk_LSQUnit 2 2 4 True 1 64))
     \<lparr>storeQueue := [lx_entry, SQEntry_of None, SQEntry_of None], loadQueue := [Some 2, Some 3, None],
      loads := 2, stores := 1, loadTail := 2, storeTail := 1\<rparr>"

lemma lx_unit_sel [simp]:
  "storeQueue lx_unit = [lx_entry, SQEntry_of None, SQEntry_of None]" "loadQueue lx_unit = [Some 2, Some 3, None]"
  "LQEntries lx_unit = 3" "SQEntries lx_unit = 3" "loads lx_unit = 2" "stores lx_unit = 1" "storesToWB lx_unit = 0"
  "loadHead lx_unit = 0" "loadTail lx_unit = 2" "storeHead lx_unit = 0" "storeTail lx_unit = 1" "storeWBIdx lx_unit = 0"
  "stalled lx_unit = False" "memDepViolator lx_unit = None" "depCheckShift lx_unit = 4"
  by (simp_all add: lx_unit_def mk_LSQUnit_def lsq_resetState_def)

lemma lx_heap_sel [simp]:
  "lx_heap (Suc 0) = lx_inst 1 False 256 8 0 0" "lx_heap 2 = lx_inst 2 True 260 4 0 1" "lx_heap 3 = lx_inst 3 True 248 16 1 1"
  by (simp_all add: lx_heap_def)

lemma lx_inst_sel [simp]:
  "seqNum (lx_inst sn ld a n lq sq) = sn" "staticInst (lx_inst sn ld a n lq sq) = lx_static ld"
  "effAddr (ldst (lx_inst sn ld a n lq sq)) = a" "effSize (ldst (lx_inst sn ld a n lq sq)) = n"
  "lqIdx (ldst (lx_inst sn ld a n lq sq)) = lq" "sqIdx (ldst (lx_inst sn ld a n lq sq)) = sq"
  "instFlags (lx_inst sn ld a n lq sq) f = (f = RecordResult \<or> f = Predicate \<or> f = EffAddrValid)"
  by (auto simp: lx_inst_def initVars_def Let_def set_flag_def)

lemma lx_entry_sel [simp]:
  "sq_inst lx_entry = Some 1" "canWB lx_entry = False" "sq_completed lx_entry = False" "sq_size lx_entry = 8"
  "sq_req lx_entry = Some (lx_req 256 8)" "isAllZeros lx_entry = False"
  "sq_data lx_entry = [1, 2, 3, 4, 5, 6, 7, 8, 0, 0, 0, 0, 0, 0, 0, 0]"
  by (simp_all add: lx_entry_def SQEntry_of_def)

lemma lx_req_sel [simp]:
  "getVaddr (lx_req a n) = a" "getPaddr (lx_req a n) = a" "getSize (lx_req a n) = n" "\<not> isLLSC (lx_req a n)"
  "\<not> isCacheMaintenance (lx_req a n)" "\<not> is_STORE_NO_DATA (lx_req a n)"
  by (simp_all add: lx_req_def)

lemma lx_lists [simp]: "load_list lx_unit = [2, 3]" "store_entries lx_unit = [lx_entry]" "store_list lx_unit = [1]"
  by (simp_all add: load_list_def store_entries_def store_list_def ring_def numeral_2_eq_2)

lemma lx_inv: "lsq_inv lx_unit lx_heap" "wb_at lx_unit 0"
proof -
  show wb: "wb_at lx_unit 0" by (simp add: wb_at_def)
  have "k < 3 \<longleftrightarrow> k = 0 \<or> k = 1 \<or> k = 2" for k :: nat by arith
  then have "lq_inv lx_unit" by (auto simp: lq_inv_def)
  moreover have "sq_inv lx_unit" by (simp add: sq_inv_def pending_wb_def)
  moreover have "head_pending lx_unit" by (simp add: head_pending_def)
  moreover have "stall_inv lx_unit lx_heap" by (simp add: stall_inv_def)
  moreover have "order_inv lx_unit lx_heap" by (simp add: order_inv_def)
  moreover have "link_inv lx_unit lx_heap" by (simp add: link_inv_def lq_link_def sq_link_def older_def)
  ultimately show "lsq_inv lx_unit lx_heap" using wb unfolding lsq_inv_def by blast
qed


theorem store_catches_overtaking_loads_witness:
  "\<exists>f v. checkViolations (nat (lqIdx (ldst (lx_heap 1)))) 1 (lx_unit, lx_heap) = Some (f, lx_unit\<lparr>memDepViolator := v\<rparr>, lx_heap) \<and>
     (\<exists>m. v = Some m \<and> seqNum (lx_heap m) \<le> 2)"
proof -
  have sb: "same_byte (lx_heap 1) (lx_heap 2)" unfolding same_byte_def by (intro exI [of _ 260]) simp
  have a: "access_ok (lx_heap 1)" "access_ok (lx_heap 2)" "\<not> not_checked (lx_heap 2)" by (simp_all add: access_ok_def not_checked_def)
  have st: "\<not> isLoad (lx_heap 1)" by (simp add: lx_static_def)
  from store_catches_overtaking_loads [OF lx_inv(1), of lx_entry 1, OF _ _ _ st a(1)] obtain f v where fv:
    "checkViolations (nat (lqIdx (ldst (lx_heap 1)))) 1 (lx_unit, lx_heap) = Some (f, lx_unit\<lparr>memDepViolator := v\<rparr>, lx_heap)"
    "\<forall>l\<in>set (load_list lx_unit). seqNum (lx_heap 1) < seqNum (lx_heap l) \<and> \<not> not_checked (lx_heap l) \<and> access_ok (lx_heap l) \<and>
       same_byte (lx_heap 1) (lx_heap l) \<longrightarrow> (\<exists>m. v = Some m \<and> seqNum (lx_heap m) \<le> seqNum (lx_heap l))"
    by auto
  have "\<exists>m. v = Some m \<and> seqNum (lx_heap m) \<le> seqNum (lx_heap 2)"
    by (rule fv(2) [rule_format, of 2]) (use sb a in simp_all)
  then have "\<exists>m. v = Some m \<and> seqNum (lx_heap m) \<le> 2" by simp
  then show ?thesis using fv(1) by blast
qed

end
