(* ===== verification/SDO_Load.thy ===== *)
theory SDO_Load
  imports LSQ
begin

text \<open>
  The life of a load in the load/store unit (\<^verbatim>\<open>lsq_unit_impl.hh\<close>): the answers of the
  memory system in \<^verbatim>\<open>completeDataAccess\<close>, \<^verbatim>\<open>writeback\<close>, \<^verbatim>\<open>completeValidate\<close> and
  \<^verbatim>\<open>updateLocationPredictor\<close>. These functions work on one load, the location predictor and
  the instruction's way to commit; they are written here on that part of the state and put
  back into the state of the unit by \<open>with_load\<close>. \<open>m\<close> is the configuration of oblivious
  execution, \<open>None\<close> when \<^verbatim>\<open>enableMLDOM\<close> is off. \<open>completeAcc\<close> is the function of the
  instruction set that consumes the data of a load and may return a fault. Statistics and
  \<^verbatim>\<open>checkMisprediction\<close>, which belongs to the IEW stage, are not modelled.
\<close>

section \<open>Packets\<close>

record Packet =
  pk_cmd :: MemCmd
  pk_req :: Request
  pk_inst :: DynInstPtr
  pk_sender :: nat \<comment> \<open>the \<^verbatim>\<open>LSQSenderState\<close>\<close>
  pk_reqIdx :: nat
  pk_first :: bool
  pk_isSplit :: bool
  pk_specBuf :: "nat option" \<comment> \<open>\<^verbatim>\<open>srcIdx\<close> of a packet with \<^verbatim>\<open>OnlyAccessSpecBuf\<close>\<close>
  isSBHit :: bool
  isL0Hit :: bool
  isL1Hit :: bool
  isMemHit :: bool
  fromLevel :: int
  isFinalPacket :: bool
  copyData :: bool
  carryData :: bool

definition mk_Packet :: "Request \<Rightarrow> MemCmd \<Rightarrow> Packet" where
  "mk_Packet req cmd = \<lparr>pk_cmd = cmd, pk_req = req, pk_inst = 0, pk_sender = 0, pk_reqIdx = 0, pk_first = False,
     pk_isSplit = False, pk_specBuf = None, isSBHit = False, isL0Hit = False, isL1Hit = False, isMemHit = False,
     fromLevel = -1, isFinalPacket = True, copyData = False, carryData = False\<rparr>"

definition isSpec :: "MemCmd \<Rightarrow> bool" where
  "isSpec cmd \<longleftrightarrow> cmd \<in> {ReadSpecReq, ReadSpecL0Req, ReadSpecL1Req, ReadSpecMemReq, ReadSpecPerfectReq, ReadSpecPerfectUnsafeReq}"

abbreviation isValidate :: "MemCmd \<Rightarrow> bool" where
  "isValidate cmd \<equiv> cmd = ValidateReq"

abbreviation isExpose :: "MemCmd \<Rightarrow> bool" where
  "isExpose cmd \<equiv> cmd = ExposeReq"

section \<open>One load\<close>

record 'g LoadCtx =
  lc_inst :: DynInst
  lc_pred :: loc_pred
  lc_rng :: 'g
  lc_toCommit :: nat \<comment> \<open>calls of \<^verbatim>\<open>iewStage->instToCommit\<close>\<close>
  lc_results :: "8 word list list" \<comment> \<open>the data given to \<^verbatim>\<open>completeAcc\<close>\<close>

type_synonym completeAcc_t = "DynInst \<Rightarrow> 8 word list \<Rightarrow> Fault option"

definition on_inst :: "(DynInst \<Rightarrow> DynInst) \<Rightarrow> 'g LoadCtx \<Rightarrow> 'g LoadCtx" where
  "on_inst f s = s\<lparr>lc_inst := f (lc_inst s)\<rparr>"

definition on_sdo :: "(SDO \<Rightarrow> SDO) \<Rightarrow> DynInst \<Rightarrow> DynInst" where
  "on_sdo f i = i\<lparr>sdo := f (sdo i)\<rparr>"

section \<open>The location predictor\<close>

definition reg_level :: "int \<Rightarrow> CacheLevel_t" where
  "reg_level n = (if n = 0 then Cache_L1 else if n = 1 then Cache_L2 else if n = 2 then foldCacheLevelForTwoLevelSDO Cache_L3
     else if n = 3 then DRAM else Cache_L1)"

definition oblS_level :: "oblS_state \<Rightarrow> CacheLevel_t option" where
  "oblS_level s = (if ob_Hit_L0 s then Some Cache_L1 else if ob_Hit_L1 s then Some Cache_L2
     else if ob_Hit_L2 s then Some (foldCacheLevelForTwoLevelSDO Cache_L3) else if ob_Hit_Mem s then Some DRAM else None)"

text \<open>
  The source of the update is given by \<open>ty\<close>: 0 an ordinary load, 1 an oblivious load, 2 a
  validation or exposure, 3 store to load forwarding. An oblivious load that hit at none of
  the levels makes no update.
\<close>

definition update_level :: "int \<Rightarrow> SDO \<Rightarrow> CacheLevel_t option option" where
  "update_level ty d = (if ty = 0 then Some (Some (reg_level (regLd_Hit_Level d)))
     else if ty = 1 then Some (oblS_level (oblS d))
     else if ty = 2 then Some (Some (reg_level (ExpVal_Hit_Level d)))
     else if ty = 3 then Some (Some Cache_L1) else None)"

definition updateLocationPredictor ::
  "('g \<Rightarrow> nat \<times> 'g) \<Rightarrow> bool \<Rightarrow> int \<Rightarrow> 'g LoadCtx \<Rightarrow> 'g LoadCtx option" where
  "updateLocationPredictor rnd enableMLDOM ty s = (let i = lc_inst s in
     if \<not> enableMLDOM \<or> isSquashed i then Some s
     else do {
       assertion (isLoad i);
       l \<leftarrow> update_level ty (sdo i);
       case l of
         Some l \<Rightarrow> (if done_locPred_update (sdo i) then Some s else do {
           (w, p, g) \<leftarrow> update rnd (lc_rng s) (lc_pred s) (pc i) (seqNum i) l;
           Some (on_inst (on_sdo (\<lambda>d. d\<lparr>done_locPred_update := True, update_locPred_on_commit := w\<rparr>)) (s\<lparr>lc_pred := p, lc_rng := g\<rparr>))
         })
       | None \<Rightarrow> Some s
     })"

section \<open>Write-back and validation\<close>

text \<open>
  Sending the load to commit. The packet carries the data of the load, or those of the
  validation, according to its command.
\<close>

definition packet_data :: "MemCmd \<Rightarrow> DynInst \<Rightarrow> 8 word list option" where
  "packet_data cmd i = (if isValidate cmd \<or> isExpose cmd then vldData (ldst i) else memData (ldst i))"

definition complete_access :: "completeAcc_t \<Rightarrow> MemCmd \<Rightarrow> 'g LoadCtx \<Rightarrow> 'g LoadCtx option" where
  "complete_access completeAcc cmd s = (let i = lc_inst s in
     if isExecuted i then Some s
     else if fault i = None then do {
       bytes \<leftarrow> packet_data cmd i;
       Some (on_inst (\<lambda>i. (set_status Executed i)\<lparr>fault := completeAcc i bytes\<rparr>) (s\<lparr>lc_results := lc_results s @ [bytes]\<rparr>))
     }
     else do { assertion (fault i = Some ReExec); Some (on_inst (set_status Executed) s) })"

definition writeback :: "cpu_config \<Rightarrow> completeAcc_t \<Rightarrow> MemCmd \<Rightarrow> 'g LoadCtx \<Rightarrow> 'g LoadCtx option" where
  "writeback c completeAcc cmd s = (let i = lc_inst s in
     if isSquashed i then do { assertion (\<not> isStore i); Some s }
     else do {
       assertion (\<not> (isExecuted i \<and> isExposeCompleted i \<and> fault i = None));
       s \<leftarrow> complete_access completeAcc cmd s;
       s \<leftarrow> (if \<not> isInvisibleSpec c then do { assertion (\<not> isSpec cmd \<and> \<not> isValidate cmd); Some s }
             else if fault (lc_inst s) \<noteq> None then Some (on_inst (set_status ExposeSent \<circ> set_status ExposeCompleted) s)
             else Some (if isSpec cmd then on_inst (set_status SpecCompleted) s else s));
       Some (s\<lparr>lc_toCommit := lc_toCommit s + 1\<rparr>)
     })"

text \<open>The bytes of the validation are compared with those that an oblivious load has given to the program.\<close>

definition validation_fails :: "bool \<Rightarrow> bool \<Rightarrow> DynInst \<Rightarrow> bool option" where
  "validation_fails enableMLDOM pkt_split i =
     (if \<not> enableMLDOM then do {
        v \<leftarrow> vldData (ldst i);
        b0 \<leftarrow> vec_get v 0;
        if \<not> status i L1HitLow \<and> b0 = 0 then Some True
        else if pkt_split \<and> \<not> status i L1HitHigh then do { b1 \<leftarrow> vec_get v 1; Some (b1 = 0) }
        else Some False
      }
      else if doneWB (sdo i) \<and> doneWB_byOblS (sdo i) then do {
        v \<leftarrow> vldData (ldst i);
        d \<leftarrow> memData (ldst i);
        assertion (effSize (ldst i) \<le> length v \<and> effSize (ldst i) \<le> length d);
        Some (take (effSize (ldst i)) v \<noteq> take (effSize (ldst i)) d)
      }
      else Some False)"

definition completeValidate :: "bool \<Rightarrow> bool \<Rightarrow> DynInst \<Rightarrow> DynInst option" where
  "completeValidate enableMLDOM pkt_split i =
     (if isExposeCompleted i \<or> isSquashed i then Some i
      else do {
        bad \<leftarrow> validation_fails enableMLDOM pkt_split i;
        let i = (if bad then set_flag ValidationFail True (i\<lparr>fault := Some ReExec\<rparr>) else i);
        Some (set_status ExposeCompleted i)
      })"
section \<open>The levels at which an access hit\<close>

definition packet_level :: "Packet \<Rightarrow> int option" where
  "packet_level pkt = (if isL0Hit pkt then Some 0 else if isL1Hit pkt then Some 1 else if isMemHit pkt then Some 3 else None)"

text \<open>Of a split access the farther level counts.\<close>

definition record_level :: "bool \<Rightarrow> Packet \<Rightarrow> int \<Rightarrow> int" where
  "record_level split pkt n = (case packet_level pkt of None \<Rightarrow> n | Some l \<Rightarrow> if split then max n l else l)"

definition record_hit_level :: "bool \<Rightarrow> Packet \<Rightarrow> DynInst \<Rightarrow> DynInst" where
  "record_hit_level split pkt i =
     (if isLoad i \<and> \<not> needPostFetch i then on_sdo (\<lambda>d. d\<lparr>regLd_Hit_Level := record_level split pkt (regLd_Hit_Level d)\<rparr>) i
      else if isLoad i \<and> needPostFetch i \<and> (isExpose (pk_cmd pkt) \<or> isValidate (pk_cmd pkt))
      then on_sdo (\<lambda>d. d\<lparr>ExpVal_Hit_Level := record_level split pkt (ExpVal_Hit_Level d)\<rparr>) i
      else i)"

definition half_hits :: "Packet \<Rightarrow> oblS_state \<Rightarrow> oblS_state" where
  "half_hits pkt s = s\<lparr>ob_Hit_SB := isSBHit pkt, ob_Hit_L0 := isL0Hit pkt, ob_Hit_L1 := isL1Hit pkt, ob_Hit_Mem := isMemHit pkt,
     ob_Hit := isSBHit pkt \<or> isL0Hit pkt \<or> isL1Hit pkt \<or> isMemHit pkt, ob_Complete := ob_Complete s \<or> isFinalPacket pkt\<rparr>"

text \<open>
  The hits of the whole access from those of its halves; \<open>a\<close> is the old state, of which
  \<^verbatim>\<open>oblS_Hit_L2\<close> is kept.
\<close>

definition combine_hits :: "oblS_state \<Rightarrow> oblS_state \<Rightarrow> oblS_state \<Rightarrow> oblS_state" where
  "combine_hits f s a = (let
     sb = (ob_Hit_SB f \<and> ob_Hit_SB s);
     l0 = (\<not> sb \<and> (ob_Hit_SB f \<or> ob_Hit_L0 f) \<and> (ob_Hit_SB s \<or> ob_Hit_L0 s));
     l1 = (\<not> sb \<and> \<not> l0 \<and> (ob_Hit_SB f \<or> ob_Hit_L0 f \<or> ob_Hit_L1 f) \<and> (ob_Hit_SB s \<or> ob_Hit_L0 s \<or> ob_Hit_L1 s));
     me = (\<not> sb \<and> \<not> l0 \<and> \<not> l1 \<and> (ob_Hit_SB f \<or> ob_Hit_L0 f \<or> ob_Hit_L1 f \<or> ob_Hit_Mem f) \<and>
           (ob_Hit_SB s \<or> ob_Hit_L0 s \<or> ob_Hit_L1 s \<or> ob_Hit_Mem s))
     in a\<lparr>ob_Hit_SB := sb, ob_Hit_L0 := l0, ob_Hit_L1 := l1, ob_Hit_Mem := me,
          ob_Hit := sb \<or> l0 \<or> l1 \<or> ob_Hit_L2 a \<or> me, ob_Complete := ob_Complete f \<and> ob_Complete s\<rparr>)"

definition whole_hits :: "Packet \<Rightarrow> oblS_state \<Rightarrow> oblS_state" where
  "whole_hits pkt a = (let
     sb = isSBHit pkt;
     l0 = (\<not> sb \<and> isL0Hit pkt);
     l1 = (\<not> sb \<and> \<not> l0 \<and> isL1Hit pkt);
     me = (\<not> sb \<and> \<not> l0 \<and> \<not> l1 \<and> isMemHit pkt)
     in a\<lparr>ob_Hit_SB := sb, ob_Hit_L0 := l0, ob_Hit_L1 := l1, ob_Hit_Mem := me,
          ob_Hit := sb \<or> l0 \<or> l1 \<or> ob_Hit_L2 a \<or> me, ob_Complete := ob_Complete a \<or> isFinalPacket pkt\<rparr>)"

text \<open>The answer to an oblivious load; a hit of both halves in the speculation buffer needs the contention mode.\<close>

definition oblS_response :: "sdo_config \<Rightarrow> bool \<Rightarrow> Packet \<Rightarrow> DynInst \<Rightarrow> DynInst option" where
  "oblS_response sc split pkt i = do {
     assertion (needPostFetch i);
     if split then do {
       let i = (if pk_first pkt then on_sdo (\<lambda>d. d\<lparr>oblS_FstHalf := half_hits pkt (oblS_FstHalf d)\<rparr>) i
                else on_sdo (\<lambda>d. d\<lparr>oblS_SndHalf := half_hits pkt (oblS_SndHalf d)\<rparr>) i);
       let i = on_sdo (\<lambda>d. d\<lparr>oblS := combine_hits (oblS_FstHalf d) (oblS_SndHalf d) (oblS d)\<rparr>) i;
       assertion (ob_Hit_SB (oblS (sdo i)) \<longrightarrow> enableOblSContention sc);
       Some i
     }
     else Some (on_sdo (\<lambda>d. d\<lparr>oblS := whole_hits pkt (oblS d)\<rparr>) i)
   }"

section \<open>The state machine of an oblivious load\<close>

definition set_MLDOM :: "MLDOM_STATE_Type \<Rightarrow> 'g LoadCtx \<Rightarrow> 'g LoadCtx" where
  "set_MLDOM st = on_inst (on_sdo (\<lambda>d. d\<lparr>MLDOM_state := Some st\<rparr>))"

definition set_doneWB :: "bool \<Rightarrow> 'g LoadCtx \<Rightarrow> 'g LoadCtx" where
  "set_doneWB byOblS = on_inst (on_sdo (\<lambda>d. d\<lparr>doneWB := True, doneWB_byOblS := byOblS\<rparr>))"

text \<open>The perfect predictor in its unsafe mode; asking another predictor object is a failed cast.\<close>

definition perfect_unsafe :: "sdo_config \<Rightarrow> loc_pred \<Rightarrow> bool option" where
  "perfect_unsafe sc p = (if cpu_pred_type sc = Perfect then do { b \<leftarrow> is_perfect_safe p; Some (\<not> b) } else Some False)"

definition not_yet_validated :: "sdo_config \<Rightarrow> 'g LoadCtx \<Rightarrow> unit option" where
  "not_yet_validated sc s = (let i = lc_inst s in
     if fault i = None then do {
       unsafe \<leftarrow> perfect_unsafe sc (lc_pred s);
       assertion (unsafe \<or> readyToExpose i \<and> \<not> isExposeCompleted i)
     } else Some ())"

definition from_oblS :: "'g LoadCtx \<Rightarrow> bool" where
  "from_oblS s \<longleftrightarrow> doneWB (sdo (lc_inst s)) \<and> doneWB_byOblS (sdo (lc_inst s))"

text \<open>The last answer to the oblivious access (\<^verbatim>\<open>confirm\<close>), by state.\<close>

definition confirm_A :: "cpu_config \<Rightarrow> completeAcc_t \<Rightarrow> MemCmd \<Rightarrow> 'g LoadCtx \<Rightarrow> 'g LoadCtx option" where
  "confirm_A c acc cmd s = do {
     let s = set_MLDOM MLDOM_STATE_AB s;
     let i = lc_inst s;
     assertion (fault i = None \<longrightarrow> \<not> isExposeSent i \<and> \<not> isExposeCompleted i);
     assertion (ob_Complete (oblS (sdo i)));
     assertion (\<not> doneWB (sdo i));
     s \<leftarrow> writeback c acc cmd s;
     let s = set_doneWB True s;
     if ob_Hit (oblS (sdo (lc_inst s))) then do { assertion (\<not> valPred_onMiss (sdo (lc_inst s))); Some s }
     else Some (on_inst (on_sdo (\<lambda>d. d\<lparr>valPred_onMiss := True\<rparr>)) s)
   }"

definition confirm_AC ::
  "cpu_config \<Rightarrow> sdo_config \<Rightarrow> ('g \<Rightarrow> nat \<times> 'g) \<Rightarrow> completeAcc_t \<Rightarrow> MemCmd \<Rightarrow> 'g LoadCtx \<Rightarrow> 'g LoadCtx option" where
  "confirm_AC c sc rnd acc cmd s = do {
     let s = set_MLDOM MLDOM_STATE_ACB s;
     not_yet_validated sc s;
     assertion (ob_Complete (oblS (sdo (lc_inst s))));
     if ob_Hit (oblS (sdo (lc_inst s))) then do {
       assertion (\<not> doneWB (sdo (lc_inst s)));
       s \<leftarrow> writeback c acc cmd s;
       updateLocationPredictor rnd True 1 (set_doneWB True s)
     }
     else Some s
   }"

definition confirm_Ab :: "cpu_config \<Rightarrow> completeAcc_t \<Rightarrow> MemCmd \<Rightarrow> 'g LoadCtx \<Rightarrow> 'g LoadCtx option" where
  "confirm_Ab c acc cmd s = do {
     let s = set_MLDOM MLDOM_STATE_AB s;
     let d = sdo (lc_inst s);
     assertion (ob_Hit (oblS d));
     assertion (pkt_delayed_wb d \<noteq> None);
     assertion (\<not> doneWB d);
     s \<leftarrow> writeback c acc cmd s;
     Some (set_doneWB True s)
   }"

text \<open>An early hit (\<^verbatim>\<open>earlyHit\<close>), by state.\<close>

definition early_A :: "MemCmd \<Rightarrow> 'g LoadCtx \<Rightarrow> 'g LoadCtx option" where
  "early_A cmd s = do {
     assertion (ob_Hit (oblS (sdo (lc_inst s))));
     Some (on_inst (on_sdo (\<lambda>d. d\<lparr>pkt_delayed_wb := Some cmd\<rparr>)) (set_MLDOM MLDOM_STATE_Ab s))
   }"

definition early_AC ::
  "cpu_config \<Rightarrow> sdo_config \<Rightarrow> ('g \<Rightarrow> nat \<times> 'g) \<Rightarrow> completeAcc_t \<Rightarrow> MemCmd \<Rightarrow> 'g LoadCtx \<Rightarrow> 'g LoadCtx option" where
  "early_AC c sc rnd acc cmd s = do {
     let s = set_MLDOM MLDOM_STATE_ACb s;
     not_yet_validated sc s;
     let d = sdo (lc_inst s);
     assertion (\<not> ob_Complete (oblS d));
     assertion (ob_Hit (oblS d));
     assertion (\<not> doneWB d);
     s \<leftarrow> writeback c acc cmd s;
     updateLocationPredictor rnd True 1 (set_doneWB True s)
   }"

text \<open>The answer to a validation or exposure, by state.\<close>

definition post_ABC :: "('g \<Rightarrow> nat \<times> 'g) \<Rightarrow> 'g LoadCtx \<Rightarrow> 'g LoadCtx option" where
  "post_ABC rnd s = do {
     let s = set_MLDOM MLDOM_STATE_ABCD s;
     assertion (ob_Complete (oblS (sdo (lc_inst s))));
     assertion (from_oblS s);
     if \<not> ob_Hit (oblS (sdo (lc_inst s))) then updateLocationPredictor rnd True 2 s else Some s
   }"

definition validate_ACB ::
  "cpu_config \<Rightarrow> ('g \<Rightarrow> nat \<times> 'g) \<Rightarrow> completeAcc_t \<Rightarrow> MemCmd \<Rightarrow> 'g LoadCtx \<Rightarrow> 'g LoadCtx option" where
  "validate_ACB c rnd acc cmd s = do {
     let s = set_MLDOM MLDOM_STATE_ACBD s;
     assertion (ob_Complete (oblS (sdo (lc_inst s))));
     if ob_Hit (oblS (sdo (lc_inst s))) then do { assertion (from_oblS s); Some s }
     else do {
       s \<leftarrow> writeback c acc cmd s;
       updateLocationPredictor rnd True 2 (set_doneWB False s)
     }
   }"

definition validate_AC ::
  "cpu_config \<Rightarrow> ('g \<Rightarrow> nat \<times> 'g) \<Rightarrow> completeAcc_t \<Rightarrow> MemCmd \<Rightarrow> 'g LoadCtx \<Rightarrow> 'g LoadCtx option" where
  "validate_AC c rnd acc cmd s = do {
     let s = set_MLDOM MLDOM_STATE_ACD s;
     assertion (\<not> ob_Complete (oblS (sdo (lc_inst s))));
     assertion (\<not> doneWB (sdo (lc_inst s)));
     s \<leftarrow> writeback c acc cmd s;
     updateLocationPredictor rnd True 2 (set_doneWB False s)
   }"

text \<open>Transitions that only check what must hold.\<close>

definition checked_move :: "MLDOM_STATE_Type \<Rightarrow> (DynInst \<Rightarrow> bool) \<Rightarrow> 'g LoadCtx \<Rightarrow> 'g LoadCtx option" where
  "checked_move st ok s = do { assertion (ok (lc_inst s)); Some (set_MLDOM st s) }"

definition given_by_oblS :: "DynInst \<Rightarrow> bool" where
  "given_by_oblS i \<longleftrightarrow> ob_Hit (oblS (sdo i)) \<and> doneWB (sdo i) \<and> doneWB_byOblS (sdo i)"

definition given_by_validation :: "DynInst \<Rightarrow> bool" where
  "given_by_validation i \<longleftrightarrow> isExposeCompleted i \<and> doneWB (sdo i) \<and> \<not> doneWB_byOblS (sdo i)"

definition mldom_response ::
  "cpu_config \<Rightarrow> sdo_config \<Rightarrow> ('g \<Rightarrow> nat \<times> 'g) \<Rightarrow> completeAcc_t \<Rightarrow> Packet \<Rightarrow> 'g LoadCtx \<Rightarrow> 'g LoadCtx option" where
  "mldom_response c sc rnd acc pkt s = (let
     i = lc_inst s; st = MLDOM_state (sdo i); ob = oblS (sdo i); cmd = pk_cmd pkt;
     earlyHit = (isSpec cmd \<and> \<not> isFinalPacket pkt \<and> ob_Hit ob \<and> carryData pkt);
     confirm = (isSpec cmd \<and> isFinalPacket pkt \<and> ob_Complete ob)
     in
     if isSpec cmd \<and> \<not> earlyHit \<and> \<not> confirm then Some s
     else if st = Some MLDOM_STATE_A \<and> confirm then confirm_A c acc cmd s
     else if st = Some MLDOM_STATE_ABC \<and> (isValidate cmd \<or> isExpose cmd) then post_ABC rnd s
     else if st = Some MLDOM_STATE_AC \<and> confirm then confirm_AC c sc rnd acc cmd s
     else if st = Some MLDOM_STATE_AC \<and> isExpose cmd then do { b \<leftarrow> perfect_unsafe sc (lc_pred s); assertion b; Some s }
     else if st = Some MLDOM_STATE_ACB \<and> isValidate cmd then validate_ACB c rnd acc cmd s
     else if st = Some MLDOM_STATE_ACB \<and> isExpose cmd then do { b \<leftarrow> perfect_unsafe sc (lc_pred s); assertion b; Some s }
     else if st = Some MLDOM_STATE_AC \<and> isValidate cmd then validate_AC c rnd acc cmd s
     else if st = Some MLDOM_STATE_ACD \<and> earlyHit then do { assertion (given_by_validation i); Some s }
     else if st = Some MLDOM_STATE_ACD \<and> confirm then checked_move MLDOM_STATE_ACDB given_by_validation s
     else if st = Some MLDOM_STATE_A \<and> earlyHit then early_A cmd s
     else if st = Some MLDOM_STATE_Ab \<and> confirm then confirm_Ab c acc cmd s
     else if st = Some MLDOM_STATE_AbC \<and> confirm
     then checked_move MLDOM_STATE_AbCB (\<lambda>i. given_by_oblS i \<and> ob_Complete (oblS (sdo i))) s
     else if st = Some MLDOM_STATE_AbCB \<and> (isValidate cmd \<or> isExpose cmd)
     then checked_move MLDOM_STATE_AbCBD (\<lambda>i. given_by_oblS i \<and> ob_Complete (oblS (sdo i))) s
     else if st = Some MLDOM_STATE_AbC \<and> (isValidate cmd \<or> isExpose cmd) then checked_move MLDOM_STATE_AbCD given_by_oblS s
     else if st = Some MLDOM_STATE_AbCD \<and> confirm
     then checked_move MLDOM_STATE_AbCDB (\<lambda>i. ob_Hit (oblS (sdo i)) \<and> ob_Complete (oblS (sdo i)) \<and> isExposeCompleted i) s
     else if st = Some MLDOM_STATE_AC \<and> earlyHit then early_AC c sc rnd acc cmd s
     else if st = Some MLDOM_STATE_ACb \<and> confirm then Some (set_MLDOM MLDOM_STATE_ACB s)
     else if st = Some MLDOM_STATE_ACb \<and> isValidate cmd
     then checked_move MLDOM_STATE_ACbD (\<lambda>i. given_by_oblS i \<and> \<not> ob_Complete (oblS (sdo i))) s
     else if st = Some MLDOM_STATE_ACbD \<and> confirm
     then checked_move MLDOM_STATE_ACbDB (\<lambda>i. ob_Hit (oblS (sdo i)) \<and> ob_Complete (oblS (sdo i)) \<and> isExposeCompleted i) s
     else if st = Some MLDOM_STATE_toBeSquash then do { assertion (\<not> obls_TLB_Hit (sdo i)); Some s }
     else None)"

section \<open>The second access of a safe load\<close>

text \<open>
  What \<^verbatim>\<open>exposeLoads\<close> does with a load that has become safe: squash it, give up the second
  access, or send a validation or an exposure. The flags that say which is due survive a
  blocked cache; split loads have their own pair of flags.
\<close>

datatype post_action = Squash_load | Wait_for_squash | No_second_access | Send_post bool \<comment> \<open>whether it is only an exposure\<close>

definition needExpose :: "bool \<Rightarrow> SDO \<Rightarrow> bool" where
  "needExpose split d = (if split then needDoubleExpose d else needSingleExpose d)"

definition needValidate :: "bool \<Rightarrow> SDO \<Rightarrow> bool" where
  "needValidate split d = (if split then needDoubleValidate d else needSingleValidate d)"

definition set_needExpose :: "bool \<Rightarrow> bool \<Rightarrow> SDO \<Rightarrow> SDO" where
  "set_needExpose split b d = (if split then d\<lparr>needDoubleExpose := b\<rparr> else d\<lparr>needSingleExpose := b\<rparr>)"

definition set_needValidate :: "bool \<Rightarrow> bool \<Rightarrow> SDO \<Rightarrow> SDO" where
  "set_needValidate split b d = (if split then d\<lparr>needDoubleValidate := b\<rparr> else d\<lparr>needSingleValidate := b\<rparr>)"

text \<open>The result of the first part is \<open>None\<close> when a packet is to be sent.\<close>

definition choose_post :: "sdo_config \<Rightarrow> bool \<Rightarrow> 'g LoadCtx \<Rightarrow> post_action option \<times> 'g LoadCtx" where
  "choose_post sc split s = (let i = lc_inst s in
     if expose_only sc then (None, on_inst (on_sdo (set_needExpose split True)) s)
     else if disable_2ndld sc
     then (Some No_second_access, on_inst (set_status ExposeCompleted \<circ> set_status ExposeSent \<circ> set_flag NeedDeletePostReq True) s)
     else if ob_Hit_L0 (oblS (sdo i)) \<or> needExposeOnly i then (None, on_inst (on_sdo (set_needExpose split True)) s)
     else (None, on_inst (on_sdo (set_needValidate split True)) s))"

definition undo_WB :: "'g LoadCtx \<Rightarrow> 'g LoadCtx" where
  "undo_WB = on_inst (on_sdo (\<lambda>d. d\<lparr>MLDOM_state := Some MLDOM_STATE_toBeSquash, doneWB := False, doneWB_byOblS := False\<rparr>))"

definition expose_AB ::
  "sdo_config \<Rightarrow> ('g \<Rightarrow> nat \<times> 'g) \<Rightarrow> bool \<Rightarrow> 'g LoadCtx \<Rightarrow> (post_action option \<times> 'g LoadCtx) option" where
  "expose_AB sc rnd split s = do {
     let s = set_MLDOM MLDOM_STATE_ABC s;
     let d = sdo (lc_inst s);
     assertion (ob_Complete (oblS d));
     if \<not> ob_Hit (oblS d) then do { assertion (valPred_onMiss d); Some (Some Squash_load, undo_WB s) }
     else do {
       s \<leftarrow> updateLocationPredictor rnd True 1 s;
       Some (choose_post sc split s)
     }
   }"

definition expose_Ab ::
  "cpu_config \<Rightarrow> sdo_config \<Rightarrow> ('g \<Rightarrow> nat \<times> 'g) \<Rightarrow> completeAcc_t \<Rightarrow> bool \<Rightarrow> 'g LoadCtx \<Rightarrow> (post_action option \<times> 'g LoadCtx) option" where
  "expose_Ab c sc rnd acc split s = do {
     let s = set_MLDOM MLDOM_STATE_AbC s;
     cmd \<leftarrow> pkt_delayed_wb (sdo (lc_inst s));
     s \<leftarrow> (if \<not> doneWB (sdo (lc_inst s)) then writeback c acc cmd s else Some s);
     let s = set_doneWB True s;
     assertion (ob_Hit (oblS (sdo (lc_inst s))));
     s \<leftarrow> updateLocationPredictor rnd True 1 s;
     Some (choose_post sc split s)
   }"

definition expose_state ::
  "cpu_config \<Rightarrow> sdo_config \<Rightarrow> ('g \<Rightarrow> nat \<times> 'g) \<Rightarrow> completeAcc_t \<Rightarrow> bool \<Rightarrow> 'g LoadCtx \<Rightarrow> (post_action option \<times> 'g LoadCtx) option" where
  "expose_state c sc rnd acc split s = (let d = sdo (lc_inst s); st = MLDOM_state d in
     if \<not> obls_TLB_Hit d then do { assertion (TLB_defense sc = 3); Some (Some Squash_load, undo_WB s) }
     else if st = Some MLDOM_STATE_AB then expose_AB sc rnd split s
     else if st = Some MLDOM_STATE_A then Some (None, on_inst (on_sdo (set_needValidate split True)) (set_MLDOM MLDOM_STATE_AC s))
     else if st = Some MLDOM_STATE_Ab then expose_Ab c sc rnd acc split s
     else if needExpose split d \<or> needValidate split d then Some (None, s)
     else if st = Some MLDOM_STATE_toBeSquash then Some (Some Wait_for_squash, s)
     else None)"

text \<open>The unsafe perfect predictor needs no validation. A packet that is neither does not exist.\<close>

definition expose_decide ::
  "cpu_config \<Rightarrow> sdo_config \<Rightarrow> ('g \<Rightarrow> nat \<times> 'g) \<Rightarrow> completeAcc_t \<Rightarrow> bool \<Rightarrow> 'g LoadCtx \<Rightarrow> (post_action \<times> 'g LoadCtx) option" where
  "expose_decide c sc rnd acc split s = do {
     (a, s) \<leftarrow> expose_state c sc rnd acc split s;
     case a of
       Some a \<Rightarrow> Some (a, s)
     | None \<Rightarrow> do {
         unsafe \<leftarrow> perfect_unsafe sc (lc_pred s);
         let s = (if unsafe then on_inst (on_sdo (set_needValidate split False \<circ> set_needExpose split True)) s else s);
         let d = sdo (lc_inst s);
         assertion (\<not> (needExpose split d \<and> needValidate split d));
         assertion (needExpose split d \<or> needValidate split d);
         Some (Send_post (needExpose split d), s)
       }
   }"

end
