(* ===== verification/SDO_Unit.thy ===== *)
theory SDO_Unit
  imports SDO_Load
begin

text \<open>
  The loads of a load/store unit and the memory system: the answers that arrive
  (\<^verbatim>\<open>completeDataAccess\<close> for loads) and the second accesses of safe loads (\<^verbatim>\<open>exposeLoads\<close>).
  The data port is an argument: \<open>port sent pkt\<close> says whether \<^verbatim>\<open>sendTimingReq\<close> takes \<open>pkt\<close>
  after it has taken the packets \<open>sent\<close>. Sender states are numbered as they are allocated.
\<close>

record LoadSender =
  ls_noWB :: bool
  ls_isSplit :: bool
  ls_outstanding :: nat
  ls_cacheBlocked :: bool

record 'g LdState =
  ldu :: LSQUnit
  ldh :: inst_heap
  ldp :: loc_pred
  ldg :: 'g
  lsent :: "Packet list" \<comment> \<open>the packets the port has taken, oldest first\<close>
  senders :: "nat \<Rightarrow> LoadSender option"
  nsender :: nat
  toCommit :: "DynInstPtr list" \<comment> \<open>calls of \<^verbatim>\<open>instToCommit\<close>\<close>
  results :: "(DynInstPtr \<times> 8 word list) list" \<comment> \<open>the data given to \<^verbatim>\<open>completeAcc\<close>\<close>
  deferred :: "DynInstPtr list" \<comment> \<open>calls of \<^verbatim>\<open>deferMemInst\<close>\<close>
  cacheBlocked :: "DynInstPtr list" \<comment> \<open>calls of \<^verbatim>\<open>blockMemInst\<close>\<close>

type_synonym load_port = "Packet list \<Rightarrow> Packet \<Rightarrow> bool"

definition load_ctx :: "DynInstPtr \<Rightarrow> 'g LdState \<Rightarrow> 'g LoadCtx" where
  "load_ctx p s = \<lparr>lc_inst = ldh s p, lc_pred = ldp s, lc_rng = ldg s, lc_toCommit = 0, lc_results = []\<rparr>"

definition put_ctx :: "DynInstPtr \<Rightarrow> 'g LoadCtx \<Rightarrow> 'g LdState \<Rightarrow> 'g LdState" where
  "put_ctx p x s = s\<lparr>ldh := (ldh s)(p := lc_inst x), ldp := lc_pred x, ldg := lc_rng x,
     toCommit := toCommit s @ replicate (lc_toCommit x) p, results := results s @ map (Pair p) (lc_results x)\<rparr>"

definition with_load :: "DynInstPtr \<Rightarrow> ('g LoadCtx \<Rightarrow> 'g LoadCtx option) \<Rightarrow> 'g LdState \<Rightarrow> 'g LdState option" where
  "with_load p f s = do { x \<leftarrow> f (load_ctx p s); Some (put_ctx p x s) }"

definition on_load :: "DynInstPtr \<Rightarrow> (DynInst \<Rightarrow> DynInst) \<Rightarrow> 'g LdState \<Rightarrow> 'g LdState" where
  "on_load p f s = s\<lparr>ldh := modify p f (ldh s)\<rparr>"

definition on_loadM :: "DynInstPtr \<Rightarrow> (DynInst \<Rightarrow> DynInst option) \<Rightarrow> 'g LdState \<Rightarrow> 'g LdState option" where
  "on_loadM p f s = do { h \<leftarrow> modifyM p f (ldh s); Some (s\<lparr>ldh := h\<rparr>) }"

definition mark_specBuf :: "Request \<Rightarrow> 'g LdState \<Rightarrow> 'g LdState option" where
  "mark_specBuf req s = do { h \<leftarrow> setSpecBufState req (ldu s) (ldh s); Some (s\<lparr>ldh := h\<rparr>) }"

section \<open>Answers of the memory system\<close>

text \<open>
  The flags of the access. Without oblivious execution a speculative hit in the first level
  is remembered for the validation.
\<close>

definition response_flags :: "sdo_config option \<Rightarrow> LoadSender \<Rightarrow> Packet \<Rightarrow> 'g LdState \<Rightarrow> 'g LdState option" where
  "response_flags m st pkt s = (case m of
     None \<Rightarrow> (if isL0Hit pkt \<and> isSpec (pk_cmd pkt)
              then Some (on_load (pk_inst pkt) (set_status (if ls_isSplit st \<and> \<not> pk_first pkt then L1HitHigh else L1HitLow)) s)
              else if \<not> isSpec (pk_cmd pkt) then mark_specBuf (pk_req pkt) s else Some s)
   | Some sc \<Rightarrow> do {
       s \<leftarrow> (if enableOblSContention sc \<and> \<not> isSpec (pk_cmd pkt) then mark_specBuf (pk_req pkt) s else Some s);
       if isSpec (pk_cmd pkt) then on_loadM (pk_inst pkt) (oblS_response sc (ls_isSplit st) pkt) s else Some s
     })"

text \<open>A load that is not squashed takes the answer.\<close>

definition response_load ::
  "cpu_config \<Rightarrow> sdo_config option \<Rightarrow> ('g \<Rightarrow> nat \<times> 'g) \<Rightarrow> completeAcc_t \<Rightarrow> LoadSender \<Rightarrow> Packet \<Rightarrow> 'g LoadCtx \<Rightarrow> 'g LoadCtx option" where
  "response_load c m rnd acc st pkt x = do {
     x \<leftarrow> (if ls_noWB st then Some x
       else do {
         assertion (isLoad (lc_inst x) \<or> si_isStoreConditional (staticInst (lc_inst x)));
         case m of
           None \<Rightarrow> writeback c acc (pk_cmd pkt) x
         | Some sc \<Rightarrow>
             if isLoad (lc_inst x) \<and> needPostFetch (lc_inst x) then mldom_response c sc rnd acc pkt x
             else do {
               assertion (\<not> isValidate (pk_cmd pkt) \<and> \<not> isExpose (pk_cmd pkt));
               x \<leftarrow> writeback c acc (pk_cmd pkt) x;
               if isLoad (lc_inst x) then updateLocationPredictor rnd True 0 x else Some x
             }
       });
     if isValidate (pk_cmd pkt) \<or> isExpose (pk_cmd pkt)
     then do { i \<leftarrow> completeValidate (m \<noteq> None) (pk_isSplit pkt) (lc_inst x); Some (x\<lparr>lc_inst := i\<rparr>) }
     else Some x
   }"

text \<open>
  An answer to a load. Data in a packet are already in the buffer of the instruction, which
  the packet points to. The count of outstanding packets is a \<^verbatim>\<open>uint8_t\<close>.
\<close>

definition load_response ::
  "cpu_config \<Rightarrow> sdo_config option \<Rightarrow> ('g \<Rightarrow> nat \<times> 'g) \<Rightarrow> completeAcc_t \<Rightarrow> Packet \<Rightarrow> 'g LdState \<Rightarrow> 'g LdState option" where
  "load_response c m rnd acc pkt s = do {
     st \<leftarrow> senders s (pk_sender pkt);
     let p = pk_inst pkt;
     let post = (isExpose (pk_cmd pkt) \<or> isValidate (pk_cmd pkt));
     let s = on_load p (record_hit_level (ls_isSplit st) pkt) s;
     if ls_cacheBlocked st
     then Some (if isFinalPacket pkt then s\<lparr>senders := (senders s)(pk_sender pkt := None)\<rparr> else s)
     else do {
       s \<leftarrow> response_flags m st pkt s;
       let n = (if isFinalPacket pkt then (ls_outstanding st + 255) mod 256 else ls_outstanding st);
       let s = s\<lparr>senders := (senders s)(pk_sender pkt \<mapsto> st\<lparr>ls_outstanding := n\<rparr>)\<rparr>;
       if isFinalPacket pkt \<and> n \<noteq> 0
       then do { assertion (post \<longrightarrow> \<not> instFlags (ldh s p) NeedDeletePostReq); Some s }
       else do {
         s \<leftarrow> (if isSquashed (ldh s p) then Some s else with_load p (response_load c m rnd acc st pkt) s);
         if isFinalPacket pkt then do {
           assertion (post \<longrightarrow> \<not> instFlags (ldh s p) NeedDeletePostReq);
           Some (s\<lparr>senders := (senders s)(pk_sender pkt := None)\<rparr>)
         } else Some s
       }
     }
   }"

section \<open>Sending\<close>

text \<open>
  One packet, or two for a split access. When the second half is refused the sender
  state is marked, so that the answer to the first half is ignored.
\<close>

definition send_load :: "load_port \<Rightarrow> LoadSender \<Rightarrow> Packet \<Rightarrow> Packet option \<Rightarrow> 'g LdState \<Rightarrow> bool \<times> 'g LdState" where
  "send_load port st fst_pkt snd_pkt s = (let n = nsender s; s = s\<lparr>nsender := n + 1\<rparr> in
     if \<not> port (lsent s) fst_pkt then (False, s)
     else let s = s\<lparr>lsent := lsent s @ [fst_pkt], senders := (senders s)(n \<mapsto> st)\<rparr> in
       case snd_pkt of
         None \<Rightarrow> (True, s)
       | Some q \<Rightarrow>
           if port (lsent s) q then (True, s\<lparr>lsent := lsent s @ [q]\<rparr>)
           else (False, s\<lparr>senders := (senders s)(n \<mapsto> st\<lparr>ls_outstanding := ls_outstanding st - 1, ls_cacheBlocked := True\<rparr>)\<rparr>))"

text \<open>The packets of the second access; \<open>idx\<close> is \<^verbatim>\<open>loadVLDIdx\<close>.\<close>

definition post_packet :: "MemCmd \<Rightarrow> Request \<Rightarrow> DynInstPtr \<Rightarrow> nat \<Rightarrow> nat \<Rightarrow> bool \<Rightarrow> bool \<Rightarrow> Packet" where
  "post_packet cmd req p n idx first split =
     (mk_Packet req cmd)\<lparr>pk_inst := p, pk_sender := n, pk_reqIdx := idx, pk_first := first, pk_isSplit := split\<rparr>"

definition clear_needs :: "SDO \<Rightarrow> SDO" where
  "clear_needs d = d\<lparr>ExposeValidateBlocked := False, needSingleExpose := False, needSingleValidate := False,
     needDoubleExpose := False, needDoubleValidate := False\<rparr>"

definition post_sent :: "bool \<Rightarrow> DynInst \<Rightarrow> DynInst" where
  "post_sent onlyExpose i = (let
     i = set_flag NeedDeletePostReq False (on_sdo clear_needs i);
     i = (if onlyExpose then set_status ExposeCompleted i else i)
     in set_status ExposeSent i)"

definition send_post :: "load_port \<Rightarrow> nat \<Rightarrow> DynInstPtr \<Rightarrow> bool \<Rightarrow> 'g LdState \<Rightarrow> 'g LdState option" where
  "send_post port idx p onlyExpose s = do {
     let i = ldst (ldh s p);
     let cmd = (if onlyExpose then ExposeReq else ValidateReq);
     req \<leftarrow> postReq i;
     assertion (\<not> isStrictlyOrdered req);
     assertion (\<not> isMmappedIpr req);
     (reqs, ok, s) \<leftarrow> (case postSreqLow i of
         None \<Rightarrow> Some ([req], send_load port \<lparr>ls_noWB = False, ls_isSplit = False, ls_outstanding = 1, ls_cacheBlocked = False\<rparr>
                        (post_packet cmd req p (nsender s) idx True False) None s)
       | Some lo \<Rightarrow> do {
           hi \<leftarrow> postSreqHigh i;
           Some ([lo, hi], send_load port \<lparr>ls_noWB = False, ls_isSplit = True, ls_outstanding = 2, ls_cacheBlocked = False\<rparr>
                  (post_packet cmd lo p (nsender s) idx True True) (Some (post_packet cmd hi p (nsender s) idx False True)) s)
         });
     if \<not> ok then Some (on_load p (on_sdo (\<lambda>d. d\<lparr>ExposeValidateBlocked := True\<rparr>)) s)
     else do {
       let s = on_load p (post_sent onlyExpose) s;
       if onlyExpose then Some s else foldM (\<lambda>s r. mark_specBuf r s) s reqs
     }
   }"

section \<open>exposeLoads\<close>

text \<open>The oldest load whose oblivious access missed is remembered for the squash.\<close>

definition note_miss :: "DynInstPtr \<Rightarrow> 'g LdState \<Rightarrow> 'g LdState" where
  "note_miss p s = (if (case oblsMissInst (ldu s) of None \<Rightarrow> True | Some q \<Rightarrow> seqNum (ldh s p) < seqNum (ldh s q))
     then s\<lparr>ldu := (ldu s)\<lparr>oblsMissInst := Some p\<rparr>\<rparr> else s)"

text \<open>The second access of a load that is ready for it.\<close>

definition expose_ready ::
  "cpu_config \<Rightarrow> sdo_config option \<Rightarrow> ('g \<Rightarrow> nat \<times> 'g) \<Rightarrow> completeAcc_t \<Rightarrow> load_port \<Rightarrow> nat \<Rightarrow> DynInstPtr \<Rightarrow>
   'g LdState \<Rightarrow> (bool \<times> 'g LdState) option" where
  "expose_ready c m rnd acc port idx p s = do {
     assertion (\<not> isCommitted (ldh s p));
     req \<leftarrow> postReq (ldst (ldh s p));
     assertion (effSize (ldst (ldh s p)) = getSize req);
     let s = (if vldData (ldst (ldh s p)) = None
              then on_load p (\<lambda>i. i\<lparr>ldst := (ldst i)\<lparr>vldData := Some (replicate (effSize (ldst i)) 0)\<rparr>\<rparr>) s else s);
     sc \<leftarrow> m;
     (a, x) \<leftarrow> expose_decide c sc rnd acc (postSreqLow (ldst (ldh s p)) \<noteq> None) (load_ctx p s);
     let s = put_ctx p x s;
     case a of
       Squash_load \<Rightarrow> Some (False, note_miss p s)
     | Wait_for_squash \<Rightarrow> Some (False, s)
     | No_second_access \<Rightarrow> Some (False, s)
     | Send_post onlyExpose \<Rightarrow> do { s \<leftarrow> send_post port idx p onlyExpose s; Some (True, s) }
   }"

definition expose_load ::
  "cpu_config \<Rightarrow> sdo_config option \<Rightarrow> ('g \<Rightarrow> nat \<times> 'g) \<Rightarrow> completeAcc_t \<Rightarrow> load_port \<Rightarrow> nat \<Rightarrow> DynInstPtr \<Rightarrow>
   'g LdState \<Rightarrow> (bool \<times> 'g LdState) option" where
  "expose_load c m rnd acc port idx p s =
     (if (case oblsMissInst (ldu s) of None \<Rightarrow> False | Some q \<Rightarrow> seqNum (ldh s p) = seqNum (ldh s q)) then Some (False, s)
      else if isSquashed (ldh s p) then Some (True, s)
      else do {
        s \<leftarrow> (if m \<noteq> None \<and> isExecuted (ldh s p) \<and> if_ldStFwd (sdo (ldh s p)) \<and> readyToExpose (ldh s p)
              then with_load p (updateLocationPredictor rnd True 3) s else Some s);
        if \<not> needPostFetch (ldh s p) \<or> isExposeSent (ldh s p) then Some (True, s)
        else if fault (ldh s p) \<noteq> None
        then let s = on_load p (set_status ExposeCompleted \<circ> set_status ExposeSent) s
             in Some (True, if isExecuted (ldh s p) then s\<lparr>toCommit := toCommit s @ [p]\<rparr> else s)
        else if \<not> readyToExpose (ldh s p) then Some (True, s)
        else expose_ready c m rnd acc port idx p s
      })"

text \<open>The loop over the load queue stops at an empty slot.\<close>

definition exposeLoads ::
  "cpu_config \<Rightarrow> sdo_config option \<Rightarrow> ('g \<Rightarrow> nat \<times> 'g) \<Rightarrow> completeAcc_t \<Rightarrow> load_port \<Rightarrow> 'g LdState \<Rightarrow> 'g LdState option" where
  "exposeLoads c m rnd acc port s = do {
     assertion (isInvisibleSpec c \<or> loadsToVLD (ldu s) = 0);
     s \<leftarrow> walk (LQEntries (ldu s)) (LQEntries (ldu s))
       (\<lambda>idx s. do {
          l \<leftarrow> vec_get (loadQueue (ldu s)) idx;
          case l of None \<Rightarrow> Some (False, s) | Some p \<Rightarrow> expose_load c m rnd acc port idx p s
        }) (loadHead (ldu s)) (loadTail (ldu s)) s;
     assertion (loads (ldu s) \<ge> 0);
     Some s
   }"

end
