(* ===== verification/SDO_Issue.thy ===== *)
theory SDO_Issue
  imports SDO_Unit
begin

text \<open>
  Sending a load to the cache: the second half of \<^verbatim>\<open>LSQUnit::read\<close> (\<^verbatim>\<open>lsq_unit.hh\<close>), which
  decides whether the access is oblivious, asks the location predictor and builds the
  packets, and the searches through the load queue that it uses.
\<close>

section \<open>Searches through the load queue\<close>

definition checkPrevLoadsExecuted :: "cpu_config \<Rightarrow> nat \<Rightarrow> LSQUnit \<Rightarrow> inst_heap \<Rightarrow> bool option" where
  "checkPrevLoadsExecuted c req_idx u h =
     walk (LQEntries u) (LQEntries u)
       (\<lambda>load_idx r. do {
          l \<leftarrow> load_at u load_idx;
          if \<not> isExecuted (h l) \<or>
             needsTSO c \<and> needPostFetch (h l) \<and> \<not> needExposeOnly (h l) \<and> \<not> isExposeCompleted (h l)
          then Some (False, False) else Some (True, r)
        }) (loadHead u) req_idx True"

text \<open>The result is the index of a load that holds the line in the speculation buffer.\<close>

definition specBuf_match :: "Addr \<Rightarrow> Addr \<Rightarrow> DynInst \<Rightarrow> bool" where
  "specBuf_match blk_mask req_eff_addr i \<longleftrightarrow> instFlags i EffAddrValid \<and> needPostFetch i \<and> fault i = None \<and>
     (req_eff_addr = physEffAddrLow (ldst i) AND blk_mask \<and> \<not> status i SpecBufObsoleteLow \<or>
      req_eff_addr = physEffAddrHigh (ldst i) AND blk_mask \<and> \<not> status i SpecBufObsoleteHigh)"

definition checkSpecBufHit :: "Request \<Rightarrow> nat \<Rightarrow> LSQUnit \<Rightarrow> inst_heap \<Rightarrow> nat option option" where
  "checkSpecBufHit req req_idx u h = do {
     q \<leftarrow> load_at u req_idx;
     assertion (\<not> isExecuted (h q));
     walk (LQEntries u) (LQEntries u)
       (\<lambda>load_idx r. do {
          l \<leftarrow> load_at u load_idx;
          if specBuf_match (cacheBlockMask u) (getPaddr req AND cacheBlockMask u) (h l) then Some (False, Some load_idx) else Some (True, r)
        }) (loadHead u) (loadTail u) None
   }"

text \<open>Older loads of the same instruction that the loop predictor expects outside the first level, youngest first; the head is not examined.\<close>

fun probe_walk :: "nat \<Rightarrow> DynInst \<Rightarrow> LSQUnit \<Rightarrow> inst_heap \<Rightarrow> nat \<Rightarrow> DynInstPtr option option" where
  "probe_walk 0 i u h lq_idx = (if lq_idx = loadHead u then Some None else None)"
| "probe_walk (Suc n) i u h lq_idx =
     (if lq_idx = loadHead u then Some None
      else do {
        q \<leftarrow> load_at u lq_idx;
        if pc i = pc (h q) \<and> pred_level (sdo (h q)) \<noteq> Some Cache_L1 \<and> chosen_pred_type (sdo (h q)) = Some Loop
        then Some (Some q) else probe_walk n i u h (decrLdIdx u lq_idx)
      })"

definition findProbeLoad :: "DynInstPtr \<Rightarrow> LSQUnit \<Rightarrow> inst_heap \<Rightarrow> DynInstPtr option option" where
  "findProbeLoad p u h = probe_walk (LQEntries u) (h p) u h (nat (lqIdx (ldst (h p))))"

section \<open>Prediction and packets\<close>

definition predict_load :: "('g \<Rightarrow> nat \<times> 'g) \<Rightarrow> DynInstPtr \<Rightarrow> 'g LdState \<Rightarrow> 'g LdState option" where
  "predict_load rnd p s = do {
     (l, t, q, g) \<leftarrow> predict rnd (ldg s) (ldp s) (pc (ldh s p)) (seqNum (ldh s p));
     Some (on_load p (on_sdo (\<lambda>d. d\<lparr>pred_level := Some (foldCacheLevelForTwoLevelSDO l), chosen_pred_type := Some t\<rparr>)) (s\<lparr>ldp := q, ldg := g\<rparr>))
   }"

text \<open>
  The command of an oblivious load; \<open>None\<close> in the result when the load waits instead.
  Reading \<^verbatim>\<open>delay_on_DRAM_pred\<close> when the constructor did not set it is a trap.
\<close>

definition spec_command :: "sdo_config \<Rightarrow> CacheLevel_t option \<Rightarrow> MemCmd option option" where
  "spec_command sc l = (case l of
     Some Cache_L1 \<Rightarrow> Some (Some ReadSpecL0Req)
   | Some Cache_L2 \<Rightarrow> Some (Some ReadSpecL1Req)
   | Some DRAM \<Rightarrow> do { (delay_on_DRAM_pred, _) \<leftarrow> delay_on_pred sc; Some (if delay_on_DRAM_pred then None else Some ReadSpecMemReq) }
   | Some Perfect_Level \<Rightarrow> Some (Some ReadSpecPerfectReq)
   | Some PerfectUnsafe_Level \<Rightarrow> Some (Some ReadSpecPerfectUnsafeReq)
   | _ \<Rightarrow> None)"

definition load_command :: "sdo_config option \<Rightarrow> bool \<Rightarrow> DynInst \<Rightarrow> MemCmd option option" where
  "load_command m sendSpecRead i =
     (if sendSpecRead then (case m of None \<Rightarrow> Some (Some ReadSpecReq) | Some sc \<Rightarrow> spec_command sc (pred_level (sdo i)))
      else Some (Some ReadReq))"

text \<open>Whether the packet may be served from the speculation buffer.\<close>

definition source_idx :: "sdo_config option \<Rightarrow> bool \<Rightarrow> Request \<Rightarrow> nat \<Rightarrow> LSQUnit \<Rightarrow> inst_heap \<Rightarrow> nat option option" where
  "source_idx m sendSpecRead req load_idx u h =
     (if (case m of None \<Rightarrow> sendSpecRead | Some sc \<Rightarrow> enableOblSContention sc) then checkSpecBufHit req load_idx u h else Some None)"

definition read_packet :: "MemCmd \<Rightarrow> Request \<Rightarrow> DynInstPtr \<Rightarrow> nat \<Rightarrow> nat \<Rightarrow> bool \<Rightarrow> bool \<Rightarrow> nat option \<Rightarrow> Packet" where
  "read_packet cmd req p n load_idx first split src =
     (mk_Packet req cmd)\<lparr>pk_inst := p, pk_sender := n, pk_reqIdx := load_idx, pk_first := first, pk_isSplit := split, pk_specBuf := src\<rparr>"

definition read_packets ::
  "sdo_config option \<Rightarrow> bool \<Rightarrow> MemCmd \<Rightarrow> Request \<Rightarrow> (Request \<times> Request) option \<Rightarrow> DynInstPtr \<Rightarrow> nat \<Rightarrow> 'g LdState \<Rightarrow>
   (LoadSender \<times> Packet \<times> Packet option) option" where
  "read_packets m sendSpecRead cmd req sreq p load_idx s = (case sreq of
     None \<Rightarrow> do {
       src \<leftarrow> source_idx m sendSpecRead req load_idx (ldu s) (ldh s);
       Some (\<lparr>ls_noWB = False, ls_isSplit = False, ls_outstanding = 1, ls_cacheBlocked = False\<rparr>,
             read_packet cmd req p (nsender s) load_idx True False src, None)
     }
   | Some (lo, hi) \<Rightarrow> do {
       a \<leftarrow> source_idx m sendSpecRead lo load_idx (ldu s) (ldh s);
       b \<leftarrow> source_idx m sendSpecRead hi load_idx (ldu s) (ldh s);
       Some (\<lparr>ls_noWB = False, ls_isSplit = True, ls_outstanding = 2, ls_cacheBlocked = False\<rparr>,
             read_packet cmd lo p (nsender s) load_idx True True a, Some (read_packet cmd hi p (nsender s) load_idx False True b))
     })"

section \<open>After the access has been sent\<close>

text \<open>Which older oblivious loads go to the same line; only counted.\<close>

definition alias_flags :: "Addr \<Rightarrow> DynInst \<Rightarrow> DynInst \<Rightarrow> DynInst" where
  "alias_flags blk_mask q i =
     (if effAddr (ldst i) AND blk_mask = effAddr (ldst q) AND blk_mask \<and> oblS_Sent (sdo q)
      then let arrived = (ob_Complete (oblS (sdo q)) \<and> ob_Hit (oblS (sdo q))) in
        if \<not> readyToExpose q
        then on_sdo (\<lambda>d. if arrived then d\<lparr>alias_tainted_arrived := True\<rparr> else d\<lparr>alias_tainted_not_arrived := True\<rparr>) i
        else on_sdo (\<lambda>d. if arrived then d\<lparr>alias_untainted_arrived := True\<rparr> else d\<lparr>alias_untainted_not_arrived := True\<rparr>) i
      else i)"

definition note_aliases :: "nat \<Rightarrow> DynInstPtr \<Rightarrow> LSQUnit \<Rightarrow> inst_heap \<Rightarrow> inst_heap option" where
  "note_aliases load_idx p u h =
     walk (LQEntries u) (LQEntries u)
       (\<lambda>lq_idx h. do { q \<leftarrow> load_at u lq_idx; Some (True, modify p (alias_flags (cacheBlockMask u) (h q)) h) })
       (loadHead u) load_idx h"

definition oblS_issued :: "Request \<Rightarrow> (Request \<times> Request) option \<Rightarrow> bool \<Rightarrow> DynInst \<Rightarrow> DynInst" where
  "oblS_issued req sreq exposeOnly i =
     set_flag NeedDeletePostReq True
       ((set_flag NeedPostFetch True
          (on_sdo (\<lambda>d. d\<lparr>oblS_Sent := True, MLDOM_state := Some MLDOM_STATE_A\<rparr>)
            (if exposeOnly then set_flag NeedExposeOnly True i else i)))
        \<lparr>ldst := (ldst i)\<lparr>postReq := Some req, postSreqLow := map_option fst sreq, postSreqHigh := map_option snd sreq\<rparr>\<rparr>)"

definition load_issued ::
  "cpu_config \<Rightarrow> sdo_config option \<Rightarrow> bool \<Rightarrow> Request \<Rightarrow> (Request \<times> Request) option \<Rightarrow> DynInstPtr \<Rightarrow> nat \<Rightarrow> 'g LdState \<Rightarrow> 'g LdState option" where
  "load_issued c m sendSpecRead req sreq p load_idx s = do {
     s \<leftarrow> (if m \<noteq> None then do { h \<leftarrow> note_aliases load_idx p (ldu s) (ldh s); Some (s\<lparr>ldh := h\<rparr>) } else Some s);
     if sendSpecRead then do {
       assertion (m \<noteq> None);
       b \<leftarrow> (if needsTSO c \<and> \<not> si_isDataPrefetch (staticInst (ldh s p)) then checkPrevLoadsExecuted c load_idx (ldu s) (ldh s) else Some True);
       assertion (\<not> isMmappedIpr req);
       Some (on_load p (oblS_issued req sreq b) s)
     }
     else do {
       let s = on_load p (set_status ExposeCompleted \<circ> set_flag NeedPostFetch False) s;
       case sreq of
         None \<Rightarrow> mark_specBuf req s
       | Some (lo, hi) \<Rightarrow> do { s \<leftarrow> mark_specBuf lo s; mark_specBuf hi s }
     }
   }"

section \<open>The access\<close>

definition defer_load :: "DynInstPtr \<Rightarrow> 'g LdState \<Rightarrow> 'g LdState" where
  "defer_load p s = (on_load p (set_flag OnlyWaitForExpose True) s)\<lparr>deferred := deferred s @ [p]\<rparr>"

definition waits_for_probe :: "bool \<Rightarrow> DynInstPtr \<Rightarrow> 'g LdState \<Rightarrow> bool option" where
  "waits_for_probe sendSpecRead p s =
     (if sendSpecRead \<and> chosen_pred_type (sdo (ldh s p)) = Some Loop \<and> pred_level (sdo (ldh s p)) = Some Cache_L1
      then do { q \<leftarrow> findProbeLoad p (ldu s) (ldh s); Some (q \<noteq> None) } else Some False)"

definition send_read ::
  "cpu_config \<Rightarrow> sdo_config option \<Rightarrow> load_port \<Rightarrow> bool \<Rightarrow> MemCmd \<Rightarrow> Request \<Rightarrow> (Request \<times> Request) option \<Rightarrow> DynInstPtr \<Rightarrow> nat \<Rightarrow>
   'g LdState \<Rightarrow> 'g LdState option" where
  "send_read c m port sendSpecRead cmd req sreq p load_idx s = do {
     (st, fst_pkt, snd_pkt) \<leftarrow> read_packets m sendSpecRead cmd req sreq p load_idx s;
     let (ok, s) = send_load port st fst_pkt snd_pkt s;
     if \<not> ok then Some (s\<lparr>cacheBlocked := cacheBlocked s @ [p]\<rparr>)
     else load_issued c m sendSpecRead req sreq p load_idx s
   }"

definition read_cache ::
  "cpu_config \<Rightarrow> sdo_config option \<Rightarrow> ('g \<Rightarrow> nat \<times> 'g) \<Rightarrow> load_port \<Rightarrow> Request \<Rightarrow> (Request \<times> Request) option \<Rightarrow> nat \<Rightarrow>
   'g LdState \<Rightarrow> 'g LdState option" where
  "read_cache c m rnd port req sreq load_idx s = do {
     p \<leftarrow> load_at (ldu s) load_idx;
     let s = (if memData (ldst (ldh s p)) = None
              then on_load p (\<lambda>i. i\<lparr>ldst := (ldst i)\<lparr>memData := Some (replicate (getSize req) 0)\<rparr>\<rparr>) s else s);
     let sendSpecRead = (isInvisibleSpec c \<and> \<not> readyToExpose (ldh s p));
     assertion (sendSpecRead \<longrightarrow> \<not> isLLSC req \<and> \<not> isStrictlyOrdered req \<and> \<not> isMmappedIpr req);
     assertion (\<not> (sendSpecRead \<and> status (ldh s p) SpecCompleted));
     s \<leftarrow> (if m \<noteq> None then predict_load rnd p s else Some s);
     stall \<leftarrow> waits_for_probe sendSpecRead p s;
     if stall then Some (defer_load p s)
     else do {
       cmd \<leftarrow> load_command m sendSpecRead (ldh s p);
       case cmd of
         None \<Rightarrow> Some (defer_load p s)
       | Some cmd \<Rightarrow> send_read c m port sendSpecRead cmd req sreq p load_idx s
     }
   }"

end
