(* ===== verification/SDO_Inv.thy ===== *)
theory SDO_Inv
  imports SDO_Unit
begin

text \<open>
  The invariant of the states of an oblivious load, and what write-back and the update of the
  location predictor do to it. The load is seen with the location predictor it shares with
  others, of which is only required that it accepts an update for the load.
\<close>

section \<open>The invariant\<close>

text \<open>The second access: not sent, sent or answered; the flag tells an exposure from a validation.\<close>

datatype post_status = Not_sent | Sent bool | Answered bool

definition is_due :: "bool \<Rightarrow> SDO \<Rightarrow> bool" where
  "is_due split d \<longleftrightarrow> needExpose split d \<or> needValidate split d"

definition hit_flags :: "oblS_state \<Rightarrow> bool" where
  "hit_flags a \<longleftrightarrow> \<not> ob_Hit_SB a \<and> \<not> ob_Hit_L2 a \<and> (ob_Hit a \<longleftrightarrow> ob_Hit_L0 a \<or> ob_Hit_L1 a \<or> ob_Hit_Mem a)"

definition halves_ok :: "bool \<Rightarrow> SDO \<Rightarrow> bool" where
  "halves_ok split d \<longleftrightarrow> hit_flags (oblS d) \<and>
     (split \<longrightarrow> hit_flags (oblS_FstHalf d) \<and> hit_flags (oblS_SndHalf d) \<and>
        (ob_Hit (oblS d) \<longleftrightarrow> ob_Hit (oblS_FstHalf d) \<and> ob_Hit (oblS_SndHalf d)) \<and>
        (ob_Complete (oblS d) \<longleftrightarrow> ob_Complete (oblS_FstHalf d) \<and> ob_Complete (oblS_SndHalf d)))"

definition base_inv :: "sdo_config \<Rightarrow> bool \<Rightarrow> DynInst \<Rightarrow> bool" where
  "base_inv sc split i \<longleftrightarrow> isLoad i \<and> needPostFetch i \<and> \<not> isSquashed i \<and> halves_ok split (sdo i) \<and>
     (\<not> obls_TLB_Hit (sdo i) \<longrightarrow> TLB_defense sc = 3) \<and>
     \<not> (needExpose split (sdo i) \<and> needValidate split (sdo i)) \<and>
     (is_due split (sdo i) \<longrightarrow> obls_TLB_Hit (sdo i)) \<and>
     (\<exists>m. memData (ldst i) = Some m \<and> length m = effSize (ldst i)) \<and>
     (\<forall>v. vldData (ldst i) = Some v \<longrightarrow> length v = effSize (ldst i))"

definition no_WB :: "8 word list option \<Rightarrow> DynInst \<Rightarrow> bool" where
  "no_WB given i \<longleftrightarrow> \<not> doneWB (sdo i) \<and> \<not> isExecuted i \<and> given = None \<and> (fault i = None \<or> fault i = Some ReExec)"

definition WB_by_oblS :: "8 word list option \<Rightarrow> DynInst \<Rightarrow> bool" where
  "WB_by_oblS given i \<longleftrightarrow> doneWB (sdo i) \<and> doneWB_byOblS (sdo i) \<and> isExecuted i \<and> (fault i = None \<longrightarrow> given = memData (ldst i))"

definition WB_by_validation :: "8 word list option \<Rightarrow> DynInst \<Rightarrow> bool" where
  "WB_by_validation given i \<longleftrightarrow> doneWB (sdo i) \<and> \<not> doneWB_byOblS (sdo i) \<and> isExecuted i \<and> (fault i = None \<longrightarrow> given = vldData (ldst i))"

text \<open>No second access has been decided; the fault of a load ends its wait for one.\<close>

definition undecided :: "bool \<Rightarrow> post_status \<Rightarrow> DynInst \<Rightarrow> bool" where
  "undecided split post i \<longleftrightarrow> post = Not_sent \<and> \<not> is_due split (sdo i) \<and>
     (fault i = None \<longrightarrow> \<not> isExposeSent i \<and> \<not> isExposeCompleted i)"

text \<open>The second access of a load whose data came from the oblivious access: any, or none when it is disabled.\<close>

definition any_post :: "bool \<Rightarrow> post_status \<Rightarrow> DynInst \<Rightarrow> bool" where
  "any_post split post i \<longleftrightarrow> (case post of
     Not_sent \<Rightarrow> fault i = None \<longrightarrow> is_due split (sdo i) \<and> \<not> isExposeSent i \<and> \<not> isExposeCompleted i \<or> isExposeSent i \<and> isExposeCompleted i
   | Sent k \<Rightarrow> isExposeSent i \<and> (k \<longrightarrow> isExposeCompleted i) \<and> (fault i = None \<and> \<not> k \<longrightarrow> \<not> isExposeCompleted i)
   | Answered k \<Rightarrow> False) \<and> vldData (ldst i) \<noteq> None"

text \<open>The second access of a load that became safe first: a validation, or an exposure for the unsafe perfect predictor.\<close>

definition val_post :: "bool \<Rightarrow> bool \<Rightarrow> post_status \<Rightarrow> DynInst \<Rightarrow> bool" where
  "val_post u split post i \<longleftrightarrow> (case post of
     Not_sent \<Rightarrow> fault i = None \<longrightarrow> is_due split (sdo i) \<and> (needExpose split (sdo i) \<longleftrightarrow> u) \<and> \<not> isExposeSent i \<and> \<not> isExposeCompleted i
   | Sent k \<Rightarrow> k = u \<and> isExposeSent i \<and> (u \<longrightarrow> isExposeCompleted i) \<and> (fault i = None \<and> \<not> u \<longrightarrow> \<not> isExposeCompleted i)
   | Answered k \<Rightarrow> k \<and> u \<and> isExposeSent i \<and> isExposeCompleted i) \<and> vldData (ldst i) \<noteq> None \<and> readyToExpose i"

definition answered_post :: "post_status \<Rightarrow> DynInst \<Rightarrow> bool" where
  "answered_post post i \<longleftrightarrow> isExposeSent i \<and> isExposeCompleted i \<and> post \<in> {Answered True, Answered False}"

text \<open>Data that came from the oblivious access and have been validated are those the validation read.\<close>

definition confirmed :: "post_status \<Rightarrow> DynInst \<Rightarrow> bool" where
  "confirmed post i \<longleftrightarrow> (post = Answered False \<and> fault i = None \<longrightarrow> memData (ldst i) = vldData (ldst i) \<and> vldData (ldst i) \<noteq> None)"

definition state_inv :: "bool \<Rightarrow> bool \<Rightarrow> post_status \<Rightarrow> 8 word list option \<Rightarrow> DynInst \<Rightarrow> bool" where
  "state_inv u split post given i = (let d = sdo i; comp = ob_Complete (oblS d); hit = ob_Hit (oblS d); upd = done_locPred_update d;
     wbO = WB_by_oblS given i in
     case MLDOM_state d of
       Some MLDOM_STATE_A \<Rightarrow> \<not> comp \<and> no_WB given i \<and> undecided split post i \<and> \<not> valPred_onMiss d
     | Some MLDOM_STATE_AB \<Rightarrow> comp \<and> wbO \<and> undecided split post i \<and> (hit \<longleftrightarrow> \<not> valPred_onMiss d)
     | Some MLDOM_STATE_Ab \<Rightarrow> \<not> comp \<and> hit \<and> no_WB given i \<and> undecided split post i \<and> \<not> valPred_onMiss d \<and>
         (\<exists>cmd. pkt_delayed_wb d = Some cmd \<and> isSpec cmd)
     | Some MLDOM_STATE_ABC \<Rightarrow> comp \<and> hit \<and> wbO \<and> upd \<and> any_post split post i
     | Some MLDOM_STATE_AbC \<Rightarrow> \<not> comp \<and> hit \<and> wbO \<and> upd \<and> any_post split post i
     | Some MLDOM_STATE_AbCB \<Rightarrow> comp \<and> hit \<and> wbO \<and> upd \<and> any_post split post i
     | Some MLDOM_STATE_ABCD \<Rightarrow> comp \<and> hit \<and> wbO \<and> upd \<and> answered_post post i \<and> confirmed post i
     | Some MLDOM_STATE_AbCBD \<Rightarrow> comp \<and> hit \<and> wbO \<and> upd \<and> answered_post post i \<and> confirmed post i
     | Some MLDOM_STATE_AbCD \<Rightarrow> \<not> comp \<and> hit \<and> wbO \<and> upd \<and> answered_post post i \<and> confirmed post i
     | Some MLDOM_STATE_AbCDB \<Rightarrow> comp \<and> hit \<and> wbO \<and> upd \<and> answered_post post i \<and> confirmed post i
     | Some MLDOM_STATE_AC \<Rightarrow> \<not> comp \<and> no_WB given i \<and> val_post u split post i
     | Some MLDOM_STATE_ACB \<Rightarrow> comp \<and> val_post u split post i \<and> (if hit then wbO \<and> upd else no_WB given i)
     | Some MLDOM_STATE_ACb \<Rightarrow> \<not> comp \<and> hit \<and> \<not> u \<and> wbO \<and> upd \<and> val_post u split post i
     | Some MLDOM_STATE_ACbD \<Rightarrow> \<not> comp \<and> hit \<and> wbO \<and> upd \<and> answered_post post i \<and> confirmed post i
     | Some MLDOM_STATE_ACbDB \<Rightarrow> comp \<and> hit \<and> wbO \<and> upd \<and> answered_post post i \<and> confirmed post i
     | Some MLDOM_STATE_ACBD \<Rightarrow> comp \<and> upd \<and> answered_post post i \<and>
         (if hit then wbO \<and> confirmed post i else WB_by_validation given i)
     | Some MLDOM_STATE_ACD \<Rightarrow> \<not> comp \<and> upd \<and> WB_by_validation given i \<and> post = Answered False \<and> answered_post post i
     | Some MLDOM_STATE_ACDB \<Rightarrow> comp \<and> upd \<and> WB_by_validation given i \<and> post = Answered False \<and> answered_post post i
     | Some MLDOM_STATE_toBeSquash \<Rightarrow> post = Not_sent \<and> (obls_TLB_Hit d \<longrightarrow> comp) \<and> \<not> is_due split d
     | None \<Rightarrow> False)"

text \<open>The predictor accepts the one update of the load, and keeps the mode of the perfect predictor.\<close>

definition pred_inv :: "sdo_config \<Rightarrow> ('g \<Rightarrow> nat \<times> 'g) \<Rightarrow> bool \<Rightarrow> DynInst \<Rightarrow> loc_pred \<Rightarrow> bool" where
  "pred_inv sc rnd u i p \<longleftrightarrow> perfect_unsafe sc p = Some u \<and>
     (\<not> done_locPred_update (sdo i) \<longrightarrow> (\<forall>g l. real_level l \<longrightarrow>
        (\<exists>w p' g'. update rnd g p (pc i) (seqNum i) l = Some (w, p', g') \<and> perfect_unsafe sc p' = Some u)))"

definition load_inv :: "sdo_config \<Rightarrow> ('g \<Rightarrow> nat \<times> 'g) \<Rightarrow> bool \<Rightarrow> bool \<Rightarrow> post_status \<Rightarrow> 8 word list option \<Rightarrow> DynInst \<Rightarrow> loc_pred \<Rightarrow> bool" where
  "load_inv sc rnd u split post given i p \<longleftrightarrow> base_inv sc split i \<and> state_inv u split post given i \<and> pred_inv sc rnd u i p"

section \<open>The pieces\<close>

lemma sdo_simps [simp]:
  "sdo (set_status s i) = sdo i" "sdo (set_flag f b i) = sdo i" "ldst (set_status s i) = ldst i" "ldst (set_flag f b i) = ldst i"
  "pc (set_status s i) = pc i" "pc (set_flag f b i) = pc i"
  "sdo (on_sdo g i) = g (sdo i)" "ldst (on_sdo g i) = ldst i" "status (on_sdo g i) = status i" "instFlags (on_sdo g i) = instFlags i"
  "fault (on_sdo g i) = fault i" "pc (on_sdo g i) = pc i" "seqNum (on_sdo g i) = seqNum i" "staticInst (on_sdo g i) = staticInst i"
  by (simp_all add: set_status_def set_flag_def on_sdo_def)

lemma ctx_simps [simp]:
  "lc_inst (on_inst f x) = f (lc_inst x)" "lc_pred (on_inst f x) = lc_pred x" "lc_toCommit (on_inst f x) = lc_toCommit x"
  "lc_results (on_inst f x) = lc_results x" "lc_rng (on_inst f x) = lc_rng x"
  by (simp_all add: on_inst_def)

lemma real_levels: "real_level (reg_level n)" "hit_flags a \<Longrightarrow> ob_Hit a \<Longrightarrow> \<exists>l. oblS_level a = Some l \<and> real_level l"
  by (auto simp: reg_level_def real_level_def oblS_level_def hit_flags_def foldCacheLevelForTwoLevelSDO_def)

definition predictor_updated :: "int \<Rightarrow> SDO \<Rightarrow> SDO" where
  "predictor_updated w d = d\<lparr>done_locPred_update := True, update_locPred_on_commit := w\<rparr>"

lemma update_ok_load:
  assumes ld: "isLoad (lc_inst x)" "\<not> isSquashed (lc_inst x)" and pred: "pred_inv sc rnd u (lc_inst x) (lc_pred x)"
    and l: "update_level ty (sdo (lc_inst x)) = Some (Some l)" "real_level l"
  obtains w x' where "updateLocationPredictor rnd True ty x = Some x'" "lc_inst x' = on_sdo (predictor_updated w) (lc_inst x)"
    "perfect_unsafe sc (lc_pred x') = Some u" "lc_toCommit x' = lc_toCommit x" "lc_results x' = lc_results x"
proof (cases "done_locPred_update (sdo (lc_inst x))")
  case True
  define w where "w = update_locPred_on_commit (sdo (lc_inst x))"
  have "updateLocationPredictor rnd True ty x = Some x"
    using ld l True by (simp add: updateLocationPredictor_def)
  moreover have "predictor_updated w (sdo (lc_inst x)) = sdo (lc_inst x)"
    using True by (simp add: predictor_updated_def w_def)
  then have "lc_inst x = on_sdo (predictor_updated w) (lc_inst x)" by (simp add: on_sdo_def)
  ultimately show thesis using that [of x w] pred by (simp add: pred_inv_def)
next
  case False
  then obtain w p' g' where u: "update rnd (lc_rng x) (lc_pred x) (pc (lc_inst x)) (seqNum (lc_inst x)) l = Some (w, p', g')"
    "perfect_unsafe sc p' = Some u"
    using pred l(2) unfolding pred_inv_def by meson
  define x' where "x' = on_inst (on_sdo (predictor_updated w)) (x\<lparr>lc_pred := p', lc_rng := g'\<rparr>)"
  have "updateLocationPredictor rnd True ty x = Some x'"
    using ld l False u(1) by (simp add: updateLocationPredictor_def x'_def predictor_updated_def on_inst_def on_sdo_def Let_def)
  then show thesis using that [of x' w] u(2) by (simp add: x'_def on_inst_def)
qed

text \<open>What a write-back does to the load.\<close>

definition written_back :: "DynInst \<Rightarrow> DynInst \<Rightarrow> bool" where
  "written_back i i' \<longleftrightarrow> sdo i' = sdo i \<and> ldst i' = ldst i \<and> pc i' = pc i \<and> seqNum i' = seqNum i \<and> staticInst i' = staticInst i \<and>
     instFlags i' = instFlags i \<and> isExecuted i' \<and> (isSquashed i' \<longleftrightarrow> isSquashed i) \<and>
     (fault i' = None \<longrightarrow> fault i = None \<and> (isExposeSent i' \<longleftrightarrow> isExposeSent i)) \<and>
     (isExposeCompleted i' \<longleftrightarrow> isExposeCompleted i \<or> fault i' \<noteq> None) \<and> (isExposeSent i \<longrightarrow> isExposeSent i') \<and>
     (fault i' \<noteq> None \<longrightarrow> isExposeSent i')"

lemma writeback_ok:
  assumes c: "isInvisibleSpec c" and i: "\<not> isSquashed (lc_inst x)" "\<not> isExecuted (lc_inst x)"
    and d: "packet_data cmd (lc_inst x) = Some bytes" and f: "fault (lc_inst x) = None \<or> fault (lc_inst x) = Some ReExec"
  obtains i' x' where "writeback c acc cmd x = Some x'" "lc_inst x' = i'" "written_back (lc_inst x) i'" "lc_pred x' = lc_pred x"
    "lc_toCommit x' = lc_toCommit x + 1"
    "lc_results x' = lc_results x @ (if fault (lc_inst x) = None then [bytes] else [])"
proof -
  define y where "y = (if fault (lc_inst x) = None
    then on_inst (\<lambda>i. (set_status Executed i)\<lparr>fault := acc i bytes\<rparr>) (x\<lparr>lc_results := lc_results x @ [bytes]\<rparr>)
    else on_inst (set_status Executed) x)"
  have y: "complete_access acc cmd x = Some y"
    using i(2) d f by (auto simp: complete_access_def y_def Let_def)
  define x' where "x' = (if fault (lc_inst y) \<noteq> None then on_inst (set_status ExposeSent \<circ> set_status ExposeCompleted) y
      else if isSpec cmd then on_inst (set_status SpecCompleted) y else y)\<lparr>lc_toCommit := lc_toCommit x + 1\<rparr>"
  have tc: "lc_toCommit y = lc_toCommit x" by (simp add: y_def on_inst_def)
  have "writeback c acc cmd x = Some x'"
    using i c y by (auto simp: writeback_def Let_def x'_def tc)
  moreover have "written_back (lc_inst x) (lc_inst x')"
    using i(2) by (auto simp: written_back_def x'_def y_def)
  moreover have "lc_pred x' = lc_pred x" "lc_toCommit x' = lc_toCommit x + 1"
    "lc_results x' = lc_results x @ (if fault (lc_inst x) = None then [bytes] else [])"
    by (auto simp: x'_def y_def)
  ultimately show thesis using that by blast
qed

text \<open>The load with new hit flags.\<close>

definition with_oblS :: "oblS_state \<Rightarrow> oblS_state \<Rightarrow> oblS_state \<Rightarrow> SDO \<Rightarrow> SDO" where
  "with_oblS a b e d = d\<lparr>oblS := a, oblS_FstHalf := b, oblS_SndHalf := e\<rparr>"

text \<open>At most one delivery of data to the instruction.\<close>

definition delivers :: "8 word list option \<Rightarrow> 'g LoadCtx \<Rightarrow> 8 word list option \<Rightarrow> 'g LoadCtx \<Rightarrow> bool" where
  "delivers given x given' x' \<longleftrightarrow> given' = given \<and> lc_results x' = lc_results x \<or>
     given = None \<and> (\<exists>b. given' = Some b \<and> lc_results x' = lc_results x @ [b])"

lemma state_inv_at:
  "MLDOM_state (sdo i) = Some MLDOM_STATE_A \<Longrightarrow> state_inv u split post given i \<longleftrightarrow>
     \<not> ob_Complete (oblS (sdo i)) \<and> no_WB given i \<and> undecided split post i \<and> \<not> valPred_onMiss (sdo i)"
  "MLDOM_state (sdo i) = Some MLDOM_STATE_AB \<Longrightarrow> state_inv u split post given i \<longleftrightarrow>
     ob_Complete (oblS (sdo i)) \<and> WB_by_oblS given i \<and> undecided split post i \<and> (ob_Hit (oblS (sdo i)) \<longleftrightarrow> \<not> valPred_onMiss (sdo i))"
  "MLDOM_state (sdo i) = Some MLDOM_STATE_Ab \<Longrightarrow> state_inv u split post given i \<longleftrightarrow>
     \<not> ob_Complete (oblS (sdo i)) \<and> ob_Hit (oblS (sdo i)) \<and> no_WB given i \<and> undecided split post i \<and> \<not> valPred_onMiss (sdo i) \<and>
         (\<exists>cmd. pkt_delayed_wb (sdo i) = Some cmd \<and> isSpec cmd)"
  "MLDOM_state (sdo i) = Some MLDOM_STATE_AC \<Longrightarrow> state_inv u split post given i \<longleftrightarrow>
     \<not> ob_Complete (oblS (sdo i)) \<and> no_WB given i \<and> val_post u split post i"
  "MLDOM_state (sdo i) = Some MLDOM_STATE_ACB \<Longrightarrow> state_inv u split post given i \<longleftrightarrow>
     ob_Complete (oblS (sdo i)) \<and> val_post u split post i \<and>
     (if ob_Hit (oblS (sdo i)) then WB_by_oblS given i \<and> done_locPred_update (sdo i) else no_WB given i)"
  "MLDOM_state (sdo i) = Some MLDOM_STATE_ACb \<Longrightarrow> state_inv u split post given i \<longleftrightarrow>
     \<not> ob_Complete (oblS (sdo i)) \<and> ob_Hit (oblS (sdo i)) \<and> \<not> u \<and> WB_by_oblS given i \<and> done_locPred_update (sdo i) \<and> val_post u split post i"
  "MLDOM_state (sdo i) = Some MLDOM_STATE_ACBD \<Longrightarrow> state_inv u split post given i \<longleftrightarrow>
     ob_Complete (oblS (sdo i)) \<and> done_locPred_update (sdo i) \<and> answered_post post i \<and>
         (if ob_Hit (oblS (sdo i)) then WB_by_oblS given i \<and> confirmed post i else WB_by_validation given i)"
  "MLDOM_state (sdo i) \<in> {Some MLDOM_STATE_ACD, Some MLDOM_STATE_ACDB} \<Longrightarrow> state_inv u split post given i \<longleftrightarrow>
     (ob_Complete (oblS (sdo i)) \<longleftrightarrow> MLDOM_state (sdo i) = Some MLDOM_STATE_ACDB) \<and> done_locPred_update (sdo i) \<and>
     WB_by_validation given i \<and> post = Answered False \<and> answered_post post i"
  "MLDOM_state (sdo i) \<in> {Some MLDOM_STATE_ABC, Some MLDOM_STATE_AbC, Some MLDOM_STATE_AbCB} \<Longrightarrow> state_inv u split post given i \<longleftrightarrow>
     (ob_Complete (oblS (sdo i)) \<longleftrightarrow> MLDOM_state (sdo i) \<noteq> Some MLDOM_STATE_AbC) \<and> ob_Hit (oblS (sdo i)) \<and> WB_by_oblS given i \<and>
     done_locPred_update (sdo i) \<and> any_post split post i"
  "MLDOM_state (sdo i) \<in> {Some MLDOM_STATE_ABCD, Some MLDOM_STATE_AbCBD, Some MLDOM_STATE_AbCD, Some MLDOM_STATE_AbCDB,
     Some MLDOM_STATE_ACbD, Some MLDOM_STATE_ACbDB} \<Longrightarrow> state_inv u split post given i \<longleftrightarrow>
     (ob_Complete (oblS (sdo i)) \<longleftrightarrow> MLDOM_state (sdo i) \<notin> {Some MLDOM_STATE_AbCD, Some MLDOM_STATE_ACbD}) \<and> ob_Hit (oblS (sdo i)) \<and>
     WB_by_oblS given i \<and> done_locPred_update (sdo i) \<and> answered_post post i \<and> confirmed post i"
  "MLDOM_state (sdo i) = Some MLDOM_STATE_toBeSquash \<Longrightarrow> state_inv u split post given i \<longleftrightarrow>
     post = Not_sent \<and> (obls_TLB_Hit (sdo i) \<longrightarrow> ob_Complete (oblS (sdo i))) \<and> \<not> is_due split (sdo i)"
  "MLDOM_state (sdo i) = None \<Longrightarrow> state_inv u split post given i = False"
  by (auto simp: state_inv_def Let_def)

lemma need_upd [simp]:
  "needExpose split (d\<lparr>MLDOM_state := m\<rparr>) = needExpose split d" "needValidate split (d\<lparr>MLDOM_state := m\<rparr>) = needValidate split d"
  "needExpose split (d\<lparr>doneWB := b\<rparr>) = needExpose split d" "needValidate split (d\<lparr>doneWB := b\<rparr>) = needValidate split d"
  "needExpose split (d\<lparr>doneWB_byOblS := b\<rparr>) = needExpose split d" "needValidate split (d\<lparr>doneWB_byOblS := b\<rparr>) = needValidate split d"
  "needExpose split (d\<lparr>valPred_onMiss := b\<rparr>) = needExpose split d" "needValidate split (d\<lparr>valPred_onMiss := b\<rparr>) = needValidate split d"
  "needExpose split (d\<lparr>pkt_delayed_wb := q\<rparr>) = needExpose split d" "needValidate split (d\<lparr>pkt_delayed_wb := q\<rparr>) = needValidate split d"
  "needExpose split (predictor_updated w d) = needExpose split d" "needValidate split (predictor_updated w d) = needValidate split d"
  "needExpose split (with_oblS a e f d) = needExpose split d" "needValidate split (with_oblS a e f d) = needValidate split d"
  by (simp_all add: needExpose_def needValidate_def predictor_updated_def with_oblS_def)

lemma halves_upd [simp]:
  "halves_ok split (d\<lparr>MLDOM_state := m\<rparr>) = halves_ok split d" "halves_ok split (d\<lparr>doneWB := b\<rparr>) = halves_ok split d"
  "halves_ok split (d\<lparr>doneWB_byOblS := b\<rparr>) = halves_ok split d" "halves_ok split (d\<lparr>valPred_onMiss := b\<rparr>) = halves_ok split d"
  "halves_ok split (d\<lparr>pkt_delayed_wb := q\<rparr>) = halves_ok split d" "halves_ok split (predictor_updated w d) = halves_ok split d"
  by (simp_all add: halves_ok_def predictor_updated_def)

lemma oblS_upd [simp]:
  "oblS (with_oblS a e f d) = a" "MLDOM_state (with_oblS a e f d) = MLDOM_state d" "doneWB (with_oblS a e f d) = doneWB d"
  "doneWB_byOblS (with_oblS a e f d) = doneWB_byOblS d" "valPred_onMiss (with_oblS a e f d) = valPred_onMiss d"
  "pkt_delayed_wb (with_oblS a e f d) = pkt_delayed_wb d" "done_locPred_update (with_oblS a e f d) = done_locPred_update d"
  "obls_TLB_Hit (with_oblS a e f d) = obls_TLB_Hit d"
  "oblS (predictor_updated w d) = oblS d" "MLDOM_state (predictor_updated w d) = MLDOM_state d" "doneWB (predictor_updated w d) = doneWB d"
  "doneWB_byOblS (predictor_updated w d) = doneWB_byOblS d" "valPred_onMiss (predictor_updated w d) = valPred_onMiss d"
  "pkt_delayed_wb (predictor_updated w d) = pkt_delayed_wb d" "done_locPred_update (predictor_updated w d)"
  "obls_TLB_Hit (predictor_updated w d) = obls_TLB_Hit d"
  by (simp_all add: with_oblS_def predictor_updated_def)

end
