(* ===== verification/SDO_Machine.thy ===== *)
theory SDO_Machine
  imports SDO_Inv
begin

text \<open>
  Every answer of the memory system to an oblivious load, and every attempt of
  \<^verbatim>\<open>exposeLoads\<close>, keeps the invariant of the load, whatever its state, and fails no assertion.
\<close>

section \<open>Write-back\<close>

lemma WB_step:
  assumes cfg: "isInvisibleSpec c" and base: "base_inv sc split (lc_inst x)" and no: "no_WB given (lc_inst x)" and cmd: "isSpec cmd"
  obtains z given' where "writeback c acc cmd x = Some z" "written_back (lc_inst x) (lc_inst z)" "lc_pred z = lc_pred x"
    "delivers given x given' z" "WB_by_oblS given' (lc_inst (set_doneWB True z))"
proof -
  obtain m where m: "memData (ldst (lc_inst x)) = Some m" using base by (auto simp: base_inv_def)
  have pre: "\<not> isSquashed (lc_inst x)" "\<not> isExecuted (lc_inst x)" "packet_data cmd (lc_inst x) = Some m"
    "fault (lc_inst x) = None \<or> fault (lc_inst x) = Some ReExec"
    using base no m cmd by (auto simp: base_inv_def no_WB_def packet_data_def isSpec_def)
  obtain z where z: "writeback c acc cmd x = Some z" "written_back (lc_inst x) (lc_inst z)" "lc_pred z = lc_pred x"
      "lc_results z = lc_results x @ (if fault (lc_inst x) = None then [m] else [])"
    using writeback_ok [OF cfg pre] by metis
  show thesis
  proof (rule that [of z "if fault (lc_inst x) = None then Some m else None"])
    show "delivers given x (if fault (lc_inst x) = None then Some m else None) z"
      using z(4) no by (auto simp: delivers_def no_WB_def)
    show "WB_by_oblS (if fault (lc_inst x) = None then Some m else None) (lc_inst (set_doneWB True z))"
      using z(2) m by (auto simp: WB_by_oblS_def set_doneWB_def written_back_def)
  qed (use z in auto)
qed

lemma WB_step_post:
  assumes cfg: "isInvisibleSpec c" and base: "base_inv sc split (lc_inst x)" and no: "no_WB given (lc_inst x)" and cmd: "isValidate cmd"
    and v: "vldData (ldst (lc_inst x)) \<noteq> None"
  obtains z given' where "writeback c acc cmd x = Some z" "written_back (lc_inst x) (lc_inst z)" "lc_pred z = lc_pred x"
    "delivers given x given' z" "WB_by_validation given' (lc_inst (set_doneWB False z))"
proof -
  obtain m where m: "vldData (ldst (lc_inst x)) = Some m" using v by auto
  have pre: "\<not> isSquashed (lc_inst x)" "\<not> isExecuted (lc_inst x)" "packet_data cmd (lc_inst x) = Some m"
    "fault (lc_inst x) = None \<or> fault (lc_inst x) = Some ReExec"
    using base no m cmd by (auto simp: base_inv_def no_WB_def packet_data_def)
  obtain z where z: "writeback c acc cmd x = Some z" "written_back (lc_inst x) (lc_inst z)" "lc_pred z = lc_pred x"
      "lc_results z = lc_results x @ (if fault (lc_inst x) = None then [m] else [])"
    using writeback_ok [OF cfg pre] by metis
  show thesis
  proof (rule that [of z "if fault (lc_inst x) = None then Some m else None"])
    show "delivers given x (if fault (lc_inst x) = None then Some m else None) z"
      using z(4) no by (auto simp: delivers_def no_WB_def)
    show "WB_by_validation (if fault (lc_inst x) = None then Some m else None) (lc_inst (set_doneWB False z))"
      using z(2) m by (auto simp: WB_by_validation_def set_doneWB_def written_back_def)
  qed (use z in auto)
qed

lemma written_back_keep:
  assumes "written_back i i'"
  shows "base_inv sc split i \<Longrightarrow> base_inv sc split i'" "pred_inv sc rnd u i p \<Longrightarrow> pred_inv sc rnd u i' p"
    "undecided split post i \<Longrightarrow> undecided split post i'" "val_post u split post i \<Longrightarrow> val_post u split post i'"
    "any_post split post i \<Longrightarrow> any_post split post i'"
    "sdo i' = sdo i" "ldst i' = ldst i" "instFlags i' = instFlags i" "staticInst i' = staticInst i" "pc i' = pc i" "seqNum i' = seqNum i"
    "isSquashed i' = isSquashed i"
  using assms
  by (auto simp: written_back_def base_inv_def pred_inv_def undecided_def val_post_def any_post_def split: post_status.splits)

lemma set_MLDOM_sel [simp]:
  "lc_inst (set_MLDOM st x) = on_sdo (\<lambda>d. d\<lparr>MLDOM_state := Some st\<rparr>) (lc_inst x)" "lc_pred (set_MLDOM st x) = lc_pred x"
  "lc_results (set_MLDOM st x) = lc_results x"
  by (simp_all add: set_MLDOM_def)

lemma set_doneWB_sel [simp]:
  "lc_inst (set_doneWB b x) = on_sdo (\<lambda>d. d\<lparr>doneWB := True, doneWB_byOblS := b\<rparr>) (lc_inst x)" "lc_pred (set_doneWB b x) = lc_pred x"
  "lc_results (set_doneWB b x) = lc_results x"
  by (simp_all add: set_doneWB_def)

lemma delivers_simps [simp]:
  "delivers g x g' (on_inst f y) = delivers g x g' y" "delivers g (on_inst f x) g' y = delivers g x g' y"
  "delivers g (set_MLDOM st x) g' y = delivers g x g' y" "delivers g x g' (set_doneWB b y) = delivers g x g' y"
  "delivers g x g' (set_MLDOM st y) = delivers g x g' y"
  by (simp_all add: delivers_def)

text \<open>Updates that touch only the bookkeeping of the state machine.\<close>

lemma on_sdo_keep:
  assumes "\<And>d. halves_ok split d \<Longrightarrow> halves_ok split (f d)" "\<And>d. obls_TLB_Hit (f d) = obls_TLB_Hit d"
    "\<And>d. needExpose split (f d) = needExpose split d" "\<And>d. needValidate split (f d) = needValidate split d"
  shows "base_inv sc split i \<Longrightarrow> base_inv sc split (on_sdo f i)" "undecided split post (on_sdo f i) = undecided split post i"
    "val_post u split post (on_sdo f i) = val_post u split post i" "any_post split post (on_sdo f i) = any_post split post i"
    "answered_post post (on_sdo f i) = answered_post post i" "confirmed post (on_sdo f i) = confirmed post i"
  using assms by (auto simp: base_inv_def undecided_def val_post_def any_post_def answered_post_def confirmed_def is_due_def split: post_status.splits)

lemma keep_simps [simp]:
  "undecided split post (on_sdo (\<lambda>d. d\<lparr>MLDOM_state := m\<rparr>) i) = undecided split post i" "val_post u split post (on_sdo (\<lambda>d. d\<lparr>MLDOM_state := m\<rparr>) i) = val_post u split post i"
  "any_post split post (on_sdo (\<lambda>d. d\<lparr>MLDOM_state := m\<rparr>) i) = any_post split post i" "answered_post post (on_sdo (\<lambda>d. d\<lparr>MLDOM_state := m\<rparr>) i) = answered_post post i" "confirmed post (on_sdo (\<lambda>d. d\<lparr>MLDOM_state := m\<rparr>) i) = confirmed post i"
  "base_inv sc split (on_sdo (\<lambda>d. d\<lparr>MLDOM_state := m\<rparr>) i) = base_inv sc split i"
  "undecided split post (on_sdo (\<lambda>d. d\<lparr>doneWB := True, doneWB_byOblS := b\<rparr>) i) = undecided split post i" "val_post u split post (on_sdo (\<lambda>d. d\<lparr>doneWB := True, doneWB_byOblS := b\<rparr>) i) = val_post u split post i"
  "any_post split post (on_sdo (\<lambda>d. d\<lparr>doneWB := True, doneWB_byOblS := b\<rparr>) i) = any_post split post i" "answered_post post (on_sdo (\<lambda>d. d\<lparr>doneWB := True, doneWB_byOblS := b\<rparr>) i) = answered_post post i" "confirmed post (on_sdo (\<lambda>d. d\<lparr>doneWB := True, doneWB_byOblS := b\<rparr>) i) = confirmed post i"
  "base_inv sc split (on_sdo (\<lambda>d. d\<lparr>doneWB := True, doneWB_byOblS := b\<rparr>) i) = base_inv sc split i"
  "undecided split post (on_sdo (\<lambda>d. d\<lparr>valPred_onMiss := v\<rparr>) i) = undecided split post i" "val_post u split post (on_sdo (\<lambda>d. d\<lparr>valPred_onMiss := v\<rparr>) i) = val_post u split post i"
  "any_post split post (on_sdo (\<lambda>d. d\<lparr>valPred_onMiss := v\<rparr>) i) = any_post split post i" "answered_post post (on_sdo (\<lambda>d. d\<lparr>valPred_onMiss := v\<rparr>) i) = answered_post post i" "confirmed post (on_sdo (\<lambda>d. d\<lparr>valPred_onMiss := v\<rparr>) i) = confirmed post i"
  "base_inv sc split (on_sdo (\<lambda>d. d\<lparr>valPred_onMiss := v\<rparr>) i) = base_inv sc split i"
  "undecided split post (on_sdo (\<lambda>d. d\<lparr>pkt_delayed_wb := q\<rparr>) i) = undecided split post i" "val_post u split post (on_sdo (\<lambda>d. d\<lparr>pkt_delayed_wb := q\<rparr>) i) = val_post u split post i"
  "any_post split post (on_sdo (\<lambda>d. d\<lparr>pkt_delayed_wb := q\<rparr>) i) = any_post split post i" "answered_post post (on_sdo (\<lambda>d. d\<lparr>pkt_delayed_wb := q\<rparr>) i) = answered_post post i" "confirmed post (on_sdo (\<lambda>d. d\<lparr>pkt_delayed_wb := q\<rparr>) i) = confirmed post i"
  "base_inv sc split (on_sdo (\<lambda>d. d\<lparr>pkt_delayed_wb := q\<rparr>) i) = base_inv sc split i"
  "undecided split post (on_sdo (predictor_updated w) i) = undecided split post i" "val_post u split post (on_sdo (predictor_updated w) i) = val_post u split post i"
  "any_post split post (on_sdo (predictor_updated w) i) = any_post split post i" "answered_post post (on_sdo (predictor_updated w) i) = answered_post post i" "confirmed post (on_sdo (predictor_updated w) i) = confirmed post i"
  "base_inv sc split (on_sdo (predictor_updated w) i) = base_inv sc split i"
  "undecided split post (on_sdo (with_oblS a e f) i) = undecided split post i" "val_post u split post (on_sdo (with_oblS a e f) i) = val_post u split post i"
  "any_post split post (on_sdo (with_oblS a e f) i) = any_post split post i" "answered_post post (on_sdo (with_oblS a e f) i) = answered_post post i"
  "confirmed post (on_sdo (with_oblS a e f) i) = confirmed post i"
  by (simp_all add: base_inv_def undecided_def val_post_def any_post_def answered_post_def confirmed_def is_due_def cong: post_status.case_cong)

lemma keep_WB [simp]:
  "no_WB given (on_sdo (\<lambda>d. d\<lparr>MLDOM_state := m\<rparr>) i) = no_WB given i" "WB_by_oblS given (on_sdo (\<lambda>d. d\<lparr>MLDOM_state := m\<rparr>) i) = WB_by_oblS given i"
  "WB_by_validation given (on_sdo (\<lambda>d. d\<lparr>MLDOM_state := m\<rparr>) i) = WB_by_validation given i"
  "no_WB given (on_sdo (with_oblS a e f) i) = no_WB given i" "WB_by_oblS given (on_sdo (with_oblS a e f) i) = WB_by_oblS given i"
  "WB_by_validation given (on_sdo (with_oblS a e f) i) = WB_by_validation given i"
  "no_WB given (on_sdo (\<lambda>d. d\<lparr>pkt_delayed_wb := q\<rparr>) i) = no_WB given i"
  "WB_by_oblS given (on_sdo (\<lambda>d. d\<lparr>valPred_onMiss := v\<rparr>) i) = WB_by_oblS given i"
  "WB_by_oblS given (on_sdo (predictor_updated w) i) = WB_by_oblS given i"
  "WB_by_validation given (on_sdo (predictor_updated w) i) = WB_by_validation given i"
  by (simp_all add: no_WB_def WB_by_oblS_def WB_by_validation_def)

lemma keep_pred [simp]:
  "pred_inv sc rnd u (on_sdo (\<lambda>d. d\<lparr>MLDOM_state := m\<rparr>) i) p = pred_inv sc rnd u i p"
  "pred_inv sc rnd u (on_sdo (\<lambda>d. d\<lparr>doneWB := True, doneWB_byOblS := b\<rparr>) i) p = pred_inv sc rnd u i p"
  "pred_inv sc rnd u (on_sdo (\<lambda>d. d\<lparr>valPred_onMiss := v\<rparr>) i) p = pred_inv sc rnd u i p"
  "pred_inv sc rnd u (on_sdo (\<lambda>d. d\<lparr>pkt_delayed_wb := q\<rparr>) i) p = pred_inv sc rnd u i p"
  "pred_inv sc rnd u (on_sdo (with_oblS a e f) i) p = pred_inv sc rnd u i p"
  "perfect_unsafe sc p = Some u \<Longrightarrow> pred_inv sc rnd u (on_sdo (predictor_updated w) i) p"
  by (simp_all add: pred_inv_def)

lemma base_with_oblS:
  "base_inv sc split i \<Longrightarrow> halves_ok split (with_oblS a e f (sdo i)) \<Longrightarrow> base_inv sc split (on_sdo (with_oblS a e f) i)"
  by (simp add: base_inv_def is_due_def)

section \<open>The last answer to the oblivious access\<close>

text \<open>The load \<open>i0\<close> before the answer, and its context \<open>x\<close> after the answer has changed the hit flags.\<close>

definition hits_arrived :: "bool \<Rightarrow> DynInst \<Rightarrow> oblS_state \<Rightarrow> 'g LoadCtx \<Rightarrow> bool" where
  "hits_arrived split i0 a x \<longleftrightarrow> (\<exists>e f. lc_inst x = on_sdo (with_oblS a e f) i0 \<and> halves_ok split (with_oblS a e f (sdo i0))) \<and>
     (ob_Hit (oblS (sdo i0)) \<longrightarrow> ob_Hit a)"

lemma confirm_A_ok:
  assumes cfg: "isInvisibleSpec c" and inv: "load_inv sc rnd u split post given i0 (lc_pred x)" and st: "MLDOM_state (sdo i0) = Some MLDOM_STATE_A"
    and x: "hits_arrived split i0 a x" and comp: "ob_Complete a" and cmd: "isSpec cmd"
  shows "\<exists>x' given'. confirm_A c acc cmd x = Some x' \<and> load_inv sc rnd u split post given' (lc_inst x') (lc_pred x') \<and> delivers given x given' x'"
proof -
  have s: "base_inv sc split i0" "no_WB given i0" "undecided split post i0" "\<not> valPred_onMiss (sdo i0)" "pred_inv sc rnd u i0 (lc_pred x)"
    using inv by (simp_all add: load_inv_def state_inv_at(1) [OF st])
  obtain e f where i: "lc_inst x = on_sdo (with_oblS a e f) i0" "halves_ok split (with_oblS a e f (sdo i0))" using x by (auto simp: hits_arrived_def)
  define y where "y = set_MLDOM MLDOM_STATE_AB x"
  have y: "base_inv sc split (lc_inst y)" "no_WB given (lc_inst y)" "undecided split post (lc_inst y)" "pred_inv sc rnd u (lc_inst y) (lc_pred y)"
    "sdo (lc_inst y) = (with_oblS a e f (sdo i0))\<lparr>MLDOM_state := Some MLDOM_STATE_AB\<rparr>"
    using s base_with_oblS [OF s(1) i(2)] by (simp_all add: y_def i(1))
  obtain z given' where z: "writeback c acc cmd y = Some z" "written_back (lc_inst y) (lc_inst z)" "lc_pred z = lc_pred y"
    "delivers given y given' z" "WB_by_oblS given' (lc_inst (set_doneWB True z))"
    by (rule WB_step [OF cfg y(1, 2) cmd])
  note k = written_back_keep [OF z(2)]
  define v where "v = (if ob_Hit a then set_doneWB True z else on_inst (on_sdo (\<lambda>d. d\<lparr>valPred_onMiss := True\<rparr>)) (set_doneWB True z))"
  have "confirm_A c acc cmd x = Some v"
    unfolding confirm_A_def Let_def y_def [symmetric] using z(1) y(2, 3, 5) s(4) comp k(6)
    by (simp add: v_def undecided_def no_WB_def)
  moreover have "load_inv sc rnd u split post given' (lc_inst v) (lc_pred v)"
  proof -
    have m: "MLDOM_state (sdo (lc_inst v)) = Some MLDOM_STATE_AB" by (simp add: v_def k(6) y(5))
    show ?thesis
      unfolding load_inv_def state_inv_at(2) [OF m]
      using k(1-3) y z(3, 5) comp s(4) by (simp add: v_def k(6))
  qed
  moreover have "delivers given x given' v" using z(4) by (simp add: v_def y_def)
  ultimately show ?thesis by blast
qed

lemma confirm_Ab_ok:
  assumes cfg: "isInvisibleSpec c" and inv: "load_inv sc rnd u split post given i0 (lc_pred x)" and st: "MLDOM_state (sdo i0) = Some MLDOM_STATE_Ab"
    and x: "hits_arrived split i0 a x" and comp: "ob_Complete a" and cmd: "isSpec cmd"
  shows "\<exists>x' given'. confirm_Ab c acc cmd x = Some x' \<and> load_inv sc rnd u split post given' (lc_inst x') (lc_pred x') \<and> delivers given x given' x'"
proof -
  have s: "base_inv sc split i0" "no_WB given i0" "undecided split post i0" "\<not> valPred_onMiss (sdo i0)" "pred_inv sc rnd u i0 (lc_pred x)"
    "pkt_delayed_wb (sdo i0) \<noteq> None" "ob_Hit (oblS (sdo i0))"
    using inv by (auto simp: load_inv_def state_inv_at(3) [OF st])
  obtain e f where i: "lc_inst x = on_sdo (with_oblS a e f) i0" "halves_ok split (with_oblS a e f (sdo i0))" and hit: "ob_Hit a"
    using x s(7) by (auto simp: hits_arrived_def)
  define y where "y = set_MLDOM MLDOM_STATE_AB x"
  have y: "base_inv sc split (lc_inst y)" "no_WB given (lc_inst y)" "undecided split post (lc_inst y)" "pred_inv sc rnd u (lc_inst y) (lc_pred y)"
    "sdo (lc_inst y) = (with_oblS a e f (sdo i0))\<lparr>MLDOM_state := Some MLDOM_STATE_AB\<rparr>"
    using s base_with_oblS [OF s(1) i(2)] by (simp_all add: y_def i(1))
  obtain z given' where z: "writeback c acc cmd y = Some z" "written_back (lc_inst y) (lc_inst z)" "lc_pred z = lc_pred y"
    "delivers given y given' z" "WB_by_oblS given' (lc_inst (set_doneWB True z))"
    by (rule WB_step [OF cfg y(1, 2) cmd])
  note k = written_back_keep [OF z(2)]
  have "confirm_Ab c acc cmd x = Some (set_doneWB True z)"
    unfolding confirm_Ab_def Let_def y_def [symmetric] using z(1) y(2, 5) s(6) hit by (simp add: no_WB_def)
  moreover have "load_inv sc rnd u split post given' (lc_inst (set_doneWB True z)) (lc_pred (set_doneWB True z))"
  proof -
    have m: "MLDOM_state (sdo (lc_inst (set_doneWB True z))) = Some MLDOM_STATE_AB" by (simp add: k(6) y(5))
    show ?thesis
      unfolding load_inv_def state_inv_at(2) [OF m]
      using k(1-3) y z(3, 5) comp hit s(4) by (simp add: k(6))
  qed
  moreover have "delivers given x given' (set_doneWB True z)" using z(4) by (simp add: y_def)
  ultimately show ?thesis by blast
qed

lemma hit_level: "halves_ok split d \<Longrightarrow> ob_Hit (oblS d) \<Longrightarrow> \<exists>l. update_level 1 d = Some (Some l) \<and> real_level l"
  using real_levels(2) [of "oblS d"] by (auto simp: update_level_def halves_ok_def)

text \<open>Data that are written back after the load became safe.\<close>

lemma WB_and_update:
  assumes cfg: "isInvisibleSpec c" and base: "base_inv sc split (lc_inst y)" and no: "no_WB given (lc_inst y)"
    and pred: "pred_inv sc rnd u (lc_inst y) (lc_pred y)" and hit: "ob_Hit (oblS (sdo (lc_inst y)))" and cmd: "isSpec cmd"
  obtains z v given' w where "writeback c acc cmd y = Some z" "updateLocationPredictor rnd True 1 (set_doneWB True z) = Some v"
    "base_inv sc split (lc_inst v)" "WB_by_oblS given' (lc_inst v)" "pred_inv sc rnd u (lc_inst v) (lc_pred v)" "delivers given y given' v"
    "sdo (lc_inst v) = predictor_updated w ((sdo (lc_inst y))\<lparr>doneWB := True, doneWB_byOblS := True\<rparr>)"
    "val_post u split post (lc_inst y) \<longrightarrow> val_post u split post (lc_inst v)"
    "written_back (lc_inst y) (lc_inst z)" "lc_inst v = on_sdo (predictor_updated w) (lc_inst (set_doneWB True z))"
proof -
  obtain z given' where z: "writeback c acc cmd y = Some z" "written_back (lc_inst y) (lc_inst z)" "lc_pred z = lc_pred y"
    "delivers given y given' z" "WB_by_oblS given' (lc_inst (set_doneWB True z))"
    by (rule WB_step [OF cfg base no cmd])
  note k = written_back_keep [OF z(2)]
  have b: "base_inv sc split (lc_inst (set_doneWB True z))" "pred_inv sc rnd u (lc_inst (set_doneWB True z)) (lc_pred (set_doneWB True z))"
    using k(1) [OF base] k(2) [OF pred] z(3) by simp_all
  have ld: "isLoad (lc_inst (set_doneWB True z))" "\<not> isSquashed (lc_inst (set_doneWB True z))" "halves_ok split (sdo (lc_inst (set_doneWB True z)))"
    using b(1) by (auto simp: base_inv_def)
  obtain l where l: "update_level 1 (sdo (lc_inst (set_doneWB True z))) = Some (Some l)" "real_level l"
    using hit_level [OF ld(3)] hit by (auto simp: k(6))
  obtain w v where v: "updateLocationPredictor rnd True 1 (set_doneWB True z) = Some v"
    "lc_inst v = on_sdo (predictor_updated w) (lc_inst (set_doneWB True z))" "perfect_unsafe sc (lc_pred v) = Some u"
    "lc_results v = lc_results (set_doneWB True z)"
    using update_ok_load [OF ld(1, 2) b(2) l] by metis
  show thesis
  proof (rule that [of z v given' w])
    show "writeback c acc cmd y = Some z" by (rule z(1))
    show "updateLocationPredictor rnd True 1 (set_doneWB True z) = Some v" by (rule v(1))
    show "base_inv sc split (lc_inst v)" using b(1) by (simp add: v(2))
    show "WB_by_oblS given' (lc_inst v)" using z(5) by (simp add: v(2))
    show "pred_inv sc rnd u (lc_inst v) (lc_pred v)" using v(3) by (simp add: v(2))
    show "delivers given y given' v" using z(4) v(4) by (simp add: delivers_def)
    show "sdo (lc_inst v) = predictor_updated w ((sdo (lc_inst y))\<lparr>doneWB := True, doneWB_byOblS := True\<rparr>)" by (simp add: v(2) k(6))
    show "val_post u split post (lc_inst y) \<longrightarrow> val_post u split post (lc_inst v)" using k(4) by (simp add: v(2))
    show "written_back (lc_inst y) (lc_inst z)" by (rule z(2))
    show "lc_inst v = on_sdo (predictor_updated w) (lc_inst (set_doneWB True z))" by (rule v(2))
  qed
qed

lemma not_yet_validated_ok:
  assumes "val_post u split post (lc_inst y)" "pred_inv sc rnd u (lc_inst y) (lc_pred y)"
  shows "not_yet_validated sc y = Some ()"
  using assms by (cases post) (auto simp: not_yet_validated_def val_post_def pred_inv_def Let_def assertion_def)

lemma confirm_AC_ok:
  assumes cfg: "isInvisibleSpec c" and inv: "load_inv sc rnd u split post given i0 (lc_pred x)" and st: "MLDOM_state (sdo i0) = Some MLDOM_STATE_AC"
    and x: "hits_arrived split i0 a x" and comp: "ob_Complete a" and cmd: "isSpec cmd"
  shows "\<exists>x' given'. confirm_AC c sc rnd acc cmd x = Some x' \<and> load_inv sc rnd u split post given' (lc_inst x') (lc_pred x') \<and> delivers given x given' x'"
proof -
  have s: "base_inv sc split i0" "no_WB given i0" "val_post u split post i0" "pred_inv sc rnd u i0 (lc_pred x)"
    using inv by (simp_all add: load_inv_def state_inv_at(4) [OF st])
  obtain e f where i: "lc_inst x = on_sdo (with_oblS a e f) i0" "halves_ok split (with_oblS a e f (sdo i0))" using x by (auto simp: hits_arrived_def)
  define y where "y = set_MLDOM MLDOM_STATE_ACB x"
  have y: "base_inv sc split (lc_inst y)" "no_WB given (lc_inst y)" "pred_inv sc rnd u (lc_inst y) (lc_pred y)"
    "sdo (lc_inst y) = (with_oblS a e f (sdo i0))\<lparr>MLDOM_state := Some MLDOM_STATE_ACB\<rparr>" "val_post u split post (lc_inst y)"
    using s base_with_oblS [OF s(1) i(2)] by (simp_all add: y_def i(1))
  note n = not_yet_validated_ok [OF y(5, 3)]
  show ?thesis
  proof (cases "ob_Hit a")
    case True
    then have h: "ob_Hit (oblS (sdo (lc_inst y)))" by (simp add: y(4))
    obtain z v given' w where v: "writeback c acc cmd y = Some z" "updateLocationPredictor rnd True 1 (set_doneWB True z) = Some v"
      "base_inv sc split (lc_inst v)" "WB_by_oblS given' (lc_inst v)" "pred_inv sc rnd u (lc_inst v) (lc_pred v)" "delivers given y given' v"
      "sdo (lc_inst v) = predictor_updated w ((sdo (lc_inst y))\<lparr>doneWB := True, doneWB_byOblS := True\<rparr>)"
      "val_post u split post (lc_inst y) \<longrightarrow> val_post u split post (lc_inst v)"
      "written_back (lc_inst y) (lc_inst z)" "lc_inst v = on_sdo (predictor_updated w) (lc_inst (set_doneWB True z))"
      by (rule WB_and_update [OF cfg y(1, 2, 3) h cmd, of acc post])
    have "confirm_AC c sc rnd acc cmd x = Some v"
      unfolding confirm_AC_def Let_def y_def [symmetric] using n v(1, 2) y(2, 4) comp True by (simp add: no_WB_def)
    moreover have m: "MLDOM_state (sdo (lc_inst v)) = Some MLDOM_STATE_ACB" by (simp add: v(7) y(4))
    have "load_inv sc rnd u split post given' (lc_inst v) (lc_pred v)"
      unfolding load_inv_def state_inv_at(5) [OF m] using v(3-5) v(8) y(5) comp True by (simp add: v(7) y(4))
    moreover have "delivers given x given' v" using v(6) by (simp add: y_def)
    ultimately show ?thesis by blast
  next
    case False
    have "confirm_AC c sc rnd acc cmd x = Some y"
      unfolding confirm_AC_def Let_def y_def [symmetric] using n y(4) comp False by simp
    moreover have m: "MLDOM_state (sdo (lc_inst y)) = Some MLDOM_STATE_ACB" by (simp add: y(4))
    have "load_inv sc rnd u split post given (lc_inst y) (lc_pred y)"
      unfolding load_inv_def state_inv_at(5) [OF m] using y comp False by simp
    moreover have "delivers given x given y" by (simp add: delivers_def y_def)
    ultimately show ?thesis by blast
  qed
qed

lemma early_A_ok:
  assumes inv: "load_inv sc rnd u split post given i0 (lc_pred x)" and st: "MLDOM_state (sdo i0) = Some MLDOM_STATE_A"
    and x: "hits_arrived split i0 a x" and hit: "\<not> ob_Complete a" "ob_Hit a" and cmd: "isSpec cmd"
  shows "\<exists>x' given'. early_A cmd x = Some x' \<and> load_inv sc rnd u split post given' (lc_inst x') (lc_pred x') \<and> delivers given x given' x'"
proof -
  have s: "base_inv sc split i0" "no_WB given i0" "undecided split post i0" "\<not> valPred_onMiss (sdo i0)" "pred_inv sc rnd u i0 (lc_pred x)"
    using inv by (simp_all add: load_inv_def state_inv_at(1) [OF st])
  obtain e f where i: "lc_inst x = on_sdo (with_oblS a e f) i0" "halves_ok split (with_oblS a e f (sdo i0))"
    using x by (auto simp: hits_arrived_def)
  define y where "y = on_inst (on_sdo (\<lambda>d. d\<lparr>pkt_delayed_wb := Some cmd\<rparr>)) (set_MLDOM MLDOM_STATE_Ab x)"
  have y: "base_inv sc split (lc_inst y)" "no_WB given (lc_inst y)" "undecided split post (lc_inst y)" "pred_inv sc rnd u (lc_inst y) (lc_pred y)"
    "sdo (lc_inst y) = (with_oblS a e f (sdo i0))\<lparr>MLDOM_state := Some MLDOM_STATE_Ab, pkt_delayed_wb := Some cmd\<rparr>"
    using s base_with_oblS [OF s(1) i(2)] by (simp_all add: y_def i(1))
  have "early_A cmd x = Some y" using hit(2) by (simp add: early_A_def y_def i(1))
  moreover have m: "MLDOM_state (sdo (lc_inst y)) = Some MLDOM_STATE_Ab" by (simp add: y(5))
  have "load_inv sc rnd u split post given (lc_inst y) (lc_pred y)"
    unfolding load_inv_def state_inv_at(3) [OF m] using y s(4) hit cmd by simp
  moreover have "delivers given x given y" by (simp add: delivers_def y_def)
  ultimately show ?thesis by blast
qed

lemma early_AC_ok:
  assumes cfg: "isInvisibleSpec c" and inv: "load_inv sc rnd u split post given i0 (lc_pred x)" and st: "MLDOM_state (sdo i0) = Some MLDOM_STATE_AC"
    and x: "hits_arrived split i0 a x" and hit: "\<not> ob_Complete a" "ob_Hit a" "\<not> u" and cmd: "isSpec cmd"
  shows "\<exists>x' given'. early_AC c sc rnd acc cmd x = Some x' \<and> load_inv sc rnd u split post given' (lc_inst x') (lc_pred x') \<and> delivers given x given' x'"
proof -
  have s: "base_inv sc split i0" "no_WB given i0" "val_post u split post i0" "pred_inv sc rnd u i0 (lc_pred x)"
    using inv by (simp_all add: load_inv_def state_inv_at(4) [OF st])
  obtain e f where i: "lc_inst x = on_sdo (with_oblS a e f) i0" "halves_ok split (with_oblS a e f (sdo i0))" using x by (auto simp: hits_arrived_def)
  define y where "y = set_MLDOM MLDOM_STATE_ACb x"
  have y: "base_inv sc split (lc_inst y)" "no_WB given (lc_inst y)" "pred_inv sc rnd u (lc_inst y) (lc_pred y)"
    "sdo (lc_inst y) = (with_oblS a e f (sdo i0))\<lparr>MLDOM_state := Some MLDOM_STATE_ACb\<rparr>" "val_post u split post (lc_inst y)"
    using s base_with_oblS [OF s(1) i(2)] by (simp_all add: y_def i(1))
  note n = not_yet_validated_ok [OF y(5, 3)]
  have h: "ob_Hit (oblS (sdo (lc_inst y)))" using hit(2) by (simp add: y(4))
  obtain z v given' w where v: "writeback c acc cmd y = Some z" "updateLocationPredictor rnd True 1 (set_doneWB True z) = Some v"
    "base_inv sc split (lc_inst v)" "WB_by_oblS given' (lc_inst v)" "pred_inv sc rnd u (lc_inst v) (lc_pred v)" "delivers given y given' v"
    "sdo (lc_inst v) = predictor_updated w ((sdo (lc_inst y))\<lparr>doneWB := True, doneWB_byOblS := True\<rparr>)"
    "val_post u split post (lc_inst y) \<longrightarrow> val_post u split post (lc_inst v)"
    "written_back (lc_inst y) (lc_inst z)" "lc_inst v = on_sdo (predictor_updated w) (lc_inst (set_doneWB True z))"
    by (rule WB_and_update [OF cfg y(1, 2, 3) h cmd, of acc post])
  have "early_AC c sc rnd acc cmd x = Some v"
    unfolding early_AC_def Let_def y_def [symmetric] using n v(1, 2) y(2, 4) hit by (simp add: no_WB_def)
  moreover have m: "MLDOM_state (sdo (lc_inst v)) = Some MLDOM_STATE_ACb" by (simp add: v(7) y(4))
  have "load_inv sc rnd u split post given' (lc_inst v) (lc_pred v)"
    unfolding load_inv_def state_inv_at(6) [OF m] using v(3-5) v(8) y(5) hit by (simp add: v(7) y(4))
  moreover have "delivers given x given' v" using v(6) by (simp add: y_def)
  ultimately show ?thesis by blast
qed

text \<open>Answers that only change the hit flags, and transitions that only check what must hold.\<close>

lemma silent_ok:
  assumes inv: "load_inv sc rnd u split post given i0 p" and old: "\<not> ob_Complete (oblS (sdo i0))"
    and x: "hits_arrived split i0 a x" and comp: "\<not> ob_Complete a"
  shows "load_inv sc rnd u split post given (lc_inst x) p"
proof -
  obtain e f where i: "lc_inst x = on_sdo (with_oblS a e f) i0" "halves_ok split (with_oblS a e f (sdo i0))" "ob_Hit (oblS (sdo i0)) \<longrightarrow> ob_Hit a"
    using x by (auto simp: hits_arrived_def)
  have "base_inv sc split (lc_inst x)" "pred_inv sc rnd u (lc_inst x) p"
    using inv base_with_oblS [OF _ i(2)] by (simp_all add: load_inv_def i(1))
  moreover have "state_inv u split post given (lc_inst x)"
    using inv old comp i(3) unfolding load_inv_def state_inv_def
    by (cases "MLDOM_state (sdo i0)") (auto simp: i(1) is_due_def Let_def split: MLDOM_STATE_Type.splits)
  ultimately show ?thesis by (simp add: load_inv_def)
qed

lemma move_ok:
  assumes inv: "load_inv sc rnd u split post given i0 (lc_pred x)"
    and st: "(MLDOM_state (sdo i0), st') \<in> {(Some MLDOM_STATE_AbC, MLDOM_STATE_AbCB), (Some MLDOM_STATE_AbCD, MLDOM_STATE_AbCDB),
      (Some MLDOM_STATE_ACb, MLDOM_STATE_ACB), (Some MLDOM_STATE_ACbD, MLDOM_STATE_ACbDB), (Some MLDOM_STATE_ACD, MLDOM_STATE_ACDB)}"
    and x: "hits_arrived split i0 a x" and comp: "ob_Complete a"
  shows "load_inv sc rnd u split post given (lc_inst (set_MLDOM st' x)) (lc_pred x)"
proof -
  obtain e f where i: "lc_inst x = on_sdo (with_oblS a e f) i0" "halves_ok split (with_oblS a e f (sdo i0))" "ob_Hit (oblS (sdo i0)) \<longrightarrow> ob_Hit a"
    using x by (auto simp: hits_arrived_def)
  have "base_inv sc split (lc_inst (set_MLDOM st' x))" "pred_inv sc rnd u (lc_inst (set_MLDOM st' x)) (lc_pred x)"
    using inv base_with_oblS [OF _ i(2)] by (simp_all add: load_inv_def i(1))
  moreover have "state_inv u split post given (lc_inst (set_MLDOM st' x))"
    using inv comp i(3) st unfolding load_inv_def state_inv_def
    by (cases "MLDOM_state (sdo i0)") (auto simp: i(1) Let_def)
  ultimately show ?thesis by (simp add: load_inv_def)
qed

lemma to_be_squashed_ok:
  assumes inv: "load_inv sc rnd u split post given i0 p" and st: "MLDOM_state (sdo i0) = Some MLDOM_STATE_toBeSquash"
    and x: "hits_arrived split i0 a x" and comp: "ob_Complete a"
  shows "load_inv sc rnd u split post given (lc_inst x) p"
proof -
  obtain e f where i: "lc_inst x = on_sdo (with_oblS a e f) i0" "halves_ok split (with_oblS a e f (sdo i0))"
    using x by (auto simp: hits_arrived_def)
  then have m: "MLDOM_state (sdo (lc_inst x)) = Some MLDOM_STATE_toBeSquash" using st by simp
  show ?thesis
    unfolding load_inv_def state_inv_at(11) [OF m]
    using inv base_with_oblS [OF _ i(2)] comp
    by (simp add: load_inv_def state_inv_at(11) [OF st] i(1) is_due_def)
qed

lemma move_checks:
  assumes inv: "load_inv sc rnd u split post given i0 p" and x: "hits_arrived split i0 a x" and comp: "ob_Complete a"
  shows "MLDOM_state (sdo i0) = Some MLDOM_STATE_AbC \<Longrightarrow> given_by_oblS (lc_inst x) \<and> ob_Complete (oblS (sdo (lc_inst x)))"
    "MLDOM_state (sdo i0) = Some MLDOM_STATE_AbCD \<or> MLDOM_state (sdo i0) = Some MLDOM_STATE_ACbD \<Longrightarrow>
      ob_Hit (oblS (sdo (lc_inst x))) \<and> ob_Complete (oblS (sdo (lc_inst x))) \<and> isExposeCompleted (lc_inst x)"
    "MLDOM_state (sdo i0) = Some MLDOM_STATE_ACD \<Longrightarrow> given_by_validation (lc_inst x)"
  using inv x comp unfolding load_inv_def hits_arrived_def state_inv_def Let_def
  by (auto simp: given_by_oblS_def given_by_validation_def WB_by_oblS_def WB_by_validation_def answered_post_def)

lemma given_by_validation_ACD:
  assumes "load_inv sc rnd u split post given i0 p" "hits_arrived split i0 a x" "MLDOM_state (sdo i0) = Some MLDOM_STATE_ACD"
  shows "given_by_validation (lc_inst x)"
  using assms by (auto simp: load_inv_def hits_arrived_def state_inv_at(8) given_by_validation_def WB_by_validation_def answered_post_def)

text \<open>Every answer to an oblivious access that is not complete.\<close>

lemma spec_machine_ok:
  assumes cfg: "isInvisibleSpec c" and inv: "load_inv sc rnd u split post given i0 (lc_pred x)" and old: "\<not> ob_Complete (oblS (sdo i0))"
    and x: "hits_arrived split i0 a x" and cmd: "isSpec (pk_cmd pkt)"
    and final: "isFinalPacket pkt \<longleftrightarrow> ob_Complete a" and carry: "carryData pkt \<longrightarrow> \<not> ob_Hit (oblS (sdo i0))"
    and unsafe: "u \<longrightarrow> carryData pkt \<longrightarrow> isFinalPacket pkt"
  shows "\<exists>x' given'. mldom_response c sc rnd acc pkt x = Some x' \<and> load_inv sc rnd u split post given' (lc_inst x') (lc_pred x') \<and>
    delivers given x given' x'"
proof -
  have st: "MLDOM_state (sdo (lc_inst x)) = MLDOM_state (sdo i0)" and ob: "oblS (sdo (lc_inst x)) = a"
    and tlb: "obls_TLB_Hit (sdo (lc_inst x)) = obls_TLB_Hit (sdo i0)"
    using x by (auto simp: hits_arrived_def)
  have np: "\<not> isValidate (pk_cmd pkt)" "\<not> isExpose (pk_cmd pkt)" using cmd by (auto simp: isSpec_def)
  have now: "delivers given x given x" "delivers given x given (set_MLDOM m x)" for m by (simp_all add: delivers_def)
  note chk = move_checks [OF inv x]
  note acd = given_by_validation_ACD [OF inv x]
  note mv = move_ok [OF inv _ x]
  consider (complete) "ob_Complete a" | (early) "\<not> ob_Complete a" "ob_Hit a" "carryData pkt" | (silent) "\<not> ob_Complete a" "\<not> (ob_Hit a \<and> carryData pkt)"
    by blast
  then show ?thesis
  proof cases
    case complete
    have st0: "MLDOM_state (sdo i0) \<in> {Some MLDOM_STATE_A, Some MLDOM_STATE_Ab, Some MLDOM_STATE_AC, Some MLDOM_STATE_AbC, Some MLDOM_STATE_AbCD,
      Some MLDOM_STATE_ACb, Some MLDOM_STATE_ACbD, Some MLDOM_STATE_ACD, Some MLDOM_STATE_toBeSquash}"
      using inv old by (cases "MLDOM_state (sdo i0)") (auto simp: load_inv_def state_inv_def Let_def split: MLDOM_STATE_Type.splits)
    have r: "mldom_response c sc rnd acc pkt x = (case MLDOM_state (sdo i0) of
        Some MLDOM_STATE_A \<Rightarrow> confirm_A c acc (pk_cmd pkt) x | Some MLDOM_STATE_Ab \<Rightarrow> confirm_Ab c acc (pk_cmd pkt) x
      | Some MLDOM_STATE_AC \<Rightarrow> confirm_AC c sc rnd acc (pk_cmd pkt) x | Some MLDOM_STATE_AbC \<Rightarrow> Some (set_MLDOM MLDOM_STATE_AbCB x)
      | Some MLDOM_STATE_AbCD \<Rightarrow> Some (set_MLDOM MLDOM_STATE_AbCDB x) | Some MLDOM_STATE_ACb \<Rightarrow> Some (set_MLDOM MLDOM_STATE_ACB x)
      | Some MLDOM_STATE_ACbD \<Rightarrow> Some (set_MLDOM MLDOM_STATE_ACbDB x) | Some MLDOM_STATE_ACD \<Rightarrow> Some (set_MLDOM MLDOM_STATE_ACDB x)
      | Some MLDOM_STATE_toBeSquash \<Rightarrow> Some x)"
      unfolding mldom_response_def Let_def checked_move_def st ob tlb
      using st0 complete cmd np final chk [OF complete, unfolded ob] acd inv old by (auto simp: load_inv_def state_inv_at(11))
    have sq: "load_inv sc rnd u split post given (lc_inst x) (lc_pred x)" if "MLDOM_state (sdo i0) = Some MLDOM_STATE_toBeSquash"
      by (rule to_be_squashed_ok [OF inv that x complete])
    show ?thesis
      using st0 r confirm_A_ok [OF cfg inv _ x complete cmd, of acc] confirm_Ab_ok [OF cfg inv _ x complete cmd, of acc]
        confirm_AC_ok [OF cfg inv _ x complete cmd, of acc] mv [OF _ complete] now sq
      by (elim insertE) (simp_all, blast+)
  next
    case early
    have st0: "MLDOM_state (sdo i0) \<in> {Some MLDOM_STATE_A, Some MLDOM_STATE_AC, Some MLDOM_STATE_ACD, Some MLDOM_STATE_toBeSquash}"
      using inv old carry early by (cases "MLDOM_state (sdo i0)") (auto simp: load_inv_def state_inv_def Let_def split: MLDOM_STATE_Type.splits)
    have nu: "\<not> u" using early(1,3) unsafe final by simp
    have r: "mldom_response c sc rnd acc pkt x = (case MLDOM_state (sdo i0) of
        Some MLDOM_STATE_A \<Rightarrow> early_A (pk_cmd pkt) x | Some MLDOM_STATE_AC \<Rightarrow> early_AC c sc rnd acc (pk_cmd pkt) x | _ \<Rightarrow> Some x)"
      unfolding mldom_response_def Let_def st ob tlb
      using st0 early cmd np final acd inv old by (auto simp: load_inv_def state_inv_at(11))
    show ?thesis
      using st0 r early_A_ok [OF inv _ x early(1, 2) cmd] early_AC_ok [OF cfg inv _ x early(1, 2) nu cmd, of acc] now(1)
        silent_ok [OF inv old x early(1)]
      by (elim insertE) (simp_all, blast+)
  next
    case silent
    then have "mldom_response c sc rnd acc pkt x = Some x"
      using cmd final by (auto simp: mldom_response_def Let_def ob)
    moreover have "load_inv sc rnd u split post given (lc_inst x) (lc_pred x)" by (rule silent_ok [OF inv old x silent(1)])
    ultimately show ?thesis using now(1) by blast
  qed
qed

section \<open>The answer to the second access\<close>

definition validated :: "DynInst \<Rightarrow> DynInst \<Rightarrow> bool" where
  "validated i i' \<longleftrightarrow> sdo i' = sdo i \<and> ldst i' = ldst i \<and> pc i' = pc i \<and> seqNum i' = seqNum i \<and> staticInst i' = staticInst i \<and>
     (isExecuted i' \<longleftrightarrow> isExecuted i) \<and> (isSquashed i' \<longleftrightarrow> isSquashed i) \<and> (isExposeSent i' \<longleftrightarrow> isExposeSent i) \<and> isExposeCompleted i' \<and>
     (readyToExpose i' \<longleftrightarrow> readyToExpose i) \<and> (needPostFetch i' \<longleftrightarrow> needPostFetch i) \<and> (fault i' = None \<longrightarrow> fault i = None) \<and>
     (isExposeCompleted i \<longrightarrow> i' = i) \<and>
     (fault i' = None \<and> \<not> isExposeCompleted i \<and> doneWB (sdo i) \<and> doneWB_byOblS (sdo i) \<longrightarrow> memData (ldst i) = vldData (ldst i))"

lemma completeValidate_ok:
  assumes base: "base_inv sc split i" and v: "vldData (ldst i) \<noteq> None"
  obtains i' where "completeValidate True sp i = Some i'" "validated i i'"
proof (cases "isExposeCompleted i")
  case True
  then have "completeValidate True sp i = Some i" "validated i i" by (auto simp: completeValidate_def validated_def)
  then show thesis by (rule that)
next
  case False
  obtain m w where m: "memData (ldst i) = Some m" "length m = effSize (ldst i)" "vldData (ldst i) = Some w" "length w = effSize (ldst i)"
    and sq: "\<not> isSquashed i"
    using base v by (auto simp: base_inv_def)
  define bad where "bad \<longleftrightarrow> doneWB (sdo i) \<and> doneWB_byOblS (sdo i) \<and> w \<noteq> m"
  define j where "j = (if bad then set_flag ValidationFail True (i\<lparr>fault := Some ReExec\<rparr>) else i)"
  have "validation_fails True sp i = Some bad" using m by (auto simp: validation_fails_def bad_def)
  then have "completeValidate True sp i = Some (set_status ExposeCompleted j)" using False sq by (simp add: completeValidate_def j_def)
  moreover have "validated i (set_status ExposeCompleted j)"
    using False m by (auto simp: validated_def j_def bad_def)
  ultimately show thesis by (rule that)
qed

lemma validated_keep:
  assumes "validated i i'"
  shows "base_inv sc split i \<Longrightarrow> base_inv sc split i'" "pred_inv sc rnd u i p \<Longrightarrow> pred_inv sc rnd u i' p"
    "isExposeSent i \<Longrightarrow> answered_post (Answered k) i'" "WB_by_oblS given i \<Longrightarrow> WB_by_oblS given i'"
    "WB_by_validation given i \<Longrightarrow> WB_by_validation given i'" "sdo i' = sdo i"
    "WB_by_oblS given i \<Longrightarrow> fault i = None \<and> \<not> k \<longrightarrow> \<not> isExposeCompleted i \<Longrightarrow> vldData (ldst i) \<noteq> None \<Longrightarrow> confirmed (Answered k) i'"
  using assms
  by (auto simp: validated_def base_inv_def pred_inv_def answered_post_def WB_by_oblS_def WB_by_validation_def confirmed_def)

text \<open>An access whose data came from the oblivious access, before \<^verbatim>\<open>completeValidate\<close>.\<close>

definition awaits_check :: "bool \<Rightarrow> 8 word list option \<Rightarrow> DynInst \<Rightarrow> bool" where
  "awaits_check k given i \<longleftrightarrow> ob_Hit (oblS (sdo i)) \<and> WB_by_oblS given i \<and> done_locPred_update (sdo i) \<and> isExposeSent i \<and>
     (fault i = None \<and> \<not> k \<longrightarrow> \<not> isExposeCompleted i) \<and> vldData (ldst i) \<noteq> None"

lemma checked_inv:
  assumes inv: "base_inv sc split i" "pred_inv sc rnd u i p" "awaits_check k given i" and v: "validated i i'"
    and st: "MLDOM_state (sdo i) \<in> {Some MLDOM_STATE_ABCD, Some MLDOM_STATE_AbCBD, Some MLDOM_STATE_AbCD, Some MLDOM_STATE_ACbD, Some MLDOM_STATE_ACBD}"
    and comp: "ob_Complete (oblS (sdo i)) \<longleftrightarrow> MLDOM_state (sdo i) \<notin> {Some MLDOM_STATE_AbCD, Some MLDOM_STATE_ACbD}"
  shows "load_inv sc rnd u split (Answered k) given i' p"
proof -
  note w = validated_keep [OF v]
  have a: "ob_Hit (oblS (sdo i))" "WB_by_oblS given i" "done_locPred_update (sdo i)" "isExposeSent i" "vldData (ldst i) \<noteq> None"
    "fault i = None \<and> \<not> k \<longrightarrow> \<not> isExposeCompleted i"
    using inv(3) by (auto simp: awaits_check_def)
  have "state_inv u split (Answered k) given i'"
    using st comp a(1, 3) w(3) [OF a(4), of k] w(4) [OF a(2)] w(7) [OF a(2, 6, 5)]
    unfolding state_inv_def w(6) by (auto simp: Let_def)
  then show ?thesis using w(1) [OF inv(1)] w(2) [OF inv(2)] by (simp add: load_inv_def)
qed

text \<open>The data of a validation are written back.\<close>

lemma WB_validation_and_update:
  assumes cfg: "isInvisibleSpec c" and base: "base_inv sc split (lc_inst y)" and no: "no_WB given (lc_inst y)"
    and pred: "pred_inv sc rnd u (lc_inst y) (lc_pred y)" and cmd: "isValidate cmd" and vd: "vldData (ldst (lc_inst y)) \<noteq> None"
  obtains z v given' w where "writeback c acc cmd y = Some z" "updateLocationPredictor rnd True 2 (set_doneWB False z) = Some v"
    "base_inv sc split (lc_inst v)" "WB_by_validation given' (lc_inst v)" "pred_inv sc rnd u (lc_inst v) (lc_pred v)" "delivers given y given' v"
    "sdo (lc_inst v) = predictor_updated w ((sdo (lc_inst y))\<lparr>doneWB := True, doneWB_byOblS := False\<rparr>)"
    "ldst (lc_inst v) = ldst (lc_inst y)" "isExposeSent (lc_inst y) \<longrightarrow> isExposeSent (lc_inst v)"
proof -
  obtain z given' where z: "writeback c acc cmd y = Some z" "written_back (lc_inst y) (lc_inst z)" "lc_pred z = lc_pred y"
    "delivers given y given' z" "WB_by_validation given' (lc_inst (set_doneWB False z))"
    by (rule WB_step_post [OF cfg base no cmd vd])
  note k = written_back_keep [OF z(2)]
  have b: "base_inv sc split (lc_inst (set_doneWB False z))" "pred_inv sc rnd u (lc_inst (set_doneWB False z)) (lc_pred (set_doneWB False z))"
    using k(1) [OF base] k(2) [OF pred] z(3) by simp_all
  have ld: "isLoad (lc_inst (set_doneWB False z))" "\<not> isSquashed (lc_inst (set_doneWB False z))"
    using b(1) by (auto simp: base_inv_def)
  have l: "update_level 2 (sdo (lc_inst (set_doneWB False z))) = Some (Some (reg_level (ExpVal_Hit_Level (sdo (lc_inst (set_doneWB False z))))))"
    by (simp add: update_level_def)
  obtain w v where v: "updateLocationPredictor rnd True 2 (set_doneWB False z) = Some v"
    "lc_inst v = on_sdo (predictor_updated w) (lc_inst (set_doneWB False z))" "perfect_unsafe sc (lc_pred v) = Some u"
    "lc_results v = lc_results (set_doneWB False z)"
    using update_ok_load [OF ld b(2) l real_levels(1)] by metis
  show thesis
  proof (rule that [of z v given' w])
    show "writeback c acc cmd y = Some z" by (rule z(1))
    show "updateLocationPredictor rnd True 2 (set_doneWB False z) = Some v" by (rule v(1))
    show "base_inv sc split (lc_inst v)" using b(1) by (simp add: v(2))
    show "WB_by_validation given' (lc_inst v)" using z(5) by (simp add: v(2))
    show "pred_inv sc rnd u (lc_inst v) (lc_pred v)" using v(3) by (simp add: v(2))
    show "delivers given y given' v" using z(4) v(4) by (simp add: delivers_def)
    show "sdo (lc_inst v) = predictor_updated w ((sdo (lc_inst y))\<lparr>doneWB := True, doneWB_byOblS := False\<rparr>)" by (simp add: v(2) k(6))
    show "ldst (lc_inst v) = ldst (lc_inst y)" by (simp add: v(2) k(7))
    show "isExposeSent (lc_inst y) \<longrightarrow> isExposeSent (lc_inst v)" using z(2) by (simp add: v(2) written_back_def)
  qed
qed

definition post_done ::
  "sdo_config \<Rightarrow> ('g \<Rightarrow> nat \<times> 'g) \<Rightarrow> bool \<Rightarrow> bool \<Rightarrow> bool \<Rightarrow> 8 word list option \<Rightarrow> 'g LoadCtx \<Rightarrow> 'g LoadCtx \<Rightarrow> bool" where
  "post_done sc rnd u split k given x x' \<longleftrightarrow> (\<exists>given'. delivers given x given' x' \<and> vldData (ldst (lc_inst x')) \<noteq> None \<and>
     base_inv sc split (lc_inst x') \<and>
     (\<forall>i'. validated (lc_inst x') i' \<longrightarrow> load_inv sc rnd u split (Answered k) given' i' (lc_pred x')))"

lemma validated_data_inv:
  assumes inv: "base_inv sc split i" "pred_inv sc rnd u i p" "WB_by_validation given i" "done_locPred_update (sdo i)" "isExposeSent i"
    and v: "validated i i'"
    and st: "MLDOM_state (sdo i) = Some MLDOM_STATE_ACD \<and> \<not> ob_Complete (oblS (sdo i)) \<or>
      MLDOM_state (sdo i) = Some MLDOM_STATE_ACBD \<and> ob_Complete (oblS (sdo i)) \<and> \<not> ob_Hit (oblS (sdo i))"
  shows "load_inv sc rnd u split (Answered False) given i' p"
proof -
  note w = validated_keep [OF v]
  have "state_inv u split (Answered False) given i'"
    using st inv(4) w(3) [OF inv(5), of False] w(5) [OF inv(3)] unfolding state_inv_def w(6) by (auto simp: Let_def)
  then show ?thesis using w(1) [OF inv(1)] w(2) [OF inv(2)] by (simp add: load_inv_def)
qed

lemma post_done_WB:
  assumes cfg: "isInvisibleSpec c" and base: "base_inv sc split (lc_inst y)" and no: "no_WB given (lc_inst y)"
    and pred: "pred_inv sc rnd u (lc_inst y) (lc_pred y)" and cmd: "isValidate cmd" and vd: "vldData (ldst (lc_inst y)) \<noteq> None"
    and es: "isExposeSent (lc_inst y)"
    and st: "MLDOM_state (sdo (lc_inst y)) = Some MLDOM_STATE_ACD \<and> \<not> ob_Complete (oblS (sdo (lc_inst y))) \<or>
      MLDOM_state (sdo (lc_inst y)) = Some MLDOM_STATE_ACBD \<and> ob_Complete (oblS (sdo (lc_inst y))) \<and> \<not> ob_Hit (oblS (sdo (lc_inst y)))"
  obtains z v where "writeback c acc cmd y = Some z" "updateLocationPredictor rnd True 2 (set_doneWB False z) = Some v"
    "post_done sc rnd u split False given y v"
proof -
  obtain z v given' w where v: "writeback c acc cmd y = Some z" "updateLocationPredictor rnd True 2 (set_doneWB False z) = Some v"
    "base_inv sc split (lc_inst v)" "WB_by_validation given' (lc_inst v)" "pred_inv sc rnd u (lc_inst v) (lc_pred v)" "delivers given y given' v"
    "sdo (lc_inst v) = predictor_updated w ((sdo (lc_inst y))\<lparr>doneWB := True, doneWB_byOblS := False\<rparr>)"
    "ldst (lc_inst v) = ldst (lc_inst y)" "isExposeSent (lc_inst y) \<longrightarrow> isExposeSent (lc_inst v)"
    by (rule WB_validation_and_update [OF cfg base no pred cmd vd])
  have "load_inv sc rnd u split (Answered False) given' i' (lc_pred v)" if "validated (lc_inst v) i'" for i'
    by (rule validated_data_inv [OF v(3, 5, 4) _ _ that]) (use v(7, 9) es st in auto)
  then have "post_done sc rnd u split False given y v" using v(3, 6, 8) vd unfolding post_done_def by auto
  with v(1, 2) show thesis by (rule that)
qed

lemma post_done_checked:
  assumes inv: "base_inv sc split (lc_inst x)" "pred_inv sc rnd u (lc_inst x) (lc_pred x)" "awaits_check k given (lc_inst x)"
    and st: "st \<in> {MLDOM_STATE_ABCD, MLDOM_STATE_AbCBD, MLDOM_STATE_AbCD, MLDOM_STATE_ACbD, MLDOM_STATE_ACBD}"
    and comp: "ob_Complete (oblS (sdo (lc_inst x))) \<longleftrightarrow> st \<notin> {MLDOM_STATE_AbCD, MLDOM_STATE_ACbD}"
  shows "post_done sc rnd u split k given x (set_MLDOM st x)"
proof -
  have a: "awaits_check k given (lc_inst (set_MLDOM st x))" using inv(3) by (simp add: awaits_check_def)
  have "load_inv sc rnd u split (Answered k) given i' (lc_pred (set_MLDOM st x))" if "validated (lc_inst (set_MLDOM st x)) i'" for i'
    by (rule checked_inv [OF _ _ a that]) (use inv st comp in auto)
  moreover have "vldData (ldst (lc_inst (set_MLDOM st x))) \<noteq> None" using a by (simp add: awaits_check_def)
  ultimately show ?thesis using inv(1) unfolding post_done_def by (auto simp: delivers_def intro!: exI [of _ given])
qed

lemma post_done_stay:
  assumes inv: "load_inv sc rnd True split (Sent True) given (lc_inst x) (lc_pred x)"
    and st: "MLDOM_state (sdo (lc_inst x)) \<in> {Some MLDOM_STATE_AC, Some MLDOM_STATE_ACB}"
  shows "post_done sc rnd True split True given x x"
proof -
  have v: "val_post True split (Sent True) (lc_inst x)" using inv st by (auto simp: load_inv_def state_inv_at(4, 5))
  then have "isExposeCompleted (lc_inst x)" "vldData (ldst (lc_inst x)) \<noteq> None" "val_post True split (Answered True) (lc_inst x)"
    by (auto simp: val_post_def)
  moreover from this(3) inv st have "load_inv sc rnd True split (Answered True) given (lc_inst x) (lc_pred x)"
    by (auto simp: load_inv_def state_inv_at(4, 5))
  ultimately show ?thesis using inv
    unfolding post_done_def by (auto simp: delivers_def validated_def load_inv_def intro!: exI [of _ given])
qed

lemma sent_states:
  assumes "load_inv sc rnd u split (Sent k) given i p"
  shows "MLDOM_state (sdo i) \<in> {Some MLDOM_STATE_ABC, Some MLDOM_STATE_AbC, Some MLDOM_STATE_AbCB, Some MLDOM_STATE_AC, Some MLDOM_STATE_ACB, Some MLDOM_STATE_ACb}"
  using assms by (cases "MLDOM_state (sdo i)")
    (auto simp: load_inv_def state_inv_def Let_def undecided_def answered_post_def split: MLDOM_STATE_Type.splits)

lemma sent_awaits:
  assumes "load_inv sc rnd u split (Sent k) given i p"
    and "MLDOM_state (sdo i) \<in> {Some MLDOM_STATE_ABC, Some MLDOM_STATE_AbC, Some MLDOM_STATE_AbCB, Some MLDOM_STATE_ACb} \<or>
      MLDOM_state (sdo i) = Some MLDOM_STATE_ACB \<and> ob_Hit (oblS (sdo i))"
  shows "awaits_check k given i" "given_by_oblS i"
  using assms by (auto simp: load_inv_def state_inv_at(5, 6, 9) awaits_check_def given_by_oblS_def WB_by_oblS_def any_post_def val_post_def)

lemma sent_facts:
  assumes "load_inv sc rnd u split (Sent k) given i p"
  shows "base_inv sc split i" "pred_inv sc rnd u i p" "vldData (ldst i) \<noteq> None" "isExposeSent i"
    "MLDOM_state (sdo i) \<in> {Some MLDOM_STATE_AC, Some MLDOM_STATE_ACB, Some MLDOM_STATE_ACb} \<Longrightarrow> k = u"
    "MLDOM_state (sdo i) = Some MLDOM_STATE_ACb \<Longrightarrow> \<not> u"
    "ob_Complete (oblS (sdo i)) \<longleftrightarrow> MLDOM_state (sdo i) \<notin> {Some MLDOM_STATE_AC, Some MLDOM_STATE_ACb, Some MLDOM_STATE_AbC}"
    "MLDOM_state (sdo i) = Some MLDOM_STATE_AC \<or> MLDOM_state (sdo i) = Some MLDOM_STATE_ACB \<and> \<not> ob_Hit (oblS (sdo i)) \<Longrightarrow> no_WB given i"
    "perfect_unsafe sc p = Some u"
  using assms sent_states [OF assms]
  by (auto simp: load_inv_def state_inv_at(4, 5, 6, 9) any_post_def val_post_def pred_inv_def)

lemma post_checked_ok:
  assumes inv: "load_inv sc rnd u split (Sent k) given (lc_inst x) (lc_pred x)" and cmd: "pk_cmd pkt = (if k then ExposeReq else ValidateReq)"
    and st: "MLDOM_state (sdo (lc_inst x)) \<in> {Some MLDOM_STATE_ABC, Some MLDOM_STATE_AbC, Some MLDOM_STATE_AbCB, Some MLDOM_STATE_ACb} \<or>
      MLDOM_state (sdo (lc_inst x)) = Some MLDOM_STATE_ACB \<and> ob_Hit (oblS (sdo (lc_inst x))) \<and> \<not> k"
  shows "\<exists>x'. mldom_response c sc rnd acc pkt x = Some x' \<and> post_done sc rnd u split k given x x'"
proof -
  note f = sent_facts [OF inv]
  have a: "awaits_check k given (lc_inst x)" "given_by_oblS (lc_inst x)" using sent_awaits [OF inv] st by auto
  have ns: "\<not> isSpec (pk_cmd pkt)" "isExpose (pk_cmd pkt) \<longleftrightarrow> k" "isValidate (pk_cmd pkt) \<longleftrightarrow> \<not> k"
    using cmd by (auto simp: isSpec_def)
  define st' where "st' = (case MLDOM_state (sdo (lc_inst x)) of Some MLDOM_STATE_ABC \<Rightarrow> MLDOM_STATE_ABCD | Some MLDOM_STATE_AbC \<Rightarrow> MLDOM_STATE_AbCD
    | Some MLDOM_STATE_AbCB \<Rightarrow> MLDOM_STATE_AbCBD | Some MLDOM_STATE_ACb \<Rightarrow> MLDOM_STATE_ACbD | _ \<Rightarrow> MLDOM_STATE_ACBD)"
  have ok: "ob_Hit (oblS (sdo (lc_inst x)))" "from_oblS x" "MLDOM_state (sdo (lc_inst x)) = Some MLDOM_STATE_ACb \<longrightarrow> \<not> k"
    using a(2) f(5, 6) by (auto simp: given_by_oblS_def from_oblS_def)
  have "mldom_response c sc rnd acc pkt x = Some (set_MLDOM st' x)"
    unfolding mldom_response_def Let_def post_ABC_def validate_ACB_def checked_move_def st'_def
    using st ns a(2) f(7) ok by (elim disjE insertE) (simp_all add: from_oblS_def)
  moreover have "st' \<in> {MLDOM_STATE_ABCD, MLDOM_STATE_AbCBD, MLDOM_STATE_AbCD, MLDOM_STATE_ACbD, MLDOM_STATE_ACBD}"
    using st by (elim disjE insertE) (simp_all add: st'_def)
  moreover have "ob_Complete (oblS (sdo (lc_inst x))) \<longleftrightarrow> st' \<notin> {MLDOM_STATE_AbCD, MLDOM_STATE_ACbD}"
    using st f(7) by (elim disjE insertE) (simp_all add: st'_def)
  ultimately show ?thesis using post_done_checked [OF f(1, 2) a(1)] by blast
qed

lemma post_machine_ok:
  assumes cfg: "isInvisibleSpec c" and inv: "load_inv sc rnd u split (Sent k) given (lc_inst x) (lc_pred x)"
    and cmd: "pk_cmd pkt = (if k then ExposeReq else ValidateReq)"
  shows "\<exists>x'. mldom_response c sc rnd acc pkt x = Some x' \<and> post_done sc rnd u split k given x x'"
proof -
  note f = sent_facts [OF inv]
  have ns: "\<not> isSpec (pk_cmd pkt)" "isExpose (pk_cmd pkt) \<longleftrightarrow> k" "isValidate (pk_cmd pkt) \<longleftrightarrow> \<not> k"
    using cmd by (auto simp: isSpec_def)
  consider (checked) "MLDOM_state (sdo (lc_inst x)) \<in> {Some MLDOM_STATE_ABC, Some MLDOM_STATE_AbC, Some MLDOM_STATE_AbCB, Some MLDOM_STATE_ACb} \<or>
      MLDOM_state (sdo (lc_inst x)) = Some MLDOM_STATE_ACB \<and> ob_Hit (oblS (sdo (lc_inst x))) \<and> \<not> k"
    | (stay) "MLDOM_state (sdo (lc_inst x)) \<in> {Some MLDOM_STATE_AC, Some MLDOM_STATE_ACB}" "k"
    | (WB) st where "MLDOM_state (sdo (lc_inst x)) = Some MLDOM_STATE_AC \<and> st = MLDOM_STATE_ACD \<or>
        MLDOM_state (sdo (lc_inst x)) = Some MLDOM_STATE_ACB \<and> \<not> ob_Hit (oblS (sdo (lc_inst x))) \<and> st = MLDOM_STATE_ACBD" "\<not> k"
    using sent_states [OF inv] by auto
  then show ?thesis
  proof cases
    case checked
    then show ?thesis by (rule post_checked_ok [OF inv cmd])
  next
    case stay
    then have u: "u" using f(5) by auto
    have "mldom_response c sc rnd acc pkt x = Some x"
      using ns stay u f(9) by (auto simp: mldom_response_def Let_def)
    moreover have "post_done sc rnd True split True given x x" by (rule post_done_stay) (use inv stay u in auto)
    ultimately show ?thesis using stay u by simp
  next
    case WB
    define y where "y = set_MLDOM st x"
    have y: "base_inv sc split (lc_inst y)" "no_WB given (lc_inst y)" "pred_inv sc rnd u (lc_inst y) (lc_pred y)" "isValidate (pk_cmd pkt)"
      "vldData (ldst (lc_inst y)) \<noteq> None" "isExposeSent (lc_inst y)" "MLDOM_state (sdo (lc_inst y)) = Some MLDOM_STATE_ACD \<and> \<not> ob_Complete (oblS (sdo (lc_inst y))) \<or>
      MLDOM_state (sdo (lc_inst y)) = Some MLDOM_STATE_ACBD \<and> ob_Complete (oblS (sdo (lc_inst y))) \<and> \<not> ob_Hit (oblS (sdo (lc_inst y)))"
      using f WB ns by (auto simp: y_def)
    obtain z v where v: "writeback c acc (pk_cmd pkt) y = Some z" "updateLocationPredictor rnd True 2 (set_doneWB False z) = Some v"
      "post_done sc rnd u split False given y v"
      by (rule post_done_WB [OF cfg y])
    have "mldom_response c sc rnd acc pkt x = Some v"
      using ns WB v(1, 2) y(2) f(7) unfolding mldom_response_def Let_def validate_AC_def validate_ACB_def y_def
      by (elim disjE) (simp_all add: no_WB_def)
    then show ?thesis using v(3) WB(2) by (auto simp: post_done_def y_def)
  qed
qed

end
