(* ===== verification/SDO_Expose.thy ===== *)
theory SDO_Expose
  imports SDO_Machine
begin

text \<open>
  The second access of an oblivious load: what \<^verbatim>\<open>exposeLoads\<close> decides in each state keeps the
  invariant of the load, and so do the sending of the packets and the other events in the
  life of a load.
\<close>

section \<open>The decision\<close>

text \<open>The two flags that say which access is due.\<close>

definition set_need :: "bool \<Rightarrow> bool \<Rightarrow> bool \<Rightarrow> SDO \<Rightarrow> SDO" where
  "set_need split a b d = set_needExpose split a (set_needValidate split b d)"

lemma set_need_norm:
  "set_needExpose split a d = set_need split a (needValidate split d) d" "set_needValidate split b d = set_need split (needExpose split d) b d"
  by (cases d; simp add: set_need_def set_needExpose_def set_needValidate_def needExpose_def needValidate_def)+

lemma set_need_same: "set_need split (needExpose split d) (needValidate split d) d = d"
  by (cases d) (simp add: set_need_def set_needExpose_def set_needValidate_def needExpose_def needValidate_def)

lemma set_need_sel [simp]:
  "needExpose split (set_need split a b d) = a" "needValidate split (set_need split a b d) = b"
  "set_need split a b (set_need split a' b' d) = set_need split a b d"
  "oblS (set_need split a b d) = oblS d" "MLDOM_state (set_need split a b d) = MLDOM_state d" "doneWB (set_need split a b d) = doneWB d"
  "doneWB_byOblS (set_need split a b d) = doneWB_byOblS d" "valPred_onMiss (set_need split a b d) = valPred_onMiss d"
  "done_locPred_update (set_need split a b d) = done_locPred_update d" "obls_TLB_Hit (set_need split a b d) = obls_TLB_Hit d"
  "halves_ok split' (set_need split a b d) = halves_ok split' d"
  by (simp_all add: set_need_def needExpose_def needValidate_def set_needExpose_def set_needValidate_def halves_ok_def)

lemma on_sdo_on_sdo [simp]: "on_sdo f (on_sdo g i) = on_sdo (f \<circ> g) i"
  by (simp add: on_sdo_def)

lemma need_keep [simp]:
  "no_WB given (on_sdo (set_need split a b) i) = no_WB given i" "WB_by_oblS given (on_sdo (set_need split a b) i) = WB_by_oblS given i"
  "pred_inv sc rnd u (on_sdo (set_need split a b) i) p = pred_inv sc rnd u i p"
  by (simp_all add: no_WB_def WB_by_oblS_def pred_inv_def)

text \<open>A load whose second access is due, but has not been sent.\<close>

definition due_inv ::
  "sdo_config \<Rightarrow> ('g \<Rightarrow> nat \<times> 'g) \<Rightarrow> bool \<Rightarrow> bool \<Rightarrow> 8 word list option \<Rightarrow> DynInst \<Rightarrow> loc_pred \<Rightarrow> bool" where
  "due_inv sc rnd u split given i p \<longleftrightarrow> load_inv sc rnd u split Not_sent given i p \<and> is_due split (sdo i) \<and>
     (fault i = None \<longrightarrow> \<not> isExposeSent i \<and> \<not> isExposeCompleted i) \<and>
     (MLDOM_state (sdo i) \<in> {Some MLDOM_STATE_AC, Some MLDOM_STATE_ACB, Some MLDOM_STATE_ACb} \<longrightarrow> (needExpose split (sdo i) \<longleftrightarrow> u) \<and> fault i = None) \<and>
     vldData (ldst i) \<noteq> None"

lemma due_after_hit:
  assumes base: "base_inv sc split i" and pred: "pred_inv sc rnd u i p" and wb: "WB_by_oblS given i" and upd: "done_locPred_update (sdo i)"
    and hit: "ob_Hit (oblS (sdo i))" and st: "MLDOM_state (sdo i) = Some MLDOM_STATE_ABC \<and> ob_Complete (oblS (sdo i)) \<or>
      MLDOM_state (sdo i) = Some MLDOM_STATE_AbC \<and> \<not> ob_Complete (oblS (sdo i))"
    and es: "fault i = None \<longrightarrow> \<not> isExposeSent i \<and> \<not> isExposeCompleted i" and v: "vldData (ldst i) \<noteq> None" and tlb: "obls_TLB_Hit (sdo i)"
  shows "due_inv sc rnd u split given (on_sdo (set_need split k (\<not> k)) i) p"
proof -
  have "base_inv sc split (on_sdo (set_need split k (\<not> k)) i)" using base tlb by (simp add: base_inv_def)
  moreover have "any_post split Not_sent (on_sdo (set_need split k (\<not> k)) i)" using es v by (auto simp: any_post_def is_due_def)
  ultimately show ?thesis
    using pred wb upd hit st es v by (auto simp: due_inv_def load_inv_def state_inv_at(9) is_due_def)
qed

lemma due_validation:
  assumes base: "base_inv sc split i" and pred: "pred_inv sc rnd u i p" and wb: "no_WB given i"
    and st: "MLDOM_state (sdo i) = Some MLDOM_STATE_AC" "\<not> ob_Complete (oblS (sdo i))"
    and es: "fault i = None" "\<not> isExposeSent i" "\<not> isExposeCompleted i" and v: "vldData (ldst i) \<noteq> None" and tlb: "obls_TLB_Hit (sdo i)"
    and ready: "readyToExpose i"
  shows "due_inv sc rnd u split given (on_sdo (set_need split u (\<not> u)) i) p"
proof -
  have "base_inv sc split (on_sdo (set_need split u (\<not> u)) i)" using base tlb by (simp add: base_inv_def)
  moreover have "val_post u split Not_sent (on_sdo (set_need split u (\<not> u)) i)" using es v ready by (auto simp: val_post_def is_due_def)
  ultimately show ?thesis
    using pred wb st es v by (auto simp: due_inv_def load_inv_def state_inv_at(4) is_due_def)
qed

text \<open>The part of \<^verbatim>\<open>expose_decide\<close> behind the states: a packet is sent.\<close>

definition send_decision :: "sdo_config \<Rightarrow> bool \<Rightarrow> 'g LoadCtx \<Rightarrow> (post_action \<times> 'g LoadCtx) option" where
  "send_decision sc split s = do {
     unsafe \<leftarrow> perfect_unsafe sc (lc_pred s);
     let s = (if unsafe then on_inst (on_sdo (set_needValidate split False \<circ> set_needExpose split True)) s else s);
     let d = sdo (lc_inst s);
     assertion (\<not> (needExpose split d \<and> needValidate split d));
     assertion (needExpose split d \<or> needValidate split d);
     Some (Send_post (needExpose split d), s)
   }"

lemma expose_decide_eq:
  "expose_decide c sc rnd acc split s = do {
     (a, s) \<leftarrow> expose_state c sc rnd acc split s; case a of Some a \<Rightarrow> Some (a, s) | None \<Rightarrow> send_decision sc split s }"
  unfolding expose_decide_def send_decision_def by (rule refl)

lemma send_decision_eq:
  assumes u: "perfect_unsafe sc (lc_pred x) = Some u" and x: "lc_inst x = on_sdo (set_need split k (\<not> k)) i"
  shows "\<exists>x'. send_decision sc split x = Some (Send_post (u \<or> k), x') \<and> lc_inst x' = on_sdo (set_need split (u \<or> k) (\<not> (u \<or> k))) i \<and>
    lc_pred x' = lc_pred x \<and> lc_results x' = lc_results x"
  using u by (auto simp: send_decision_def x Let_def set_need_norm on_sdo_def)

text \<open>The choice after a hit.\<close>

lemma choose_post_cases:
  assumes "\<not> is_due split (sdo (lc_inst s))"
  obtains (skip) "choose_post sc split s =
      (Some No_second_access, on_inst (set_status ExposeCompleted \<circ> set_status ExposeSent \<circ> set_flag NeedDeletePostReq True) s)"
    | (post) k where "choose_post sc split s = (None, on_inst (on_sdo (set_need split k (\<not> k))) s)"
proof -
  have n: "\<not> needExpose split (sdo (lc_inst s))" "\<not> needValidate split (sdo (lc_inst s))" using assms by (auto simp: is_due_def)
  have e: "on_inst (on_sdo (set_needExpose split True)) s = on_inst (on_sdo (set_need split True False)) s"
    "on_inst (on_sdo (set_needValidate split True)) s = on_inst (on_sdo (set_need split False True)) s"
    using n by (simp_all add: on_inst_def on_sdo_def set_need_norm)
  show thesis
  proof (cases "\<not> expose_only sc \<and> disable_2ndld sc")
    case True
    then show thesis using skip by (simp add: choose_post_def)
  next
    case False
    define k where "k \<longleftrightarrow> expose_only sc \<or> ob_Hit_L0 (oblS (sdo (lc_inst s))) \<or> needExposeOnly (lc_inst s)"
    have "choose_post sc split s = (None, on_inst (on_sdo (set_need split k (\<not> k))) s)"
      using False by (auto simp: choose_post_def Let_def e k_def)
    then show thesis by (rule post)
  qed
qed

definition decided ::
  "sdo_config \<Rightarrow> ('g \<Rightarrow> nat \<times> 'g) \<Rightarrow> bool \<Rightarrow> bool \<Rightarrow> 8 word list option \<Rightarrow> 'g LoadCtx \<Rightarrow> post_action \<Rightarrow> 'g LoadCtx \<Rightarrow> bool" where
  "decided sc rnd u split given x a x' \<longleftrightarrow> (\<exists>given'. delivers given x given' x' \<and> load_inv sc rnd u split Not_sent given' (lc_inst x') (lc_pred x') \<and>
     (\<forall>k. a = Send_post k \<longrightarrow> due_inv sc rnd u split given' (lc_inst x') (lc_pred x') \<and> k = needExpose split (sdo (lc_inst x'))))"

lemma choose_decided:
  assumes base: "base_inv sc split (lc_inst y)" and pred: "pred_inv sc rnd u (lc_inst y) (lc_pred y)" and wb: "WB_by_oblS given' (lc_inst y)"
    and upd: "done_locPred_update (sdo (lc_inst y))" and hit: "ob_Hit (oblS (sdo (lc_inst y)))"
    and st: "MLDOM_state (sdo (lc_inst y)) = Some MLDOM_STATE_ABC \<and> ob_Complete (oblS (sdo (lc_inst y))) \<or>
      MLDOM_state (sdo (lc_inst y)) = Some MLDOM_STATE_AbC \<and> \<not> ob_Complete (oblS (sdo (lc_inst y)))"
    and es: "fault (lc_inst y) = None \<longrightarrow> \<not> isExposeSent (lc_inst y) \<and> \<not> isExposeCompleted (lc_inst y)" and v: "vldData (ldst (lc_inst y)) \<noteq> None"
    and tlb: "obls_TLB_Hit (sdo (lc_inst y))" and nd: "\<not> is_due split (sdo (lc_inst y))" and d: "delivers given x given' y"
  shows "\<exists>a x'. (case choose_post sc split y of (Some a, s) \<Rightarrow> Some (a, s) | (None, s) \<Rightarrow> send_decision sc split s) = Some (a, x') \<and>
    decided sc rnd u split given x a x'"
proof (rule choose_post_cases [OF nd, of sc])
  define z where "z = on_inst (set_status ExposeCompleted \<circ> set_status ExposeSent \<circ> set_flag NeedDeletePostReq True) y"
  assume c: "choose_post sc split y = (Some No_second_access, on_inst (set_status ExposeCompleted \<circ> set_status ExposeSent \<circ> set_flag NeedDeletePostReq True) y)"
  have "base_inv sc split (lc_inst z)" "pred_inv sc rnd u (lc_inst z) (lc_pred z)" "WB_by_oblS given' (lc_inst z)" "any_post split Not_sent (lc_inst z)"
    using base pred wb v by (auto simp: z_def base_inv_def pred_inv_def WB_by_oblS_def any_post_def)
  then have "load_inv sc rnd u split Not_sent given' (lc_inst z) (lc_pred z)"
    using upd hit st by (auto simp: load_inv_def state_inv_at(9) z_def)
  moreover have "delivers given x given' z" using d by (simp add: z_def)
  ultimately have "decided sc rnd u split given x No_second_access z" by (auto simp: decided_def)
  then show ?thesis by (auto simp: c z_def)
next
  fix k
  assume c: "choose_post sc split y = (None, on_inst (on_sdo (set_need split k (\<not> k))) y)"
  have u: "perfect_unsafe sc (lc_pred (on_inst (on_sdo (set_need split k (\<not> k))) y)) = Some u" using pred by (simp add: pred_inv_def)
  obtain x' where x': "send_decision sc split (on_inst (on_sdo (set_need split k (\<not> k))) y) = Some (Send_post (u \<or> k), x')"
    "lc_inst x' = on_sdo (set_need split (u \<or> k) (\<not> (u \<or> k))) (lc_inst y)" "lc_pred x' = lc_pred y" "lc_results x' = lc_results y"
    using send_decision_eq [OF u, of split k "lc_inst y"] by auto
  have "due_inv sc rnd u split given' (lc_inst x') (lc_pred x')"
    unfolding x'(2, 3) by (rule due_after_hit [OF base pred wb upd hit st es v tlb])
  moreover have "delivers given x given' x'" using d x'(4) by (simp add: delivers_def)
  ultimately have "decided sc rnd u split given x (Send_post (u \<or> k)) x'" by (auto simp: decided_def due_inv_def x'(2))
  then show ?thesis using x'(1) by (auto simp: c)
qed

section \<open>The states\<close>

text \<open>A load that \<^verbatim>\<open>exposeLoads\<close> may send.\<close>

definition exposable :: "DynInst \<Rightarrow> bool" where
  "exposable i \<longleftrightarrow> fault i = None \<and> \<not> isExposeSent i \<and> readyToExpose i \<and> vldData (ldst i) \<noteq> None"

lemma squash_decided:
  assumes "base_inv sc split (lc_inst x)" "pred_inv sc rnd u (lc_inst x) (lc_pred x)" "\<not> is_due split (sdo (lc_inst x))"
    "obls_TLB_Hit (sdo (lc_inst x)) \<longrightarrow> ob_Complete (oblS (sdo (lc_inst x)))" "a \<in> {Squash_load, Wait_for_squash}"
  shows "decided sc rnd u split given x a (undo_WB x)"
proof -
  have "base_inv sc split (lc_inst (undo_WB x))" "pred_inv sc rnd u (lc_inst (undo_WB x)) (lc_pred (undo_WB x))"
    using assms(1-3) by (simp_all add: undo_WB_def base_inv_def pred_inv_def is_due_def)
  moreover have m: "MLDOM_state (sdo (lc_inst (undo_WB x))) = Some MLDOM_STATE_toBeSquash" by (simp add: undo_WB_def)
  ultimately have "load_inv sc rnd u split Not_sent given (lc_inst (undo_WB x)) (lc_pred (undo_WB x))"
    unfolding load_inv_def state_inv_at(11) [OF m] using assms(3, 4) by (simp add: undo_WB_def is_due_def)
  moreover have "delivers given x given (undo_WB x)" by (simp add: delivers_def undo_WB_def)
  ultimately show ?thesis using assms(5) by (auto simp: decided_def)
qed

lemma expose_AB_ok:
  assumes inv: "load_inv sc rnd u split post given (lc_inst x) (lc_pred x)" and st: "MLDOM_state (sdo (lc_inst x)) = Some MLDOM_STATE_AB"
    and ex: "exposable (lc_inst x)" and tlb: "obls_TLB_Hit (sdo (lc_inst x))"
  shows "\<exists>a x'. do { (a, s) \<leftarrow> expose_AB sc rnd split x; case a of Some a \<Rightarrow> Some (a, s) | None \<Rightarrow> send_decision sc split s } = Some (a, x') \<and>
    decided sc rnd u split given x a x'"
proof -
  have s: "base_inv sc split (lc_inst x)" "pred_inv sc rnd u (lc_inst x) (lc_pred x)" "ob_Complete (oblS (sdo (lc_inst x)))" "WB_by_oblS given (lc_inst x)"
    "undecided split post (lc_inst x)" "ob_Hit (oblS (sdo (lc_inst x))) \<longleftrightarrow> \<not> valPred_onMiss (sdo (lc_inst x))"
    using inv by (simp_all add: load_inv_def state_inv_at(2) [OF st])
  define y where "y = set_MLDOM MLDOM_STATE_ABC x"
  have y: "base_inv sc split (lc_inst y)" "pred_inv sc rnd u (lc_inst y) (lc_pred y)" "ob_Complete (oblS (sdo (lc_inst y)))" "WB_by_oblS given (lc_inst y)"
    "undecided split post (lc_inst y)" "ob_Hit (oblS (sdo (lc_inst y))) \<longleftrightarrow> \<not> valPred_onMiss (sdo (lc_inst y))" "obls_TLB_Hit (sdo (lc_inst y))"
    "MLDOM_state (sdo (lc_inst y)) = Some MLDOM_STATE_ABC" "vldData (ldst (lc_inst y)) \<noteq> None"
    using s tlb ex by (simp_all add: y_def exposable_def)
  have nd: "\<not> is_due split (sdo (lc_inst y))" using y(5) by (simp add: undecided_def)
  show ?thesis
  proof (cases "ob_Hit (oblS (sdo (lc_inst y)))")
    case False
    have "expose_AB sc rnd split x = Some (Some Squash_load, undo_WB y)"
      using False y(3, 6) by (simp add: expose_AB_def y_def)
    moreover have "decided sc rnd u split given y Squash_load (undo_WB y)" by (rule squash_decided) (use y nd in auto)
    then have "decided sc rnd u split given x Squash_load (undo_WB y)" by (simp add: decided_def y_def)
    ultimately show ?thesis by auto
  next
    case True
    have ld: "isLoad (lc_inst y)" "\<not> isSquashed (lc_inst y)" "halves_ok split (sdo (lc_inst y))" using y(1) by (auto simp: base_inv_def)
    obtain l where l: "update_level 1 (sdo (lc_inst y)) = Some (Some l)" "real_level l" using hit_level [OF ld(3) True] by blast
    obtain w v where v: "updateLocationPredictor rnd True 1 y = Some v" "lc_inst v = on_sdo (predictor_updated w) (lc_inst y)"
      "perfect_unsafe sc (lc_pred v) = Some u" "lc_results v = lc_results y"
      using update_ok_load [OF ld(1, 2) y(2) l] by metis
    have "expose_AB sc rnd split x = Some (choose_post sc split v)"
      using True y(3) v(1) by (simp add: expose_AB_def y_def)
    moreover have "\<exists>a x'. (case choose_post sc split v of (Some a, s) \<Rightarrow> Some (a, s) | (None, s) \<Rightarrow> send_decision sc split s) = Some (a, x') \<and>
      decided sc rnd u split given x a x'"
    proof (rule choose_decided)
      show "base_inv sc split (lc_inst v)" "pred_inv sc rnd u (lc_inst v) (lc_pred v)" "WB_by_oblS given (lc_inst v)" using y v(3) by (simp_all add: v(2))
      show "fault (lc_inst v) = None \<longrightarrow> \<not> isExposeSent (lc_inst v) \<and> \<not> isExposeCompleted (lc_inst v)" using y(5) by (simp add: v(2) undecided_def)
      show "\<not> is_due split (sdo (lc_inst v))" using nd by (simp add: v(2) is_due_def)
      show "delivers given x given v" using v(4) by (simp add: delivers_def y_def)
    qed (use y True in \<open>simp_all add: v(2)\<close>)
    ultimately show ?thesis by (auto split: prod.splits option.splits)
  qed
qed

lemma expose_Ab_ok:
  assumes cfg: "isInvisibleSpec c" and inv: "load_inv sc rnd u split post given (lc_inst x) (lc_pred x)"
    and st: "MLDOM_state (sdo (lc_inst x)) = Some MLDOM_STATE_Ab" and ex: "exposable (lc_inst x)" and tlb: "obls_TLB_Hit (sdo (lc_inst x))"
  shows "\<exists>a x'. do { (a, s) \<leftarrow> expose_Ab c sc rnd acc split x; case a of Some a \<Rightarrow> Some (a, s) | None \<Rightarrow> send_decision sc split s } = Some (a, x') \<and>
    decided sc rnd u split given x a x'"
proof -
  obtain cmd where s: "base_inv sc split (lc_inst x)" "pred_inv sc rnd u (lc_inst x) (lc_pred x)" "no_WB given (lc_inst x)" "undecided split post (lc_inst x)"
    "\<not> ob_Complete (oblS (sdo (lc_inst x)))" "ob_Hit (oblS (sdo (lc_inst x)))" "pkt_delayed_wb (sdo (lc_inst x)) = Some cmd" "isSpec cmd"
    using inv by (auto simp: load_inv_def state_inv_at(3) [OF st])
  define y where "y = set_MLDOM MLDOM_STATE_AbC x"
  have y: "base_inv sc split (lc_inst y)" "no_WB given (lc_inst y)" "pred_inv sc rnd u (lc_inst y) (lc_pred y)" "ob_Hit (oblS (sdo (lc_inst y)))"
    using s by (simp_all add: y_def)
  obtain z v given' w where v: "writeback c acc cmd y = Some z" "updateLocationPredictor rnd True 1 (set_doneWB True z) = Some v"
    "base_inv sc split (lc_inst v)" "WB_by_oblS given' (lc_inst v)" "pred_inv sc rnd u (lc_inst v) (lc_pred v)" "delivers given y given' v"
    "sdo (lc_inst v) = predictor_updated w ((sdo (lc_inst y))\<lparr>doneWB := True, doneWB_byOblS := True\<rparr>)"
    "val_post u split post (lc_inst y) \<longrightarrow> val_post u split post (lc_inst v)"
    "written_back (lc_inst y) (lc_inst z)" "lc_inst v = on_sdo (predictor_updated w) (lc_inst (set_doneWB True z))"
    by (rule WB_and_update [OF cfg y s(8), of acc post])
  note k = written_back_keep [OF v(9)]
  have "expose_Ab c sc rnd acc split x = Some (choose_post sc split v)"
    using s(3, 6, 7) v(1, 2) unfolding expose_Ab_def Let_def y_def [symmetric] by (simp add: y_def no_WB_def k(6) [unfolded y_def])
  moreover have "\<exists>a x'. (case choose_post sc split v of (Some a, s) \<Rightarrow> Some (a, s) | (None, s) \<Rightarrow> send_decision sc split s) = Some (a, x') \<and>
    decided sc rnd u split given x a x'"
  proof (rule choose_decided)
    show "base_inv sc split (lc_inst v)" "pred_inv sc rnd u (lc_inst v) (lc_pred v)" "WB_by_oblS given' (lc_inst v)" by (fact v)+
    show "fault (lc_inst v) = None \<longrightarrow> \<not> isExposeSent (lc_inst v) \<and> \<not> isExposeCompleted (lc_inst v)"
      using s(4) v(9) by (auto simp: v(10) undecided_def written_back_def y_def)
    show "\<not> is_due split (sdo (lc_inst v))" using s(4) by (simp add: v(7) undecided_def is_due_def y_def)
    show "vldData (ldst (lc_inst v)) \<noteq> None" using ex by (simp add: v(10) k(7) y_def exposable_def)
    show "delivers given x given' v" using v(6) by (simp add: y_def)
  qed (use s tlb in \<open>simp_all add: v(7) y_def\<close>)
  ultimately show ?thesis by (auto split: prod.splits option.splits)
qed

text \<open>Every decision of \<^verbatim>\<open>exposeLoads\<close>.\<close>

lemma not_sent_states:
  assumes inv: "load_inv sc rnd u split post given i p" and ex: "exposable i"
  shows "post = Not_sent \<and> (MLDOM_state (sdo i) \<in> {Some MLDOM_STATE_A, Some MLDOM_STATE_AB, Some MLDOM_STATE_Ab, Some MLDOM_STATE_toBeSquash} \<and>
    \<not> is_due split (sdo i) \<or> due_inv sc rnd u split given i p)"
proof -
  have f: "fault i = None" "\<not> isExposeSent i" "vldData (ldst i) \<noteq> None" using ex by (auto simp: exposable_def)
  have s: "post = Not_sent \<and> (MLDOM_state (sdo i) \<in> {Some MLDOM_STATE_A, Some MLDOM_STATE_AB, Some MLDOM_STATE_Ab, Some MLDOM_STATE_toBeSquash} \<and>
    \<not> is_due split (sdo i) \<or> is_due split (sdo i) \<and> \<not> isExposeCompleted i \<and>
    (MLDOM_state (sdo i) \<in> {Some MLDOM_STATE_AC, Some MLDOM_STATE_ACB, Some MLDOM_STATE_ACb} \<longrightarrow> (needExpose split (sdo i) \<longleftrightarrow> u)))"
    using inv f unfolding load_inv_def state_inv_def
    by (cases "MLDOM_state (sdo i)"; cases post)
      (auto simp: Let_def undecided_def any_post_def val_post_def answered_post_def split: MLDOM_STATE_Type.splits)
  then show ?thesis using inv f by (auto simp: due_inv_def)
qed

lemma expose_A_ok:
  assumes inv: "load_inv sc rnd u split post given (lc_inst x) (lc_pred x)" and st: "MLDOM_state (sdo (lc_inst x)) = Some MLDOM_STATE_A"
    and ex: "exposable (lc_inst x)" and tlb: "obls_TLB_Hit (sdo (lc_inst x))"
  shows "\<exists>a x'. send_decision sc split (on_inst (on_sdo (set_needValidate split True)) (set_MLDOM MLDOM_STATE_AC x)) = Some (a, x') \<and>
    decided sc rnd u split given x a x'"
proof -
  have s: "base_inv sc split (lc_inst x)" "pred_inv sc rnd u (lc_inst x) (lc_pred x)" "\<not> ob_Complete (oblS (sdo (lc_inst x)))" "no_WB given (lc_inst x)"
    "undecided split post (lc_inst x)"
    using inv by (simp_all add: load_inv_def state_inv_at(1) [OF st])
  define y where "y = set_MLDOM MLDOM_STATE_AC x"
  have y: "base_inv sc split (lc_inst y)" "pred_inv sc rnd u (lc_inst y) (lc_pred y)" "no_WB given (lc_inst y)" "MLDOM_state (sdo (lc_inst y)) = Some MLDOM_STATE_AC"
    "\<not> ob_Complete (oblS (sdo (lc_inst y)))" "fault (lc_inst y) = None" "\<not> isExposeSent (lc_inst y)" "\<not> isExposeCompleted (lc_inst y)"
    "vldData (ldst (lc_inst y)) \<noteq> None" "obls_TLB_Hit (sdo (lc_inst y))" "readyToExpose (lc_inst y)"
    using s tlb ex by (simp_all add: y_def exposable_def undecided_def)
  have nd: "\<not> needExpose split (sdo (lc_inst y))" using s(5) by (simp add: undecided_def is_due_def y_def)
  then have e: "on_inst (on_sdo (set_needValidate split True)) y = on_inst (on_sdo (set_need split False (\<not> False))) y"
    by (simp add: on_inst_def on_sdo_def set_need_norm)
  have u: "perfect_unsafe sc (lc_pred (on_inst (on_sdo (set_need split False (\<not> False))) y)) = Some u" using y(2) by (simp add: pred_inv_def)
  obtain x' where x': "send_decision sc split (on_inst (on_sdo (set_need split False (\<not> False))) y) = Some (Send_post u, x')"
    "lc_inst x' = on_sdo (set_need split u (\<not> u)) (lc_inst y)" "lc_pred x' = lc_pred y" "lc_results x' = lc_results y"
    using send_decision_eq [OF u, of split False "lc_inst y"] by auto
  have "due_inv sc rnd u split given (lc_inst x') (lc_pred x')" unfolding x'(2, 3) by (rule due_validation [OF y])
  moreover have "delivers given x given x'" using x'(4) by (simp add: delivers_def y_def)
  ultimately have "decided sc rnd u split given x (Send_post u) x'" by (auto simp: decided_def due_inv_def x'(2))
  then show ?thesis using x'(1) unfolding y_def [symmetric] e by blast
qed

lemma due_states:
  assumes "due_inv sc rnd u split given i p"
  shows "MLDOM_state (sdo i) \<in> {Some MLDOM_STATE_ABC, Some MLDOM_STATE_AbC, Some MLDOM_STATE_AbCB, Some MLDOM_STATE_AC, Some MLDOM_STATE_ACB, Some MLDOM_STATE_ACb}"
  using assms by (cases "MLDOM_state (sdo i)")
    (auto simp: due_inv_def load_inv_def state_inv_def Let_def undecided_def answered_post_def split: MLDOM_STATE_Type.splits)

lemma due_inv_need:
  assumes inv: "due_inv sc rnd u split given i p"
    and k: "MLDOM_state (sdo i) \<in> {Some MLDOM_STATE_AC, Some MLDOM_STATE_ACB, Some MLDOM_STATE_ACb} \<longrightarrow> k = u"
  shows "due_inv sc rnd u split given (on_sdo (set_need split k (\<not> k)) i) p"
proof -
  let ?j = "on_sdo (set_need split k (\<not> k)) i"
  have d: "base_inv sc split i" "pred_inv sc rnd u i p" "state_inv u split Not_sent given i" "is_due split (sdo i)" "vldData (ldst i) \<noteq> None"
    "fault i = None \<longrightarrow> \<not> isExposeSent i \<and> \<not> isExposeCompleted i"
    "MLDOM_state (sdo i) \<in> {Some MLDOM_STATE_AC, Some MLDOM_STATE_ACB, Some MLDOM_STATE_ACb} \<longrightarrow> (needExpose split (sdo i) \<longleftrightarrow> u) \<and> fault i = None"
    using inv by (simp_all add: due_inv_def load_inv_def)
  have b: "base_inv sc split ?j" using d(1, 4) by (simp add: base_inv_def)
  have a: "any_post split Not_sent i \<Longrightarrow> any_post split Not_sent ?j" "k = u \<Longrightarrow> val_post u split Not_sent i \<Longrightarrow> val_post u split Not_sent ?j"
    using d(4-6) by (auto simp: any_post_def val_post_def is_due_def)
  have "state_inv u split Not_sent given ?j"
    using due_states [OF inv]
  proof (elim insertE emptyE)
    assume m: "MLDOM_state (sdo i) = Some MLDOM_STATE_AC"
    then show ?thesis using d(3) k a(2) by (simp add: state_inv_at(4))
  next
    assume m: "MLDOM_state (sdo i) = Some MLDOM_STATE_ACB"
    then show ?thesis using d(3) k a(2) by (simp add: state_inv_at(5))
  next
    assume m: "MLDOM_state (sdo i) = Some MLDOM_STATE_ACb"
    then show ?thesis using d(3) k a(2) by (cases u) (simp_all add: state_inv_at(6))
  qed (use d(3) a(1) in \<open>simp_all add: state_inv_at(9)\<close>)
  then show ?thesis using b d k by (simp add: due_inv_def load_inv_def is_due_def)
qed

lemma expose_due_ok:
  assumes inv: "due_inv sc rnd u split given (lc_inst x) (lc_pred x)"
  shows "\<exists>a x'. send_decision sc split x = Some (a, x') \<and> decided sc rnd u split given x a x'"
proof -
  define k where "k = needExpose split (sdo (lc_inst x))"
  have "needValidate split (sdo (lc_inst x)) \<longleftrightarrow> \<not> k" using inv by (auto simp: due_inv_def load_inv_def base_inv_def is_due_def k_def)
  then have "set_need split k (\<not> k) (sdo (lc_inst x)) = sdo (lc_inst x)"
    using set_need_same [of split "sdo (lc_inst x)"] by (simp add: k_def)
  then have i: "lc_inst x = on_sdo (set_need split k (\<not> k)) (lc_inst x)" by (simp add: on_sdo_def)
  have u: "perfect_unsafe sc (lc_pred x) = Some u" using inv by (simp add: due_inv_def load_inv_def pred_inv_def)
  obtain x' where x': "send_decision sc split x = Some (Send_post (u \<or> k), x')"
    "lc_inst x' = on_sdo (set_need split (u \<or> k) (\<not> (u \<or> k))) (lc_inst x)" "lc_pred x' = lc_pred x" "lc_results x' = lc_results x"
    using send_decision_eq [OF u i] by auto
  have "due_inv sc rnd u split given (lc_inst x') (lc_pred x')"
    unfolding x'(2, 3) by (rule due_inv_need [OF inv]) (use inv in \<open>auto simp: due_inv_def k_def\<close>)
  moreover have "delivers given x given x'" using x'(4) by (simp add: delivers_def)
  ultimately have "decided sc rnd u split given x (Send_post (u \<or> k)) x'" by (auto simp: decided_def due_inv_def x'(2))
  then show ?thesis using x'(1) by blast
qed

lemma expose_decide_ok:
  assumes cfg: "isInvisibleSpec c" and inv: "load_inv sc rnd u split post given (lc_inst x) (lc_pred x)" and ex: "exposable (lc_inst x)"
  shows "\<exists>a x'. expose_decide c sc rnd acc split x = Some (a, x') \<and> decided sc rnd u split given x a x'"
proof -
  have base: "base_inv sc split (lc_inst x)" "pred_inv sc rnd u (lc_inst x) (lc_pred x)" using inv by (auto simp: load_inv_def)
  have st: "MLDOM_state (sdo (lc_inst x)) \<in> {Some MLDOM_STATE_A, Some MLDOM_STATE_AB, Some MLDOM_STATE_Ab, Some MLDOM_STATE_toBeSquash} \<and>
    \<not> is_due split (sdo (lc_inst x)) \<or> due_inv sc rnd u split given (lc_inst x) (lc_pred x)" and post: "post = Not_sent"
    using not_sent_states [OF inv ex] by auto
  consider (miss) "\<not> obls_TLB_Hit (sdo (lc_inst x))" | (A) "obls_TLB_Hit (sdo (lc_inst x))" "MLDOM_state (sdo (lc_inst x)) = Some MLDOM_STATE_A"
    | (AB) "obls_TLB_Hit (sdo (lc_inst x))" "MLDOM_state (sdo (lc_inst x)) = Some MLDOM_STATE_AB"
    | (Ab) "obls_TLB_Hit (sdo (lc_inst x))" "MLDOM_state (sdo (lc_inst x)) = Some MLDOM_STATE_Ab"
    | (wait) "obls_TLB_Hit (sdo (lc_inst x))" "MLDOM_state (sdo (lc_inst x)) = Some MLDOM_STATE_toBeSquash" "\<not> is_due split (sdo (lc_inst x))"
    | (due) "obls_TLB_Hit (sdo (lc_inst x))" "due_inv sc rnd u split given (lc_inst x) (lc_pred x)"
      "MLDOM_state (sdo (lc_inst x)) \<notin> {Some MLDOM_STATE_A, Some MLDOM_STATE_AB, Some MLDOM_STATE_Ab}"
    using st by blast
  then show ?thesis
  proof cases
    case miss
    then have nd: "\<not> is_due split (sdo (lc_inst x))" "TLB_defense sc = 3" using base(1) by (auto simp: base_inv_def)
    have "expose_decide c sc rnd acc split x = Some (Squash_load, undo_WB x)"
      using miss nd(2) by (simp add: expose_decide_eq expose_state_def)
    moreover have "decided sc rnd u split given x Squash_load (undo_WB x)" by (rule squash_decided) (use base nd miss in auto)
    ultimately show ?thesis by blast
  next
    case A
    then show ?thesis using expose_A_ok [OF inv A(2) ex A(1)] by (simp add: expose_decide_eq expose_state_def)
  next
    case AB
    then show ?thesis using expose_AB_ok [OF inv AB(2) ex AB(1)] by (simp add: expose_decide_eq expose_state_def)
  next
    case Ab
    then show ?thesis using expose_Ab_ok [OF cfg inv Ab(2) ex Ab(1), of acc] by (simp add: expose_decide_eq expose_state_def)
  next
    case wait
    then have "expose_decide c sc rnd acc split x = Some (Wait_for_squash, x)"
      by (simp add: expose_decide_eq expose_state_def is_due_def)
    moreover have "decided sc rnd u split given x Wait_for_squash x" using inv post by (auto simp: decided_def delivers_def)
    ultimately show ?thesis by blast
  next
    case due
    then have "expose_decide c sc rnd acc split x = send_decision sc split x"
      by (auto simp: expose_decide_eq expose_state_def due_inv_def is_due_def)
    then show ?thesis using expose_due_ok [OF due(2)] by simp
  qed
qed

end
