(* ===== verification/Sequencer.thy ===== *)
theory Sequencer
  imports SDO_Load
begin

text \<open>
  The sequencer of a core (\<^verbatim>\<open>mem/ruby/system/Sequencer.cc\<close>): the tables of outstanding
  requests between the load/store unit and the cache controllers, the classification of
  packets, and the callbacks of the controllers, with the several answers of an oblivious
  load. The mode is that of oblivious execution (\<^verbatim>\<open>getMLDOMEnabled\<close>) without contention
  (\<^verbatim>\<open>getOblSContentionEnabled\<close>), in which the speculation buffer is not used; warm-up,
  cool-down and the tester are not modelled. The hash tables are association lists. Packets
  of an oblivious load are never merged with others: the field \<^verbatim>\<open>aliased_reqIdx\<close> that asks
  for it is \<open>-1\<close> in every packet. \<open>buf pkt\<close> is the content of the buffer a packet points to.
\<close>

datatype RubyRequestType =
    RT_LD | RT_ST | RT_ATOMIC | RT_ATOMIC_RETURN | RT_ATOMIC_NO_RETURN | RT_IFETCH | RT_IO | RT_REPLACEMENT
  | RT_Load_Linked | RT_Store_Conditional | RT_RMW_Read | RT_RMW_Write | RT_Locked_RMW_Read | RT_Locked_RMW_Write
  | RT_COMMIT | RT_NULL | RT_FLUSH | RT_Release | RT_Acquire | RT_AcquireRelease
  | RT_SPEC_LD | RT_EXPOSE | RT_VALIDATE | RT_SPEC_FLUSH
  | RT_SPEC_LD_L0 | RT_SPEC_LD_L1 | RT_SPEC_LD_L2 | RT_SPEC_LD_Mem | RT_SPEC_LD_Perfect | RT_SPEC_LD_PerfectUnsafe

datatype RequestStatus = RS_Ready | RS_Issued | RS_BufferFull | RS_Aliased | RS_Merged | RS_NULL

record SequencerRequest =
  sr_pkt :: Packet
  sr_type :: RubyRequestType
  dependentRequests :: "Packet list"

type_synonym DataBlock = "8 word list"
type_synonym SpecldKeyType = "Addr \<times> nat"
type_synonym RequestTable = "(Addr \<times> SequencerRequest) list"

record Answer = \<comment> \<open>a call of \<^verbatim>\<open>ruby_hit_callback\<close>\<close>
  an_pkt :: Packet
  an_data :: "8 word list option" \<comment> \<open>the bytes copied to the buffer of the packet\<close>
  an_sc :: "bool option" \<comment> \<open>\<^verbatim>\<open>setExtraData\<close> of a store conditional\<close>

record Sequencer =
  m_readRequestTable :: RequestTable
  m_writeRequestTable :: RequestTable
  m_specldRequestTable :: "(SpecldKeyType \<times> SequencerRequest) list"
  m_outstanding_count :: int
  m_max_outstanding_requests :: int
  blockSizeBits :: nat
  m_block_map :: "Addr list" \<comment> \<open>lines of the controller blocked by a locked access\<close>
  m_locked :: "Addr list" \<comment> \<open>lines locked for this core in the data cache\<close>
  m_mandatory_q :: "(Packet \<times> RubyRequestType) list"
  answered :: "Answer list"

definition mk_SequencerRequest :: "Packet \<Rightarrow> RubyRequestType \<Rightarrow> SequencerRequest" where
  "mk_SequencerRequest pkt ty = \<lparr>sr_pkt = pkt, sr_type = ty, dependentRequests = []\<rparr>"

definition mk_Sequencer :: "int \<Rightarrow> nat \<Rightarrow> Sequencer" where
  "mk_Sequencer n bits = \<lparr>m_readRequestTable = [], m_writeRequestTable = [], m_specldRequestTable = [], m_outstanding_count = 0,
     m_max_outstanding_requests = n, blockSizeBits = bits, m_block_map = [], m_locked = [], m_mandatory_q = [], answered = []\<rparr>"

section \<open>Addresses and tables\<close>

definition maskLowOrderBits :: "Addr \<Rightarrow> nat \<Rightarrow> Addr" where
  "maskLowOrderBits a number = (if number \<ge> 63 then a AND (- 1) else a AND push_bit number (- 1))"

definition makeLineAddress :: "Sequencer \<Rightarrow> Addr \<Rightarrow> Addr" where
  "makeLineAddress s a = maskLowOrderBits a (blockSizeBits s)"

definition getOffset :: "Sequencer \<Rightarrow> Addr \<Rightarrow> nat" where
  "getOffset s a = unat (take_bit (blockSizeBits s) a)"

abbreviation pkt_addr :: "Packet \<Rightarrow> Addr" where
  "pkt_addr pkt \<equiv> getPaddr (pk_req pkt)"

abbreviation pkt_line :: "Sequencer \<Rightarrow> Packet \<Rightarrow> Addr" where
  "pkt_line s pkt \<equiv> makeLineAddress s (pkt_addr pkt)"

definition erase :: "'k \<Rightarrow> ('k \<times> 'v) list \<Rightarrow> ('k \<times> 'v) list" where
  "erase k t = filter (\<lambda>e. fst e \<noteq> k) t"

definition assign :: "'k \<Rightarrow> 'v \<Rightarrow> ('k \<times> 'v) list \<Rightarrow> ('k \<times> 'v) list" where
  "assign k v t = map (\<lambda>e. if fst e = k then (k, v) else e) t"

definition count_ok :: "Sequencer \<Rightarrow> bool" where
  "count_ok s \<longleftrightarrow> m_outstanding_count s =
     int (length (m_writeRequestTable s) + length (m_readRequestTable s) + length (m_specldRequestTable s))"

text \<open>\<^verbatim>\<open>DataBlock::getData\<close> and \<^verbatim>\<open>setData\<close>.\<close>

definition getData :: "DataBlock \<Rightarrow> nat \<Rightarrow> nat \<Rightarrow> 8 word list option" where
  "getData data offset len = do { assertion (offset + len \<le> length data); Some (take len (drop offset data)) }"

definition setData :: "DataBlock \<Rightarrow> 8 word list \<Rightarrow> nat \<Rightarrow> nat \<Rightarrow> DataBlock option" where
  "setData data bytes offset len = do {
     assertion (offset + len \<le> length data \<and> len \<le> length bytes);
     Some (take offset data @ take len bytes @ drop (offset + len) data)
   }"

definition read_bytes :: "Sequencer \<Rightarrow> Packet \<Rightarrow> DataBlock \<Rightarrow> 8 word list option" where
  "read_bytes s pkt data = getData data (getOffset s (pkt_addr pkt)) (getSize (pk_req pkt))"

section \<open>Requests\<close>

definition store_type :: "RubyRequestType \<Rightarrow> bool" where
  "store_type ty \<longleftrightarrow> ty \<in> {RT_ST, RT_RMW_Read, RT_RMW_Write, RT_Load_Linked, RT_Store_Conditional, RT_Locked_RMW_Read,
     RT_Locked_RMW_Write, RT_FLUSH}"

definition oblivious_type :: "RubyRequestType \<Rightarrow> bool" where
  "oblivious_type ty \<longleftrightarrow> ty \<in> {RT_SPEC_LD_L0, RT_SPEC_LD_L1, RT_SPEC_LD_Mem, RT_SPEC_LD_Perfect, RT_SPEC_LD_PerfectUnsafe}"

definition isBlocked :: "Sequencer \<Rightarrow> Addr \<Rightarrow> bool" where
  "isBlocked s line \<longleftrightarrow> line \<in> set (m_block_map s)"

text \<open>An exposure or validation of a line that is being read waits for the data of that read.\<close>

definition insertRead :: "Packet \<Rightarrow> RubyRequestType \<Rightarrow> Sequencer \<Rightarrow> RequestStatus \<times> Sequencer" where
  "insertRead pkt ty s = (let line = pkt_line s pkt in
     if map_of (m_writeRequestTable s) line \<noteq> None then (RS_Aliased, s)
     else case map_of (m_readRequestTable s) line of
       None \<Rightarrow> (RS_Ready, s\<lparr>m_readRequestTable := m_readRequestTable s @ [(line, mk_SequencerRequest pkt ty)],
                            m_outstanding_count := m_outstanding_count s + 1\<rparr>)
     | Some r \<Rightarrow>
         if (isExpose (pk_cmd pkt) \<or> isValidate (pk_cmd pkt)) \<and> sr_type r = RT_LD
         then (RS_Merged, s\<lparr>m_readRequestTable :=
                 assign line (r\<lparr>dependentRequests := dependentRequests r @ [pkt]\<rparr>) (m_readRequestTable s)\<rparr>)
         else (RS_Aliased, s))"

definition insertRequest :: "Packet \<Rightarrow> RubyRequestType \<Rightarrow> Sequencer \<Rightarrow> (RequestStatus \<times> Sequencer) option" where
  "insertRequest pkt ty s = do {
     assertion (count_ok s);
     let line = pkt_line s pkt;
     if isBlocked s line \<and> ty \<noteq> RT_Locked_RMW_Write then Some (RS_Aliased, s)
     else do {
       let (st, s) = (if store_type ty
         then (if map_of (m_readRequestTable s) line \<noteq> None \<or> map_of (m_writeRequestTable s) line \<noteq> None then (RS_Aliased, s)
               else (RS_Ready, s\<lparr>m_writeRequestTable := m_writeRequestTable s @ [(line, mk_SequencerRequest pkt ty)],
                                 m_outstanding_count := m_outstanding_count s + 1\<rparr>))
         else insertRead pkt ty s);
       assertion (st = RS_Ready \<longrightarrow> count_ok s);
       Some (st, s)
     }
   }"

definition ld_idx :: "Packet \<Rightarrow> nat" where
  "ld_idx pkt = pk_reqIdx pkt * 2 + (if pk_first pkt then 0 else 1)"

definition insertSpecldRequest :: "Packet \<Rightarrow> RubyRequestType \<Rightarrow> Sequencer \<Rightarrow> (RequestStatus \<times> Sequencer) option" where
  "insertSpecldRequest pkt ty s = do {
     assertion (count_ok s);
     let line = pkt_line s pkt;
     let key = (line, ld_idx pkt);
     if isBlocked s line \<and> ty \<noteq> RT_Locked_RMW_Write then Some (RS_Aliased, s)
     else do {
       assertion (oblivious_type ty);
       if map_of (m_specldRequestTable s) key \<noteq> None then Some (RS_Aliased, s)
       else do {
         let s = s\<lparr>m_specldRequestTable := m_specldRequestTable s @ [(key, mk_SequencerRequest pkt ty)],
                   m_outstanding_count := m_outstanding_count s + 1\<rparr>;
         assertion (count_ok s);
         Some (RS_Ready, s)
       }
     }
   }"

text \<open>The type under which a packet is entered in the tables and the one told to the controller.\<close>

definition request_type :: "Packet \<Rightarrow> (RubyRequestType \<times> RubyRequestType) option" where
  "request_type pkt = (let req = pk_req pkt; both = (\<lambda>ty. Some (ty, ty)) in case pk_cmd pkt of
     ReadSpecL0Req \<Rightarrow> both RT_SPEC_LD_L0
   | ReadSpecL1Req \<Rightarrow> both RT_SPEC_LD_L1
   | ReadSpecMemReq \<Rightarrow> both RT_SPEC_LD_Mem
   | ReadSpecPerfectReq \<Rightarrow> both RT_SPEC_LD_Perfect
   | ReadSpecPerfectUnsafeReq \<Rightarrow> both RT_SPEC_LD_PerfectUnsafe
   | ReadSpecReq \<Rightarrow> None
   | ExposeReq \<Rightarrow> do { assertion (pk_isSplit pkt \<or> pk_first pkt); both RT_LD }
   | ValidateReq \<Rightarrow> do { assertion (pk_isSplit pkt \<or> pk_first pkt); both RT_LD }
   | WriteReq \<Rightarrow> (if isLLSC req then Some (RT_Store_Conditional, RT_ATOMIC)
                  else if isLockedRMW req then Some (RT_Locked_RMW_Write, RT_ST) else both RT_ST)
   | ReadReq \<Rightarrow> (if isLLSC req then Some (RT_Load_Linked, RT_ATOMIC)
                 else if isLockedRMW req then Some (RT_Locked_RMW_Read, RT_ST)
                 else if isInstFetch req then both RT_IFETCH
                 else if isStoreCheck req then Some (RT_RMW_Read, RT_ST) else both RT_LD)
   | FlushReq \<Rightarrow> both RT_FLUSH)"

definition makeRequest :: "Packet \<Rightarrow> Sequencer \<Rightarrow> (RequestStatus \<times> Sequencer) option" where
  "makeRequest pkt s =
     (if m_outstanding_count s \<ge> m_max_outstanding_requests s then Some (RS_BufferFull, s)
      else do {
        (primary_type, secondary_type) \<leftarrow> request_type pkt;
        (st, s) \<leftarrow> (if isSpec (pk_cmd pkt) then insertSpecldRequest pkt primary_type s else insertRequest pkt primary_type s);
        if st = RS_Merged then Some (RS_Issued, s)
        else if st \<noteq> RS_Ready then Some (st, s)
        else Some (RS_Issued, s\<lparr>m_mandatory_q := m_mandatory_q s @ [(pkt, secondary_type)]\<rparr>)
      })"

section \<open>Callbacks of the controllers\<close>

definition markRemoved :: "Sequencer \<Rightarrow> Sequencer option" where
  "markRemoved s = do {
     let s = s\<lparr>m_outstanding_count := m_outstanding_count s - 1\<rparr>;
     assertion (count_ok s);
     Some s
   }"

definition answer :: "Packet \<Rightarrow> 8 word list option \<Rightarrow> bool option \<Rightarrow> Sequencer \<Rightarrow> Sequencer" where
  "answer pkt bytes sc s = s\<lparr>answered := answered s @ [\<lparr>an_pkt = pkt, an_data = bytes, an_sc = sc\<rparr>]\<rparr>"

text \<open>
  The last part of a callback: a read copies the bytes of the line to the packet, a store
  that has not failed changes the line.
\<close>

definition hitCallback ::
  "(Packet \<Rightarrow> 8 word list) \<Rightarrow> SequencerRequest \<Rightarrow> DataBlock \<Rightarrow> bool \<Rightarrow> bool option \<Rightarrow> Sequencer \<Rightarrow> (DataBlock \<times> Sequencer) option" where
  "hitCallback buf r data llscSuccess sc s = (let pkt = sr_pkt r in
     if sr_type r \<in> {RT_LD, RT_SPEC_LD, RT_SPEC_LD_L0, RT_SPEC_LD_L1, RT_SPEC_LD_Mem, RT_SPEC_LD_Perfect, RT_SPEC_LD_PerfectUnsafe,
          RT_IFETCH, RT_RMW_Read, RT_Locked_RMW_Read, RT_Load_Linked}
     then do { bytes \<leftarrow> read_bytes s pkt data; Some (data, answer pkt (Some bytes) sc s) }
     else if pk_cmd pkt = FlushReq then Some (data, answer pkt None sc s)
     else if isSwap (pk_req pkt) then do {
       bytes \<leftarrow> read_bytes s pkt data;
       data \<leftarrow> setData data (buf pkt) (getOffset s (pkt_addr pkt)) (getSize (pk_req pkt));
       Some (data, answer pkt (Some bytes) sc s)
     }
     else if sr_type r \<noteq> RT_Store_Conditional \<or> llscSuccess then do {
       data \<leftarrow> setData data (buf pkt) (getOffset s (pkt_addr pkt)) (getSize (pk_req pkt));
       Some (data, answer pkt None sc s)
     }
     else Some (data, answer pkt None sc s))"

text \<open>The lock of a line; \<open>cached\<close> tells the lines that are in the data cache.\<close>

definition handleLlsc :: "(Addr \<Rightarrow> bool) \<Rightarrow> Addr \<Rightarrow> SequencerRequest \<Rightarrow> Sequencer \<Rightarrow> bool \<times> bool option \<times> Sequencer" where
  "handleLlsc cached address r s = (let isLocked = (address \<in> set (m_locked s)); clear = s\<lparr>m_locked := removeAll address (m_locked s)\<rparr> in
     if \<not> cached address then (True, None, s)
     else if sr_type r = RT_Store_Conditional then (isLocked, Some isLocked, clear)
     else if sr_type r = RT_Load_Linked then (True, None, s\<lparr>m_locked := address # removeAll address (m_locked s)\<rparr>)
     else (True, None, clear))"

definition writeCallback ::
  "(Packet \<Rightarrow> 8 word list) \<Rightarrow> (Addr \<Rightarrow> bool) \<Rightarrow> Addr \<Rightarrow> DataBlock \<Rightarrow> Sequencer \<Rightarrow> (DataBlock \<times> Sequencer) option" where
  "writeCallback buf cached address data s = do {
     assertion (address = makeLineAddress s address);
     r \<leftarrow> map_of (m_writeRequestTable s) address;
     s \<leftarrow> markRemoved (s\<lparr>m_writeRequestTable := erase address (m_writeRequestTable s)\<rparr>);
     assertion (store_type (sr_type r) \<or> sr_type r = RT_ATOMIC);
     let (success, sc, s) = handleLlsc cached address r s;
     let s = (if sr_type r = RT_Locked_RMW_Read then s\<lparr>m_block_map := address # removeAll address (m_block_map s)\<rparr>
              else if sr_type r = RT_Locked_RMW_Write then s\<lparr>m_block_map := removeAll address (m_block_map s)\<rparr> else s);
     hitCallback buf r data success sc s
   }"

definition hit_at :: "bool \<Rightarrow> bool \<Rightarrow> bool \<Rightarrow> Packet \<Rightarrow> Packet" where
  "hit_at hitAtL0 hitAtL1 hitAtMem pkt =
     (if hitAtL0 then pkt\<lparr>isL0Hit := True, fromLevel := 0\<rparr>
      else if hitAtL1 then pkt\<lparr>isL1Hit := True, fromLevel := 1\<rparr>
      else if hitAtMem then pkt\<lparr>isMemHit := True, fromLevel := 3\<rparr> else pkt)"

text \<open>The merged exposures and validations are answered before the read itself, without a hit level.\<close>

definition answer_dependent :: "DataBlock \<Rightarrow> Sequencer \<Rightarrow> Packet \<Rightarrow> Sequencer option" where
  "answer_dependent data s pkt = do {
     assertion (isExpose (pk_cmd pkt) \<or> isValidate (pk_cmd pkt));
     bytes \<leftarrow> read_bytes s pkt data;
     Some (answer pkt (Some bytes) None s)
   }"

definition readCallback ::
  "(Packet \<Rightarrow> 8 word list) \<Rightarrow> Addr \<Rightarrow> DataBlock \<Rightarrow> bool \<Rightarrow> bool \<Rightarrow> bool \<Rightarrow> Sequencer \<Rightarrow> (DataBlock \<times> Sequencer) option" where
  "readCallback buf address data hitAtL0 hitAtL1 hitAtMem s = do {
     assertion (address = makeLineAddress s address);
     r \<leftarrow> map_of (m_readRequestTable s) address;
     s \<leftarrow> markRemoved (s\<lparr>m_readRequestTable := erase address (m_readRequestTable s)\<rparr>);
     assertion (sr_type r \<in> {RT_LD, RT_SPEC_LD, RT_EXPOSE, RT_IFETCH});
     s \<leftarrow> (if sr_type r = RT_LD then foldM (answer_dependent data) s (dependentRequests r) else Some s);
     hitCallback buf (r\<lparr>sr_pkt := hit_at hitAtL0 hitAtL1 hitAtMem (sr_pkt r)\<rparr>) data True None s
   }"

section \<open>Oblivious loads\<close>

text \<open>
  Whether the answer of a level (0, 1, or 2 for memory) is the last one of the request. Only
  the perfect predictors stop at a hit.
\<close>

definition last_answer :: "RubyRequestType \<Rightarrow> bool \<Rightarrow> nat \<Rightarrow> bool option" where
  "last_answer ty hit level = (case ty of
     RT_SPEC_LD_L0 \<Rightarrow> (if level = 0 then Some True else None)
   | RT_SPEC_LD_L1 \<Rightarrow> (if level < 1 then Some False else if level = 1 then Some True else None)
   | RT_SPEC_LD_Mem \<Rightarrow> (if level < 2 then Some False else if level = 2 then Some True else None)
   | RT_SPEC_LD_Perfect \<Rightarrow> Some (hit \<or> level = 2)
   | RT_SPEC_LD_PerfectUnsafe \<Rightarrow> Some (hit \<or> level = 2)
   | _ \<Rightarrow> None)"

definition visibleSDOLevel :: "nat \<Rightarrow> int" where
  "visibleSDOLevel level = (if level = 2 then 3 else int level)"

text \<open>
  One answer of an oblivious load. An early answer is a copy of the original packet, the
  last one the packet itself. The first hit copies the data, and its answer carries them.
\<close>

definition hitCallbackObliv :: "SpecldKeyType \<Rightarrow> SequencerRequest \<Rightarrow> bool \<Rightarrow> DataBlock \<Rightarrow> nat \<Rightarrow> Sequencer \<Rightarrow> Sequencer option" where
  "hitCallbackObliv key r hit data level s = do {
     let pkt = sr_pkt r;
     last \<leftarrow> last_answer (sr_type r) hit level;
     let to_send = pkt\<lparr>fromLevel := visibleSDOLevel level, isFinalPacket := last\<rparr>;
     assertion (isSpec (pk_cmd pkt));
     let first_hit = (hit \<and> \<not> copyData pkt);
     bytes \<leftarrow> (if first_hit then do { b \<leftarrow> read_bytes s pkt data; Some (Some b) } else Some None);
     let to_send = (if first_hit then to_send\<lparr>carryData := True\<rparr> else to_send);
     let to_send = (if first_hit \<and> last then to_send\<lparr>copyData := True\<rparr> else to_send);
     let s = (if last then s else s\<lparr>m_specldRequestTable :=
                assign key (if first_hit then r\<lparr>sr_pkt := pkt\<lparr>copyData := True\<rparr>\<rparr> else r) (m_specldRequestTable s)\<rparr>);
     Some (answer to_send bytes None s)
   }"

text \<open>The tail that the three callbacks share: removing the request when the level is its last, and answering.\<close>

definition obliv_callback ::
  "Addr \<Rightarrow> nat \<Rightarrow> (RubyRequestType \<Rightarrow> bool option) \<Rightarrow> (Packet \<Rightarrow> Packet) \<Rightarrow> bool \<Rightarrow> DataBlock \<Rightarrow> nat \<Rightarrow> Sequencer \<Rightarrow> Sequencer option" where
  "obliv_callback address reqIdx removes mark_hit hit data level s = do {
     assertion (address = makeLineAddress s address);
     r \<leftarrow> map_of (m_specldRequestTable s) (address, reqIdx);
     assertion (isSpec (pk_cmd (sr_pkt r)));
     rem \<leftarrow> removes (sr_type r);
     s \<leftarrow> (if rem then markRemoved (s\<lparr>m_specldRequestTable := erase (address, reqIdx) (m_specldRequestTable s)\<rparr>) else Some s);
     hitCallbackObliv (address, reqIdx) (if hit then r\<lparr>sr_pkt := mark_hit (sr_pkt r)\<rparr> else r) hit data level s
   }"

definition readCallbackObliv_fromL0 :: "Addr \<Rightarrow> bool \<Rightarrow> DataBlock \<Rightarrow> nat \<Rightarrow> Sequencer \<Rightarrow> Sequencer option" where
  "readCallbackObliv_fromL0 address hitAtL0 data reqIdx s = obliv_callback address reqIdx
     (\<lambda>ty. case ty of RT_SPEC_LD_L0 \<Rightarrow> Some True | RT_SPEC_LD \<Rightarrow> Some True | RT_SPEC_LD_L1 \<Rightarrow> Some False | RT_SPEC_LD_Mem \<Rightarrow> Some False
       | RT_SPEC_LD_Perfect \<Rightarrow> Some hitAtL0 | RT_SPEC_LD_PerfectUnsafe \<Rightarrow> Some hitAtL0 | _ \<Rightarrow> None)
     (\<lambda>pkt. pkt\<lparr>isL0Hit := True\<rparr>) hitAtL0 data 0 s"

definition readCallbackObliv_fromL1 :: "Addr \<Rightarrow> bool \<Rightarrow> DataBlock \<Rightarrow> nat \<Rightarrow> Sequencer \<Rightarrow> Sequencer option" where
  "readCallbackObliv_fromL1 address hitAtL1 data reqIdx s = obliv_callback address reqIdx
     (\<lambda>ty. case ty of RT_SPEC_LD_L1 \<Rightarrow> Some True | RT_SPEC_LD_Mem \<Rightarrow> Some False
       | RT_SPEC_LD_Perfect \<Rightarrow> Some hitAtL1 | RT_SPEC_LD_PerfectUnsafe \<Rightarrow> Some hitAtL1 | _ \<Rightarrow> None)
     (\<lambda>pkt. pkt\<lparr>isL1Hit := True\<rparr>) hitAtL1 data 1 s"

definition readCallbackObliv_fromMem :: "Addr \<Rightarrow> bool \<Rightarrow> DataBlock \<Rightarrow> nat \<Rightarrow> Sequencer \<Rightarrow> Sequencer option" where
  "readCallbackObliv_fromMem address hitAtMem data reqIdx s = obliv_callback address reqIdx
     (\<lambda>ty. case ty of RT_SPEC_LD_Mem \<Rightarrow> Some True | RT_SPEC_LD_Perfect \<Rightarrow> Some True | RT_SPEC_LD_PerfectUnsafe \<Rightarrow> Some True | _ \<Rightarrow> None)
     (\<lambda>pkt. pkt\<lparr>isMemHit := True\<rparr>) hitAtMem data 2 s"

end
