(* ===== verification/Sequencer_Inv.thy ===== *)
theory Sequencer_Inv
  imports Sequencer
begin

text \<open>
  The invariant of the sequencer and the absence of traps: whatever the order of requests and
  of the callbacks of the controllers, as long as a callback is for an outstanding request.
\<close>

section \<open>Events\<close>

datatype seq_event =
    Make Packet
  | Read_done Addr DataBlock bool bool bool
  | Write_done Addr DataBlock
  | Obliv_done nat Addr nat bool DataBlock \<comment> \<open>level, line, \<open>ld_idx\<close>, hit, data\<close>

definition obliv_done :: "nat \<Rightarrow> Addr \<Rightarrow> nat \<Rightarrow> bool \<Rightarrow> DataBlock \<Rightarrow> Sequencer \<Rightarrow> Sequencer option" where
  "obliv_done level a i hit data s =
     (if level = 0 then readCallbackObliv_fromL0 a hit data i s
      else if level = 1 then readCallbackObliv_fromL1 a hit data i s
      else if level = 2 then readCallbackObliv_fromMem a hit data i s else None)"

fun seq_exec :: "(Packet \<Rightarrow> 8 word list) \<Rightarrow> (Addr \<Rightarrow> bool) \<Rightarrow> seq_event \<Rightarrow> Sequencer \<Rightarrow> (RequestStatus option \<times> Sequencer) option" where
  "seq_exec buf cached (Make pkt) s = map_option (\<lambda>(st, s). (Some st, s)) (makeRequest pkt s)"
| "seq_exec buf cached (Read_done a data h0 h1 hm) s = map_option (\<lambda>(_, s). (None, s)) (readCallback buf a data h0 h1 hm s)"
| "seq_exec buf cached (Write_done a data) s = map_option (\<lambda>(_, s). (None, s)) (writeCallback buf cached a data s)"
| "seq_exec buf cached (Obliv_done l a i hit data) s = map_option (\<lambda>s. (None, s)) (obliv_done l a i hit data s)"

definition in_line :: "nat \<Rightarrow> Packet \<Rightarrow> bool" where
  "in_line bits pkt \<longleftrightarrow> unat (take_bit bits (pkt_addr pkt)) + getSize (pk_req pkt) \<le> 2 ^ bits"

text \<open>
  What the two sides owe the sequencer: packets of known commands that stay within a line,
  with a buffer of their size, and callbacks for outstanding requests, with a whole line of
  data, from a level that the oblivious load visits.
\<close>

definition seq_legal :: "(Packet \<Rightarrow> 8 word list) \<Rightarrow> seq_event \<Rightarrow> Sequencer \<Rightarrow> bool" where
  "seq_legal buf ev s = (case ev of
     Make pkt \<Rightarrow> request_type pkt \<noteq> None \<and> in_line (blockSizeBits s) pkt \<and> getSize (pk_req pkt) \<le> length (buf pkt)
   | Read_done a data _ _ _ \<Rightarrow> map_of (m_readRequestTable s) a \<noteq> None \<and> length data = 2 ^ blockSizeBits s
   | Write_done a data \<Rightarrow> map_of (m_writeRequestTable s) a \<noteq> None \<and> length data = 2 ^ blockSizeBits s
   | Obliv_done l a i hit data \<Rightarrow> length data = 2 ^ blockSizeBits s \<and> l \<le> 2 \<and>
       (case map_of (m_specldRequestTable s) (a, i) of None \<Rightarrow> False | Some r \<Rightarrow> last_answer (sr_type r) hit l \<noteq> None))"

section \<open>The invariant\<close>

definition read_entry :: "Sequencer \<Rightarrow> Addr \<Rightarrow> SequencerRequest \<Rightarrow> bool" where
  "read_entry s a r \<longleftrightarrow> a = pkt_line s (sr_pkt r) \<and> sr_type r \<in> {RT_LD, RT_IFETCH} \<and> \<not> isSpec (pk_cmd (sr_pkt r)) \<and>
     in_line (blockSizeBits s) (sr_pkt r) \<and>
     (\<forall>d \<in> set (dependentRequests r). (isExpose (pk_cmd d) \<or> isValidate (pk_cmd d)) \<and> a = pkt_line s d \<and> in_line (blockSizeBits s) d)"

definition write_entry :: "(Packet \<Rightarrow> 8 word list) \<Rightarrow> Sequencer \<Rightarrow> Addr \<Rightarrow> SequencerRequest \<Rightarrow> bool" where
  "write_entry buf s a r \<longleftrightarrow> a = pkt_line s (sr_pkt r) \<and> store_type (sr_type r) \<and> \<not> isSpec (pk_cmd (sr_pkt r)) \<and>
     in_line (blockSizeBits s) (sr_pkt r) \<and> getSize (pk_req (sr_pkt r)) \<le> length (buf (sr_pkt r))"

definition specld_entry :: "Sequencer \<Rightarrow> SpecldKeyType \<Rightarrow> SequencerRequest \<Rightarrow> bool" where
  "specld_entry s k r \<longleftrightarrow> k = (pkt_line s (sr_pkt r), ld_idx (sr_pkt r)) \<and> isSpec (pk_cmd (sr_pkt r)) \<and>
     request_type (sr_pkt r) = Some (sr_type r, sr_type r) \<and> in_line (blockSizeBits s) (sr_pkt r)"

definition seq_inv :: "(Packet \<Rightarrow> 8 word list) \<Rightarrow> Sequencer \<Rightarrow> bool" where
  "seq_inv buf s \<longleftrightarrow> count_ok s \<and> m_outstanding_count s \<le> m_max_outstanding_requests s \<and>
     distinct (map fst (m_readRequestTable s)) \<and> distinct (map fst (m_writeRequestTable s)) \<and> distinct (map fst (m_specldRequestTable s)) \<and>
     fst ` set (m_readRequestTable s) \<inter> fst ` set (m_writeRequestTable s) = {} \<and>
     (\<forall>(a, r) \<in> set (m_readRequestTable s). read_entry s a r) \<and>
     (\<forall>(a, r) \<in> set (m_writeRequestTable s). write_entry buf s a r) \<and>
     (\<forall>(k, r) \<in> set (m_specldRequestTable s). specld_entry s k r)"

section \<open>Tables\<close>

lemma assign_keys [simp]: "map fst (assign k v t) = map fst t"
  by (induction t) (auto simp: assign_def)

lemma length_assign [simp]: "length (assign k v t) = length t"
  by (simp add: assign_def)

lemma set_assignD: "e \<in> set (assign k v t) \<Longrightarrow> e = (k, v) \<or> e \<in> set t"
  by (auto simp: assign_def split: if_splits)

lemma map_of_assign: "map_of (assign k v t) k' = (if k' = k \<and> map_of t k \<noteq> None then Some v else map_of t k')"
  by (induction t) (auto simp: assign_def)

lemma map_of_erase: "map_of (erase k t) k' = (if k' = k then None else map_of t k')"
  by (induction t) (auto simp: erase_def)

lemma set_erase [simp]: "set (erase k t) = {e \<in> set t. fst e \<noteq> k}"
  by (auto simp: erase_def)

lemma distinct_erase: "distinct (map fst t) \<Longrightarrow> distinct (map fst (erase k t))"
  by (simp add: erase_def distinct_map_filter)

lemma length_erase:
  assumes "distinct (map fst t)" "map_of t k = Some v"
  shows "Suc (length (erase k t)) = length t"
  using assms
proof (induction t)
  case (Cons e t)
  show ?case
  proof (cases "fst e = k")
    case True
    then have "filter (\<lambda>e. fst e \<noteq> k) t = t" using Cons.prems(1) by (intro filter_True ballI) (metis distinct.simps(2) image_eqI list.map(2) list.set_map)
    then show ?thesis using True by (simp add: erase_def)
  next
    case False
    then show ?thesis using Cons by (auto simp: erase_def split: prod.splits if_splits)
  qed
qed simp

lemma map_of_snoc: "map_of t k = None \<Longrightarrow> map_of (t @ [(k, v)]) k' = (if k' = k then Some v else map_of t k')"
  by (induction t) auto

lemma maskLowOrderBits_idem [simp]: "maskLowOrderBits (maskLowOrderBits a n) n = maskLowOrderBits a n"
  by (simp add: maskLowOrderBits_def and.assoc)

lemma read_bytes_ok:
  assumes "in_line (blockSizeBits s) pkt" "length data = 2 ^ blockSizeBits s"
  shows "read_bytes s pkt data = Some (take (getSize (pk_req pkt)) (drop (getOffset s (pkt_addr pkt)) data))"
  using assms by (simp add: read_bytes_def getData_def in_line_def getOffset_def assertion_def)

lemma entry_cong:
  assumes "blockSizeBits s' = blockSizeBits s"
  shows "read_entry s' = read_entry s" "write_entry buf s' = write_entry buf s" "specld_entry s' = specld_entry s"
  using assms by (simp_all add: read_entry_def write_entry_def specld_entry_def makeLineAddress_def fun_eq_iff)

lemma request_type_cases:
  assumes "request_type pkt = Some (ty, ty')"
  shows "isSpec (pk_cmd pkt) \<Longrightarrow> oblivious_type ty \<and> ty' = ty"
    and "\<not> isSpec (pk_cmd pkt) \<Longrightarrow> store_type ty \<or> ty \<in> {RT_LD, RT_IFETCH}"
  using assms
  by (auto simp: request_type_def isSpec_def oblivious_type_def store_type_def Let_def bind_eq_Some_conv split: MemCmd.splits if_splits)

lemma seq_invD:
  assumes "seq_inv buf s"
  shows "count_ok s" "m_outstanding_count s \<le> m_max_outstanding_requests s"
    "distinct (map fst (m_readRequestTable s))" "distinct (map fst (m_writeRequestTable s))" "distinct (map fst (m_specldRequestTable s))"
    "fst ` set (m_readRequestTable s) \<inter> fst ` set (m_writeRequestTable s) = {}"
    "\<And>a r. (a, r) \<in> set (m_readRequestTable s) \<Longrightarrow> read_entry s a r"
    "\<And>a r. (a, r) \<in> set (m_writeRequestTable s) \<Longrightarrow> write_entry buf s a r"
    "\<And>k r. (k, r) \<in> set (m_specldRequestTable s) \<Longrightarrow> specld_entry s k r"
  using assms by (auto simp: seq_inv_def)

lemma map_of_None_fst: "map_of t k = None \<longleftrightarrow> k \<notin> fst ` set t"
  by (simp add: map_of_eq_None_iff)

lemma answered_inv [simp]: "seq_inv buf (s\<lparr>answered := xs\<rparr>) = seq_inv buf s"
  "seq_inv buf (s\<lparr>m_mandatory_q := q\<rparr>) = seq_inv buf s" "seq_inv buf (s\<lparr>m_block_map := b\<rparr>) = seq_inv buf s"
  "seq_inv buf (s\<lparr>m_locked := l\<rparr>) = seq_inv buf s"
  by (simp_all add: seq_inv_def count_ok_def entry_cong [of "s\<lparr>answered := xs\<rparr>" s] entry_cong [of "s\<lparr>m_mandatory_q := q\<rparr>" s]
      entry_cong [of "s\<lparr>m_block_map := b\<rparr>" s] entry_cong [of "s\<lparr>m_locked := l\<rparr>" s])

section \<open>Requests\<close>

definition add_write :: "Addr \<Rightarrow> SequencerRequest \<Rightarrow> Sequencer \<Rightarrow> Sequencer" where
  "add_write a r s = s\<lparr>m_writeRequestTable := m_writeRequestTable s @ [(a, r)], m_outstanding_count := m_outstanding_count s + 1\<rparr>"

definition add_read :: "Addr \<Rightarrow> SequencerRequest \<Rightarrow> Sequencer \<Rightarrow> Sequencer" where
  "add_read a r s = s\<lparr>m_readRequestTable := m_readRequestTable s @ [(a, r)], m_outstanding_count := m_outstanding_count s + 1\<rparr>"

definition add_specld :: "SpecldKeyType \<Rightarrow> SequencerRequest \<Rightarrow> Sequencer \<Rightarrow> Sequencer" where
  "add_specld k r s = s\<lparr>m_specldRequestTable := m_specldRequestTable s @ [(k, r)], m_outstanding_count := m_outstanding_count s + 1\<rparr>"

lemma add_inv:
  assumes "seq_inv buf s" "m_outstanding_count s < m_max_outstanding_requests s"
  shows "write_entry buf s a r \<Longrightarrow> map_of (m_writeRequestTable s) a = None \<Longrightarrow> map_of (m_readRequestTable s) a = None \<Longrightarrow>
      seq_inv buf (add_write a r s)"
    and "read_entry s a r \<Longrightarrow> map_of (m_writeRequestTable s) a = None \<Longrightarrow> map_of (m_readRequestTable s) a = None \<Longrightarrow>
      seq_inv buf (add_read a r s)"
    and "specld_entry s k r \<Longrightarrow> map_of (m_specldRequestTable s) k = None \<Longrightarrow> seq_inv buf (add_specld k r s)"
proof -
  note c1 = entry_cong [of "add_write a r s" s] and c2 = entry_cong [of "add_read a r s" s] and c3 = entry_cong [of "add_specld k r s" s]
  show "write_entry buf s a r \<Longrightarrow> map_of (m_writeRequestTable s) a = None \<Longrightarrow> map_of (m_readRequestTable s) a = None \<Longrightarrow>
      seq_inv buf (add_write a r s)"
    using assms c1 by (auto simp: seq_inv_def map_of_None_fst add_write_def count_ok_def)
  show "read_entry s a r \<Longrightarrow> map_of (m_writeRequestTable s) a = None \<Longrightarrow> map_of (m_readRequestTable s) a = None \<Longrightarrow>
      seq_inv buf (add_read a r s)"
    using assms c2 by (auto simp: seq_inv_def map_of_None_fst add_read_def count_ok_def)
  show "specld_entry s k r \<Longrightarrow> map_of (m_specldRequestTable s) k = None \<Longrightarrow> seq_inv buf (add_specld k r s)"
    using assms c3 by (auto simp: seq_inv_def map_of_None_fst add_specld_def count_ok_def)
qed

lemma merge_inv:
  assumes inv: "seq_inv buf s" and e: "read_entry s a r"
  shows "seq_inv buf (s\<lparr>m_readRequestTable := assign a r (m_readRequestTable s)\<rparr>)"
proof -
  let ?s = "s\<lparr>m_readRequestTable := assign a r (m_readRequestTable s)\<rparr>"
  have k: "fst ` set (assign a r (m_readRequestTable s)) = fst ` set (m_readRequestTable s)"
    by (metis assign_keys set_map)
  have "read_entry s a' r'" if "(a', r') \<in> set (assign a r (m_readRequestTable s))" for a' r'
    using set_assignD [OF that] e seq_invD(7) [OF inv] by auto
  then show ?thesis
    using inv k by (auto simp: seq_inv_def count_ok_def entry_cong [of ?s s])
qed

lemma insertRequest_ok:
  assumes inv: "seq_inv buf s" and room: "m_outstanding_count s < m_max_outstanding_requests s"
    and ty: "request_type pkt = Some (ty, ty')" and ns: "\<not> isSpec (pk_cmd pkt)"
    and pkt: "in_line (blockSizeBits s) pkt" "getSize (pk_req pkt) \<le> length (buf pkt)"
  shows "\<exists>st s'. insertRequest pkt ty s = Some (st, s') \<and> seq_inv buf s'"
proof (cases "isBlocked s (pkt_line s pkt) \<and> ty \<noteq> RT_Locked_RMW_Write")
  case True
  then show ?thesis using inv seq_invD(1) [OF inv] by (simp add: insertRequest_def)
next
  case free: False
  define l where "l = pkt_line s pkt"
  note cnt = seq_invD(1) [OF inv]
  show ?thesis
  proof (cases "store_type ty")
    case True
    have w: "write_entry buf s l (mk_SequencerRequest pkt ty)"
      using True ns pkt by (simp add: write_entry_def mk_SequencerRequest_def l_def)
    show ?thesis
    proof (cases "map_of (m_readRequestTable s) l \<noteq> None \<or> map_of (m_writeRequestTable s) l \<noteq> None")
      case True
      then show ?thesis using free inv cnt \<open>store_type ty\<close> by (auto simp: insertRequest_def l_def Let_def)
    next
      case False
      then have "seq_inv buf (add_write l (mk_SequencerRequest pkt ty) s)"
        using add_inv(1) [OF inv room w] by simp
      then show ?thesis
        using False free cnt True by (auto simp: insertRequest_def l_def add_write_def Let_def assertion_def dest: seq_invD(1))
    qed
  next
    case False
    then have t: "ty \<in> {RT_LD, RT_IFETCH}" using request_type_cases(2) [OF ty ns] by blast
    obtain st s' where i: "insertRead pkt ty s = (st, s')" by fastforce
    have "seq_inv buf s' \<and> count_ok s'"
    proof (cases "map_of (m_writeRequestTable s) l = None")
      case nw: True
      show ?thesis
      proof (cases "map_of (m_readRequestTable s) l")
        case None
        have "read_entry s l (mk_SequencerRequest pkt ty)"
          using t ns pkt by (simp add: read_entry_def mk_SequencerRequest_def l_def)
        then have "seq_inv buf (add_read l (mk_SequencerRequest pkt ty) s)"
          using add_inv(2) [OF inv room] None nw by simp
        moreover have "s' = add_read l (mk_SequencerRequest pkt ty) s"
          using i None nw by (simp add: insertRead_def Let_def l_def add_read_def)
        ultimately show ?thesis using seq_invD(1) by blast
      next
        case (Some r)
        have e: "read_entry s l r" using seq_invD(7) [OF inv map_of_SomeD [OF Some]] .
        show ?thesis
        proof (cases "(isExpose (pk_cmd pkt) \<or> isValidate (pk_cmd pkt)) \<and> sr_type r = RT_LD")
          case True
          let ?r = "r\<lparr>dependentRequests := dependentRequests r @ [pkt]\<rparr>"
          have "read_entry s l ?r" using e True pkt by (auto simp: read_entry_def l_def)
          then have "seq_inv buf (s\<lparr>m_readRequestTable := assign l ?r (m_readRequestTable s)\<rparr>)" by (rule merge_inv [OF inv])
          moreover have "s' = s\<lparr>m_readRequestTable := assign l ?r (m_readRequestTable s)\<rparr>"
            using i Some nw True by (simp add: insertRead_def Let_def l_def)
          ultimately show ?thesis using seq_invD(1) by blast
        next
          case False
          then have "s' = s" using i Some nw by (simp add: insertRead_def Let_def l_def split: if_splits)
          then show ?thesis using inv cnt by simp
        qed
      qed
    next
      case False
      then have "s' = s" using i by (simp add: insertRead_def Let_def l_def)
      then show ?thesis using inv cnt by simp
    qed
    then show ?thesis using free False cnt i by (auto simp: insertRequest_def Let_def assertion_def)
  qed
qed

lemma insertSpecld_ok:
  assumes inv: "seq_inv buf s" and room: "m_outstanding_count s < m_max_outstanding_requests s"
    and ty: "request_type pkt = Some (ty, ty')" and sp: "isSpec (pk_cmd pkt)" and pkt: "in_line (blockSizeBits s) pkt"
  shows "\<exists>st s'. insertSpecldRequest pkt ty s = Some (st, s') \<and> seq_inv buf s'"
proof -
  have o: "oblivious_type ty" "ty' = ty" using request_type_cases(1) [OF ty sp] by auto
  define k where "k = (pkt_line s pkt, ld_idx pkt)"
  have e: "specld_entry s k (mk_SequencerRequest pkt ty)"
    using ty sp pkt o(2) by (simp add: specld_entry_def mk_SequencerRequest_def k_def)
  show ?thesis
  proof (cases "map_of (m_specldRequestTable s) k")
    case None
    then have "seq_inv buf (add_specld k (mk_SequencerRequest pkt ty) s)" using add_inv(3) [OF inv room e] by simp
    then show ?thesis
      using None o inv seq_invD(1) [OF inv] by (auto simp: insertSpecldRequest_def k_def add_specld_def Let_def assertion_def dest: seq_invD(1))
  next
    case (Some r)
    then show ?thesis using o inv seq_invD(1) [OF inv] by (auto simp: insertSpecldRequest_def k_def Let_def)
  qed
qed

lemma makeRequest_ok:
  assumes inv: "seq_inv buf s" and legal: "seq_legal buf (Make pkt) s"
  shows "\<exists>st s'. makeRequest pkt s = Some (st, s') \<and> seq_inv buf s'"
proof (cases "m_outstanding_count s \<ge> m_max_outstanding_requests s")
  case True
  then show ?thesis using inv by (simp add: makeRequest_def)
next
  case False
  then have room: "m_outstanding_count s < m_max_outstanding_requests s" by simp
  obtain ty ty' where ty: "request_type pkt = Some (ty, ty')" using legal by (auto simp: seq_legal_def)
  have pkt: "in_line (blockSizeBits s) pkt" "getSize (pk_req pkt) \<le> length (buf pkt)" using legal by (auto simp: seq_legal_def)
  obtain st s' where "(if isSpec (pk_cmd pkt) then insertSpecldRequest pkt ty s else insertRequest pkt ty s) = Some (st, s')"
    and "seq_inv buf s'"
    using insertRequest_ok [OF inv room ty _ pkt] insertSpecld_ok [OF inv room ty _ pkt(1)] by (cases "isSpec (pk_cmd pkt)") auto
  then show ?thesis using False ty by (auto simp: makeRequest_def)
qed

section \<open>Callbacks\<close>

lemma shrink_inv:
  assumes inv: "seq_inv buf s" and same: "blockSizeBits s1 = blockSizeBits s" "m_max_outstanding_requests s1 = m_max_outstanding_requests s"
    and sub: "set (m_readRequestTable s1) \<subseteq> set (m_readRequestTable s)" "set (m_writeRequestTable s1) \<subseteq> set (m_writeRequestTable s)"
      "set (m_specldRequestTable s1) \<subseteq> set (m_specldRequestTable s)"
    and dist: "distinct (map fst (m_readRequestTable s1))" "distinct (map fst (m_writeRequestTable s1))" "distinct (map fst (m_specldRequestTable s1))"
    and count: "count_ok s1" "m_outstanding_count s1 \<le> m_outstanding_count s"
  shows "seq_inv buf s1"
proof -
  have "fst ` set (m_readRequestTable s1) \<inter> fst ` set (m_writeRequestTable s1) = {}"
    using seq_invD(6) [OF inv] image_mono [OF sub(1), of fst] image_mono [OF sub(2), of fst] by blast
  moreover have "\<forall>(a, r) \<in> set (m_readRequestTable s1). read_entry s1 a r"
    using seq_invD(7) [OF inv] sub(1) entry_cong(1) [OF same(1)] by auto
  moreover have "\<forall>(a, r) \<in> set (m_writeRequestTable s1). write_entry buf s1 a r"
    using seq_invD(8) [OF inv] sub(2) entry_cong(2) [OF same(1)] by auto
  moreover have "\<forall>(k, r) \<in> set (m_specldRequestTable s1). specld_entry s1 k r"
    using seq_invD(9) [OF inv] sub(3) entry_cong(3) [OF same(1)] by auto
  ultimately show ?thesis
    using dist count seq_invD(2) [OF inv] same(2) unfolding seq_inv_def by simp
qed

lemma remove_read:
  assumes inv: "seq_inv buf s" and r: "map_of (m_readRequestTable s) a = Some r"
  obtains s1 where "markRemoved (s\<lparr>m_readRequestTable := erase a (m_readRequestTable s)\<rparr>) = Some s1" "seq_inv buf s1"
    "s1 = s\<lparr>m_readRequestTable := erase a (m_readRequestTable s), m_outstanding_count := m_outstanding_count s - 1\<rparr>"
proof
  let ?s = "s\<lparr>m_readRequestTable := erase a (m_readRequestTable s), m_outstanding_count := m_outstanding_count s - 1\<rparr>"
  have c: "count_ok ?s"
    using length_erase [OF seq_invD(3) [OF inv] r] seq_invD(1) [OF inv] by (simp add: count_ok_def)
  then show "markRemoved (s\<lparr>m_readRequestTable := erase a (m_readRequestTable s)\<rparr>) = Some ?s"
    by (simp add: markRemoved_def Let_def)
  show "seq_inv buf ?s"
    by (rule shrink_inv [OF inv _ _ _ _ _ _ _ _ c]) (use seq_invD(3-5) [OF inv] in \<open>auto intro: distinct_erase\<close>)
qed simp

lemma remove_write:
  assumes inv: "seq_inv buf s" and r: "map_of (m_writeRequestTable s) a = Some r"
  obtains s1 where "markRemoved (s\<lparr>m_writeRequestTable := erase a (m_writeRequestTable s)\<rparr>) = Some s1" "seq_inv buf s1"
    "s1 = s\<lparr>m_writeRequestTable := erase a (m_writeRequestTable s), m_outstanding_count := m_outstanding_count s - 1\<rparr>"
proof
  let ?s = "s\<lparr>m_writeRequestTable := erase a (m_writeRequestTable s), m_outstanding_count := m_outstanding_count s - 1\<rparr>"
  have c: "count_ok ?s"
    using length_erase [OF seq_invD(4) [OF inv] r] seq_invD(1) [OF inv] by (simp add: count_ok_def)
  then show "markRemoved (s\<lparr>m_writeRequestTable := erase a (m_writeRequestTable s)\<rparr>) = Some ?s"
    by (simp add: markRemoved_def Let_def)
  show "seq_inv buf ?s"
    by (rule shrink_inv [OF inv _ _ _ _ _ _ _ _ c]) (use seq_invD(3-5) [OF inv] in \<open>auto intro: distinct_erase\<close>)
qed simp

lemma remove_specld:
  assumes inv: "seq_inv buf s" and r: "map_of (m_specldRequestTable s) k = Some r"
  obtains s1 where "markRemoved (s\<lparr>m_specldRequestTable := erase k (m_specldRequestTable s)\<rparr>) = Some s1" "seq_inv buf s1"
    "s1 = s\<lparr>m_specldRequestTable := erase k (m_specldRequestTable s), m_outstanding_count := m_outstanding_count s - 1\<rparr>"
proof
  let ?s = "s\<lparr>m_specldRequestTable := erase k (m_specldRequestTable s), m_outstanding_count := m_outstanding_count s - 1\<rparr>"
  have c: "count_ok ?s"
    using length_erase [OF seq_invD(5) [OF inv] r] seq_invD(1) [OF inv] by (simp add: count_ok_def)
  then show "markRemoved (s\<lparr>m_specldRequestTable := erase k (m_specldRequestTable s)\<rparr>) = Some ?s"
    by (simp add: markRemoved_def Let_def)
  show "seq_inv buf ?s"
    by (rule shrink_inv [OF inv _ _ _ _ _ _ _ _ c]) (use seq_invD(3-5) [OF inv] in \<open>auto intro: distinct_erase\<close>)
qed simp

lemma setData_ok:
  assumes "in_line (blockSizeBits s) pkt" "length data = 2 ^ blockSizeBits s" "getSize (pk_req pkt) \<le> length bytes"
  shows "\<exists>d. setData data bytes (getOffset s (pkt_addr pkt)) (getSize (pk_req pkt)) = Some d"
  using assms by (simp add: setData_def in_line_def getOffset_def)

lemma hitCallback_ok:
  assumes "in_line (blockSizeBits s) (sr_pkt r)" "length data = 2 ^ blockSizeBits s"
    "getSize (pk_req (sr_pkt r)) \<le> length (buf (sr_pkt r)) \<or> sr_type r \<in> {RT_LD, RT_IFETCH}"
  shows "\<exists>d b. hitCallback buf r data ok sc s = Some (d, answer (sr_pkt r) b sc s)"
proof (cases "sr_type r \<in> {RT_LD, RT_SPEC_LD, RT_SPEC_LD_L0, RT_SPEC_LD_L1, RT_SPEC_LD_Mem, RT_SPEC_LD_Perfect, RT_SPEC_LD_PerfectUnsafe,
    RT_IFETCH, RT_RMW_Read, RT_Locked_RMW_Read, RT_Load_Linked}")
  case True
  show ?thesis unfolding hitCallback_def Let_def if_P [OF True] read_bytes_ok [OF assms(1, 2)] by (simp; blast)
next
  case False
  then have "getSize (pk_req (sr_pkt r)) \<le> length (buf (sr_pkt r))" using assms(3) by blast
  then obtain d where d: "setData data (buf (sr_pkt r)) (getOffset s (pkt_addr (sr_pkt r))) (getSize (pk_req (sr_pkt r))) = Some d"
    using setData_ok [OF assms(1, 2)] by blast
  show ?thesis
    unfolding hitCallback_def Let_def if_not_P [OF False] read_bytes_ok [OF assms(1, 2)] d
    by (simp split: if_split; blast)
qed

lemma answer_inv [simp]: "seq_inv buf (answer pkt b sc s) = seq_inv buf s"
  by (simp add: answer_def)

lemma handleLlsc_inv:
  assumes "handleLlsc cached a r s = (ok, sc, s')"
  shows "seq_inv buf s' = seq_inv buf s" "blockSizeBits s' = blockSizeBits s" "m_specldRequestTable s' = m_specldRequestTable s"
    "answered s' = answered s"
  using assms by (auto simp: handleLlsc_def Let_def split: if_splits)

lemma line_of_key: "a = pkt_line s pkt \<Longrightarrow> makeLineAddress s a = a"
  by (simp add: makeLineAddress_def)

lemma writeCallback_ok:
  assumes inv: "seq_inv buf s" and r: "map_of (m_writeRequestTable s) a = Some r" and d: "length data = 2 ^ blockSizeBits s"
  shows "\<exists>d' s1 b sc. writeCallback buf cached a data s = Some (d', answer (sr_pkt r) b sc s1) \<and> seq_inv buf s1 \<and>
    m_specldRequestTable s1 = m_specldRequestTable s \<and> answered s1 = answered s \<and> blockSizeBits s1 = blockSizeBits s"
proof -
  note e = seq_invD(8) [OF inv map_of_SomeD [OF r]]
  obtain s1 where s1: "markRemoved (s\<lparr>m_writeRequestTable := erase a (m_writeRequestTable s)\<rparr>) = Some s1" "seq_inv buf s1"
    and eq: "s1 = s\<lparr>m_writeRequestTable := erase a (m_writeRequestTable s), m_outstanding_count := m_outstanding_count s - 1\<rparr>"
    by (rule remove_write [OF inv r])
  obtain ok sc s2 where h: "handleLlsc cached a r s1 = (ok, sc, s2)" by (metis prod_cases3)
  define s3 where "s3 = (if sr_type r = RT_Locked_RMW_Read then s2\<lparr>m_block_map := a # removeAll a (m_block_map s2)\<rparr>
     else if sr_type r = RT_Locked_RMW_Write then s2\<lparr>m_block_map := removeAll a (m_block_map s2)\<rparr> else s2)"
  have s3: "seq_inv buf s3" "blockSizeBits s3 = blockSizeBits s" "m_specldRequestTable s3 = m_specldRequestTable s" "answered s3 = answered s"
    using s1(2) handleLlsc_inv [OF h] eq by (auto simp: s3_def)
  have st: "store_type (sr_type r)" "makeLineAddress s a = a" using e by (auto simp: write_entry_def makeLineAddress_def)
  have "in_line (blockSizeBits s3) (sr_pkt r)" "length data = 2 ^ blockSizeBits s3" "getSize (pk_req (sr_pkt r)) \<le> length (buf (sr_pkt r)) \<or> sr_type r \<in> {RT_LD, RT_IFETCH}"
    using e d s3(2) by (auto simp: write_entry_def)
  then obtain d' b where "hitCallback buf r data ok sc s3 = Some (d', answer (sr_pkt r) b sc s3)"
    using hitCallback_ok [of s3 r data buf ok sc] by blast
  then have "writeCallback buf cached a data s = Some (d', answer (sr_pkt r) b sc s3)"
    using r s1(1) st h by (simp add: writeCallback_def s3_def)
  then show ?thesis using s3 by blast
qed

lemma answer_dependents:
  assumes "\<forall>d \<in> set ds. (isExpose (pk_cmd d) \<or> isValidate (pk_cmd d)) \<and> in_line (blockSizeBits s) d" "length data = 2 ^ blockSizeBits s"
  shows "\<exists>xs. foldM (answer_dependent data) s ds = Some (s\<lparr>answered := answered s @ xs\<rparr>) \<and> (\<forall>x \<in> set xs. an_pkt x \<in> set ds)"
  using assms
proof (induction ds arbitrary: s)
  case Nil
  then show ?case by (intro exI [of _ "[]"]) simp
next
  case (Cons p ds)
  let ?b = "take (getSize (pk_req p)) (drop (getOffset s (pkt_addr p)) data)"
  have "answer_dependent data s p = Some (answer p (Some ?b) None s)"
    using Cons.prems read_bytes_ok [of s p data] by (simp add: answer_dependent_def)
  moreover obtain xs where "foldM (answer_dependent data) (answer p (Some ?b) None s) ds =
      Some ((answer p (Some ?b) None s)\<lparr>answered := answered (answer p (Some ?b) None s) @ xs\<rparr>)" "\<forall>x \<in> set xs. an_pkt x \<in> set ds"
    using Cons.IH [of "answer p (Some ?b) None s"] Cons.prems by (auto simp: answer_def)
  ultimately show ?case
    by (intro exI [of _ "\<lparr>an_pkt = p, an_data = Some ?b, an_sc = None\<rparr> # xs"]) (auto simp: answer_def)
qed

lemma readCallback_ok:
  assumes inv: "seq_inv buf s" and r: "map_of (m_readRequestTable s) a = Some r" and d: "length data = 2 ^ blockSizeBits s"
  shows "\<exists>d' xs s1. readCallback buf a data h0 h1 hm s = Some (d', s1\<lparr>answered := answered s @ xs\<rparr>) \<and> seq_inv buf s1 \<and>
    m_specldRequestTable s1 = m_specldRequestTable s \<and> blockSizeBits s1 = blockSizeBits s \<and> (\<forall>x \<in> set xs. \<not> isSpec (pk_cmd (an_pkt x)))"
proof -
  note e = seq_invD(7) [OF inv map_of_SomeD [OF r]]
  obtain s1 where s1: "markRemoved (s\<lparr>m_readRequestTable := erase a (m_readRequestTable s)\<rparr>) = Some s1" "seq_inv buf s1"
    and eq: "s1 = s\<lparr>m_readRequestTable := erase a (m_readRequestTable s), m_outstanding_count := m_outstanding_count s - 1\<rparr>"
    by (rule remove_read [OF inv r])
  have "\<forall>p \<in> set (dependentRequests r). (isExpose (pk_cmd p) \<or> isValidate (pk_cmd p)) \<and> in_line (blockSizeBits s1) p"
    using e eq by (auto simp: read_entry_def)
  moreover have "length data = 2 ^ blockSizeBits s1" using d eq by simp
  ultimately obtain xs where xs: "foldM (answer_dependent data) s1 (dependentRequests r) = Some (s1\<lparr>answered := answered s1 @ xs\<rparr>)"
    "\<forall>x \<in> set xs. an_pkt x \<in> set (dependentRequests r)"
    using answer_dependents [of "dependentRequests r" s1 data] by blast
  have dep: "\<forall>x \<in> set xs. \<not> isSpec (pk_cmd (an_pkt x))"
    using xs(2) e by (force simp: read_entry_def isSpec_def)
  define ys where "ys = (if sr_type r = RT_LD then xs else [])"
  define s2 where "s2 = s1\<lparr>answered := answered s1 @ ys\<rparr>"
  define r' where "r' = r\<lparr>sr_pkt := hit_at h0 h1 hm (sr_pkt r)\<rparr>"
  have same: "pk_req (sr_pkt r') = pk_req (sr_pkt r)" "pk_cmd (sr_pkt r') = pk_cmd (sr_pkt r)" "sr_type r' = sr_type r"
    by (simp_all add: r'_def hit_at_def)
  have "in_line (blockSizeBits s2) (sr_pkt r')" "length data = 2 ^ blockSizeBits s2" "sr_type r' \<in> {RT_LD, RT_IFETCH}"
    using e d same eq by (auto simp: read_entry_def in_line_def s2_def)
  then obtain d' b where h: "hitCallback buf r' data True None s2 = Some (d', answer (sr_pkt r') b None s2)"
    using hitCallback_ok [of s2 r' data buf True None] by blast
  define zs where "zs = ys @ [\<lparr>an_pkt = sr_pkt r', an_data = b, an_sc = None\<rparr>]"
  have "readCallback buf a data h0 h1 hm s = Some (d', answer (sr_pkt r') b None s2)"
  proof -
    have ml: "makeLineAddress s a = a" "sr_type r \<in> {RT_LD, RT_SPEC_LD, RT_EXPOSE, RT_IFETCH}"
      using e by (auto simp: read_entry_def makeLineAddress_def)
    have "(if sr_type r = RT_LD then foldM (answer_dependent data) s1 (dependentRequests r) else Some s1) = Some s2"
      using xs(1) by (simp add: s2_def ys_def)
    then show ?thesis using r s1(1) ml h unfolding readCallback_def r'_def by (simp del: insert_iff)
  qed
  moreover have "answer (sr_pkt r') b None s2 = s1\<lparr>answered := answered s @ zs\<rparr>"
    by (simp add: answer_def s2_def eq zs_def)
  moreover have "\<forall>x \<in> set zs. \<not> isSpec (pk_cmd (an_pkt x))"
    using dep same(2) e by (auto simp: ys_def read_entry_def zs_def)
  moreover have "m_specldRequestTable s1 = m_specldRequestTable s" "blockSizeBits s1 = blockSizeBits s"
    by (simp_all add: eq)
  ultimately show ?thesis using s1(2) by (intro exI [of _ d'] exI [of _ zs] exI [of _ s1]) simp
qed

section \<open>Answers of oblivious loads\<close>

definition mark_level :: "nat \<Rightarrow> Packet \<Rightarrow> Packet" where
  "mark_level l pkt = (if l = 0 then pkt\<lparr>isL0Hit := True\<rparr> else if l = 1 then pkt\<lparr>isL1Hit := True\<rparr> else pkt\<lparr>isMemHit := True\<rparr>)"

definition kept_packet :: "nat \<Rightarrow> bool \<Rightarrow> Packet \<Rightarrow> Packet" where
  "kept_packet l hit pkt = (if hit then (mark_level l pkt)\<lparr>copyData := True\<rparr> else pkt)"

definition sent_packet :: "nat \<Rightarrow> bool \<Rightarrow> bool \<Rightarrow> Packet \<Rightarrow> Packet" where
  "sent_packet l hit lst pkt = (if hit then mark_level l pkt else pkt)\<lparr>fromLevel := visibleSDOLevel l, isFinalPacket := lst,
     carryData := carryData pkt \<or> hit \<and> \<not> copyData pkt, copyData := copyData pkt \<or> lst \<and> hit\<rparr>"

definition sent_bytes :: "Sequencer \<Rightarrow> bool \<Rightarrow> Packet \<Rightarrow> DataBlock \<Rightarrow> 8 word list option" where
  "sent_bytes s hit pkt data =
     (if hit \<and> \<not> copyData pkt then Some (take (getSize (pk_req pkt)) (drop (getOffset s (pkt_addr pkt)) data)) else None)"

lemma mark_level_same [simp]:
  "pk_req (mark_level l pkt) = pk_req pkt" "pk_cmd (mark_level l pkt) = pk_cmd pkt" "pk_reqIdx (mark_level l pkt) = pk_reqIdx pkt"
  "pk_first (mark_level l pkt) = pk_first pkt" "pk_isSplit (mark_level l pkt) = pk_isSplit pkt" "copyData (mark_level l pkt) = copyData pkt"
  "carryData (mark_level l pkt) = carryData pkt"
  by (simp_all add: mark_level_def)

lemma kept_packet_same [simp]:
  "pk_req (kept_packet l h pkt) = pk_req pkt" "pk_cmd (kept_packet l h pkt) = pk_cmd pkt" "pk_reqIdx (kept_packet l h pkt) = pk_reqIdx pkt"
  "pk_first (kept_packet l h pkt) = pk_first pkt" "pk_isSplit (kept_packet l h pkt) = pk_isSplit pkt"
  by (simp_all add: kept_packet_def)

lemma sent_packet_same [simp]:
  "pk_req (sent_packet l h f pkt) = pk_req pkt" "pk_cmd (sent_packet l h f pkt) = pk_cmd pkt" "pk_reqIdx (sent_packet l h f pkt) = pk_reqIdx pkt"
  "pk_first (sent_packet l h f pkt) = pk_first pkt" "pk_isSplit (sent_packet l h f pkt) = pk_isSplit pkt"
  by (simp_all add: sent_packet_def)

lemma request_type_kept [simp]: "request_type (kept_packet l h pkt) = request_type pkt"
  unfolding request_type_def kept_packet_same ..

lemma obliv_done_eq:
  assumes l: "l \<le> 2" and r: "map_of (m_specldRequestTable s) (a, i) = Some r" and lst: "last_answer (sr_type r) hit l = Some lst"
    and a: "makeLineAddress s a = a" and sp: "isSpec (pk_cmd (sr_pkt r))"
  shows "obliv_done l a i hit data s =
    (if lst then markRemoved (s\<lparr>m_specldRequestTable := erase (a, i) (m_specldRequestTable s)\<rparr>) else Some s) \<bind>
    hitCallbackObliv (a, i) (if hit then r\<lparr>sr_pkt := mark_level l (sr_pkt r)\<rparr> else r) hit data l"
proof -
  have "l = 0 \<or> l = 1 \<or> l = 2" using l by arith
  then show ?thesis
  proof (elim disjE)
    assume "l = 0"
    then show ?thesis
      using lst a sp by (cases "sr_type r") (auto simp: obliv_done_def readCallbackObliv_fromL0_def obliv_callback_def r last_answer_def mark_level_def)
  next
    assume "l = 1"
    then show ?thesis
      using lst a sp by (cases "sr_type r") (auto simp: obliv_done_def readCallbackObliv_fromL1_def obliv_callback_def r last_answer_def mark_level_def)
  next
    assume "l = 2"
    then show ?thesis
      using lst a sp by (cases "sr_type r") (auto simp: obliv_done_def readCallbackObliv_fromMem_def obliv_callback_def r last_answer_def mark_level_def)
  qed
qed

lemma packet_upd:
  "carryData q = d \<Longrightarrow> q\<lparr>fromLevel := a, isFinalPacket := b, carryData := d\<rparr> = q\<lparr>fromLevel := a, isFinalPacket := b\<rparr>"
  "copyData q = c \<Longrightarrow>
    q\<lparr>fromLevel := a, isFinalPacket := b, carryData := d, copyData := c\<rparr> = q\<lparr>fromLevel := a, isFinalPacket := b, carryData := d\<rparr>"
  "copyData q = c \<Longrightarrow> q\<lparr>copyData := c\<rparr> = q"
  by (cases q; simp)+

lemma hitCallbackObliv_eq:
  assumes lst: "last_answer (sr_type r) hit l = Some lst" and sp: "isSpec (pk_cmd (sr_pkt r))"
    and d: "in_line (blockSizeBits s) (sr_pkt r)" "length data = 2 ^ blockSizeBits s"
  shows "hitCallbackObliv k (if hit then r\<lparr>sr_pkt := mark_level l (sr_pkt r)\<rparr> else r) hit data l s =
    Some (answer (sent_packet l hit lst (sr_pkt r)) (sent_bytes s hit (sr_pkt r) data) None
      (if lst then s else s\<lparr>m_specldRequestTable := assign k (r\<lparr>sr_pkt := kept_packet l hit (sr_pkt r)\<rparr>) (m_specldRequestTable s)\<rparr>))"
proof (cases hit)
  case True
  have "in_line (blockSizeBits s) (mark_level l (sr_pkt r))" using d(1) by (simp add: in_line_def)
  note b = read_bytes_ok [OF this d(2)]
  then show ?thesis
    using True lst sp
    by (cases "copyData (sr_pkt r)"; cases lst)
       (simp_all add: hitCallbackObliv_def Let_def kept_packet_def sent_packet_def sent_bytes_def packet_upd)
next
  case False
  then show ?thesis
    using lst sp
    by (cases lst) (simp_all add: hitCallbackObliv_def Let_def kept_packet_def sent_packet_def sent_bytes_def packet_upd)
qed

lemma obliv_step:
  assumes inv: "seq_inv buf s" and r: "map_of (m_specldRequestTable s) (a, i) = Some r" and l: "l \<le> 2"
    and lst: "last_answer (sr_type r) hit l = Some lst" and d: "length data = 2 ^ blockSizeBits s"
  obtains s1 where "obliv_done l a i hit data s = Some (answer (sent_packet l hit lst (sr_pkt r)) (sent_bytes s hit (sr_pkt r) data) None s1)"
    and "seq_inv buf s1" and "answered s1 = answered s" and "blockSizeBits s1 = blockSizeBits s"
    and "m_specldRequestTable s1 = (if lst then erase (a, i) (m_specldRequestTable s)
      else assign (a, i) (r\<lparr>sr_pkt := kept_packet l hit (sr_pkt r)\<rparr>) (m_specldRequestTable s))"
proof -
  have e: "specld_entry s (a, i) r" using seq_invD(9) [OF inv map_of_SomeD [OF r]] .
  then have sp: "isSpec (pk_cmd (sr_pkt r))" "in_line (blockSizeBits s) (sr_pkt r)" "makeLineAddress s a = a"
    by (auto simp: specld_entry_def makeLineAddress_def)
  note eq = obliv_done_eq [OF l r lst sp(3, 1)] and hc = hitCallbackObliv_eq [OF lst sp(1)]
  show thesis
  proof (cases lst)
    case True
    obtain s1 where s1: "markRemoved (s\<lparr>m_specldRequestTable := erase (a, i) (m_specldRequestTable s)\<rparr>) = Some s1" "seq_inv buf s1"
      "s1 = s\<lparr>m_specldRequestTable := erase (a, i) (m_specldRequestTable s), m_outstanding_count := m_outstanding_count s - 1\<rparr>"
      by (rule remove_specld [OF inv r])
    have b: "blockSizeBits s1 = blockSizeBits s" by (simp add: s1(3))
    have "sent_bytes s1 hit (sr_pkt r) data = sent_bytes s hit (sr_pkt r) data" by (simp add: sent_bytes_def getOffset_def b)
    then have "obliv_done l a i hit data s = Some (answer (sent_packet l hit lst (sr_pkt r)) (sent_bytes s hit (sr_pkt r) data) None s1)"
      using eq [of data] hc [of s1 data "(a, i)"] s1(1) sp(2) d b True by simp
    then show thesis using that [of s1] s1(2, 3) True by simp
  next
    case False
    let ?s = "s\<lparr>m_specldRequestTable := assign (a, i) (r\<lparr>sr_pkt := kept_packet l hit (sr_pkt r)\<rparr>) (m_specldRequestTable s)\<rparr>"
    have e': "specld_entry s (a, i) (r\<lparr>sr_pkt := kept_packet l hit (sr_pkt r)\<rparr>)"
      using e by (simp add: specld_entry_def in_line_def ld_idx_def)
    have "specld_entry s k r'" if "(k, r') \<in> set (m_specldRequestTable ?s)" for k r'
      using that set_assignD [of "(k, r')" "(a, i)"] e' seq_invD(9) [OF inv] by fastforce
    then have "seq_inv buf ?s"
      using inv by (auto simp: seq_inv_def count_ok_def entry_cong [of ?s s])
    moreover have "obliv_done l a i hit data s = Some (answer (sent_packet l hit lst (sr_pkt r)) (sent_bytes s hit (sr_pkt r) data) None ?s)"
      using eq [of data] hc [of s data "(a, i)"] sp(2) d False by simp
    ultimately show thesis using that [of ?s] False by simp
  qed
qed

section \<open>Every legal order of events\<close>

lemma seq_exec_ok:
  assumes inv: "seq_inv buf s" and legal: "seq_legal buf ev s"
  shows "\<exists>st s'. seq_exec buf cached ev s = Some (st, s') \<and> seq_inv buf s'"
proof (cases ev)
  case (Make pkt)
  then show ?thesis using makeRequest_ok [OF inv] legal by fastforce
next
  case (Read_done a data h0 h1 hm)
  then obtain r where "map_of (m_readRequestTable s) a = Some r" "length data = 2 ^ blockSizeBits s"
    using legal by (auto simp: seq_legal_def)
  from readCallback_ok [OF inv this, of h0 h1 hm] show ?thesis using Read_done by auto
next
  case (Write_done a data)
  then obtain r where "map_of (m_writeRequestTable s) a = Some r" "length data = 2 ^ blockSizeBits s"
    using legal by (auto simp: seq_legal_def)
  from writeCallback_ok [OF inv this, of cached] show ?thesis using Write_done by auto
next
  case (Obliv_done l a i hit data)
  then obtain r lst where r: "map_of (m_specldRequestTable s) (a, i) = Some r" "l \<le> 2" "last_answer (sr_type r) hit l = Some lst"
    "length data = 2 ^ blockSizeBits s"
    using legal by (auto simp: seq_legal_def split: option.splits)
  obtain s1 where "obliv_done l a i hit data s = Some (answer (sent_packet l hit lst (sr_pkt r)) (sent_bytes s hit (sr_pkt r) data) None s1)"
    "seq_inv buf s1" using obliv_step [OF inv r] by metis
  then show ?thesis using Obliv_done by simp
qed

inductive seq_reachable :: "(Packet \<Rightarrow> 8 word list) \<Rightarrow> (Addr \<Rightarrow> bool) \<Rightarrow> int \<Rightarrow> nat \<Rightarrow> Sequencer \<Rightarrow> bool"
  for buf :: "Packet \<Rightarrow> 8 word list" and cached :: "Addr \<Rightarrow> bool" and n :: int and bits :: nat where
  start: "seq_reachable buf cached n bits (mk_Sequencer n bits)"
| step: "seq_reachable buf cached n bits s \<Longrightarrow> seq_legal buf ev s \<Longrightarrow> seq_exec buf cached ev s = Some (st, s') \<Longrightarrow>
    seq_reachable buf cached n bits s'"

section \<open>What no operation changes\<close>

definition same_params :: "Sequencer \<Rightarrow> Sequencer \<Rightarrow> bool" where
  "same_params s s' \<longleftrightarrow> m_max_outstanding_requests s' = m_max_outstanding_requests s \<and> blockSizeBits s' = blockSizeBits s"

lemma insert_params:
  "insertRequest pkt ty s = Some (st, s') \<Longrightarrow> same_params s s'"
  "insertSpecldRequest pkt ty s = Some (st, s') \<Longrightarrow> same_params s s'"
  by (auto simp: insertRequest_def insertRead_def insertSpecldRequest_def same_params_def Let_def assertion_def
      split: if_splits option.splits)

lemma makeRequest_params: "makeRequest pkt s = Some (st, s') \<Longrightarrow> same_params s s'"
  by (auto simp: makeRequest_def bind_eq_Some_conv split: if_splits dest!: insert_params) (auto simp: same_params_def)

lemma markRemoved_params: "markRemoved s = Some s' \<Longrightarrow> same_params s s'"
  by (auto simp: markRemoved_def Let_def assertion_def same_params_def split: if_splits)

lemma hitCallback_params:
  assumes "hitCallback buf r data ok sc s = Some (d, s')"
  obtains b where "s' = answer (sr_pkt r) b sc s"
  using assms unfolding hitCallback_def Let_def by (auto simp: bind_eq_Some_conv simp del: insert_iff split: if_splits)

lemma answer_params [simp]: "same_params s (answer p b sc s') = same_params s s'"
  by (simp add: same_params_def answer_def)

lemma writeCallback_params:
  assumes "writeCallback buf cached a data s = Some (d, s')"
  shows "same_params s s'"
proof -
  obtain r s1 where s1: "markRemoved (s\<lparr>m_writeRequestTable := erase a (m_writeRequestTable s)\<rparr>) = Some s1"
    and h: "(let (success, sc, s) = handleLlsc cached a r s1;
       s = (if sr_type r = RT_Locked_RMW_Read then s\<lparr>m_block_map := a # removeAll a (m_block_map s)\<rparr>
              else if sr_type r = RT_Locked_RMW_Write then s\<lparr>m_block_map := removeAll a (m_block_map s)\<rparr> else s)
     in hitCallback buf r data success sc s) = Some (d, s')"
    using assms by (auto simp: writeCallback_def bind_eq_Some_conv)
  have "same_params s s1" using markRemoved_params [OF s1] by (simp add: same_params_def)
  moreover have "same_params s1 s'"
    using h by (auto simp: handleLlsc_def Let_def same_params_def answer_def split: if_splits elim!: hitCallback_params)
  ultimately show ?thesis by (simp add: same_params_def)
qed

lemma readCallback_params:
  assumes "readCallback buf a data h0 h1 hm s = Some (d, s')"
  shows "same_params s s'"
proof -
  obtain r s1 s2 where s1: "markRemoved (s\<lparr>m_readRequestTable := erase a (m_readRequestTable s)\<rparr>) = Some s1"
    and s2: "(if sr_type r = RT_LD then foldM (answer_dependent data) s1 (dependentRequests r) else Some s1) = Some s2"
    and h: "hitCallback buf (r\<lparr>sr_pkt := hit_at h0 h1 hm (sr_pkt r)\<rparr>) data True None s2 = Some (d, s')"
    using assms unfolding readCallback_def by (auto simp: bind_eq_Some_conv simp del: insert_iff)
  have "same_params s s1" using markRemoved_params [OF s1] by (simp add: same_params_def)
  moreover have "same_params s1 s2" if "foldM (answer_dependent data) s1 (dependentRequests r) = Some s2"
    using that by (rule foldM_preserves [where I = "same_params s1"])
      (auto simp: answer_dependent_def bind_eq_Some_conv, simp add: same_params_def)
  then have "same_params s1 s2" using s2 by (auto simp: same_params_def split: if_splits)
  moreover have "same_params s2 s'" using h by (auto elim!: hitCallback_params) (simp add: same_params_def)
  ultimately show ?thesis by (simp add: same_params_def)
qed

lemma obliv_done_params:
  assumes "obliv_done l a i hit data s = Some s'"
  shows "same_params s s'"
proof -
  obtain k r hit' l' s1 where s1: "same_params s s1" and h: "hitCallbackObliv k r hit' data l' s1 = Some s'"
    using assms by (auto simp: obliv_done_def readCallbackObliv_fromL0_def readCallbackObliv_fromL1_def readCallbackObliv_fromMem_def
        obliv_callback_def bind_eq_Some_conv split: if_splits dest!: markRemoved_params)
      (auto simp: same_params_def)
  show ?thesis using s1 h by (auto simp: hitCallbackObliv_def Let_def bind_eq_Some_conv split: if_splits) (simp_all add: same_params_def)
qed

lemma seq_exec_params:
  assumes "seq_exec buf cached ev s = Some (st, s')"
  shows "same_params s s'"
  using assms by (cases ev) (auto dest: makeRequest_params readCallback_params writeCallback_params obliv_done_params)

lemma reachable_seq_inv:
  assumes "seq_reachable buf cached n bits s" "0 \<le> n"
  shows "seq_inv buf s \<and> m_max_outstanding_requests s = n \<and> blockSizeBits s = bits"
  using assms
proof (induction rule: seq_reachable.induct)
  case start
  then show ?case by (simp add: seq_inv_def mk_Sequencer_def count_ok_def)
next
  case (step s ev st s')
  then show ?case using seq_exec_ok [of buf s ev cached] seq_exec_params [OF step.hyps(3)] by (auto simp: same_params_def)
qed

end
