(* ===== verification/Sequencer_Props.thy ===== *)
theory Sequencer_Props
  imports Sequencer_Inv
begin

text \<open>
  What the load/store unit may rely on: the sequencer never traps, its tables stay within
  their bounds, and an oblivious load gets exactly one answer per level it visits, whatever
  else happens in between.
\<close>


text \<open>
  (C30) The count of outstanding requests is that of the entries of the three tables and
  never exceeds the maximum; a line is never being read and written at the same time, nor is
  there more than one read or one write of it; and a packet is refused for lack of room
  exactly when the maximum is reached.
\<close>

theorem outstanding_bounded:
  assumes "seq_reachable buf cached n bits s" "0 \<le> n" "seq_legal buf (Make pkt) s"
  shows "m_outstanding_count s =
      int (length (m_readRequestTable s) + length (m_writeRequestTable s) + length (m_specldRequestTable s)) \<and>
    0 \<le> m_outstanding_count s \<and> m_outstanding_count s \<le> n \<and>
    distinct (map fst (m_readRequestTable s) @ map fst (m_writeRequestTable s)) \<and>
    ((\<exists>s'. makeRequest pkt s = Some (RS_BufferFull, s')) \<longleftrightarrow> m_outstanding_count s = n)"
proof -
  have inv: "seq_inv buf s" and n: "m_max_outstanding_requests s = n" using reachable_seq_inv [OF assms(1, 2)] by auto
  have c: "m_outstanding_count s =
      int (length (m_readRequestTable s) + length (m_writeRequestTable s) + length (m_specldRequestTable s))" "m_outstanding_count s \<le> n"
    using seq_invD(1, 2) [OF inv] n by (auto simp: count_ok_def)
  have "st \<noteq> RS_BufferFull" if "insertRequest pkt ty s = Some (st, s') \<or> insertSpecldRequest pkt ty s = Some (st, s')" for ty st s'
    using that by (auto simp: insertRequest_def insertRead_def insertSpecldRequest_def Let_def assertion_def split: if_splits option.splits)
  then have "(\<exists>s'. makeRequest pkt s = Some (RS_BufferFull, s')) \<longleftrightarrow> m_outstanding_count s = n"
    using c n by (fastforce simp: makeRequest_def bind_eq_Some_conv split: if_splits)
  then show ?thesis using c seq_invD(3, 4, 6) [OF inv] by simp
qed

section \<open>The answers of one oblivious load\<close>

definition answers_of :: "SpecldKeyType \<Rightarrow> Sequencer \<Rightarrow> Answer list" where
  "answers_of k s = filter (\<lambda>a. isSpec (pk_cmd (an_pkt a)) \<and> (pkt_line s (an_pkt a), ld_idx (an_pkt a)) = k) (answered s)"

text \<open>A legal run, with the statuses that the requests were given.\<close>

fun seq_run ::
  "(Packet \<Rightarrow> 8 word list) \<Rightarrow> (Addr \<Rightarrow> bool) \<Rightarrow> seq_event list \<Rightarrow> Sequencer \<Rightarrow> (RequestStatus option list \<times> Sequencer) option" where
  "seq_run buf cached [] s = Some ([], s)"
| "seq_run buf cached (ev # es) s = do {
     assertion (seq_legal buf ev s);
     (st, s) \<leftarrow> seq_exec buf cached ev s;
     (sts, s) \<leftarrow> seq_run buf cached es s;
     Some (st # sts, s)
   }"

fun obliv_at :: "SpecldKeyType \<Rightarrow> seq_event list \<Rightarrow> (nat \<times> bool \<times> DataBlock) list" where
  "obliv_at k [] = []"
| "obliv_at k (Obliv_done l a i hit data # es) = (if (a, i) = k then (l, hit, data) # obliv_at k es else obliv_at k es)"
| "obliv_at k (_ # es) = obliv_at k es"

text \<open>The number of levels that answer a load of a type, when \<open>hs\<close> tells the levels that hit.\<close>

definition answer_count :: "RubyRequestType \<Rightarrow> (nat \<Rightarrow> bool) \<Rightarrow> nat" where
  "answer_count ty hs = (case ty of RT_SPEC_LD_L0 \<Rightarrow> 1 | RT_SPEC_LD_L1 \<Rightarrow> 2 | RT_SPEC_LD_Mem \<Rightarrow> 3
     | _ \<Rightarrow> if hs 0 then 1 else if hs 1 then 2 else 3)"

definition first_hit :: "(nat \<Rightarrow> bool) \<Rightarrow> nat \<Rightarrow> bool" where
  "first_hit hs l \<longleftrightarrow> hs l \<and> (\<forall>j<l. \<not> hs j)"

definition oblivious_answer :: "nat \<Rightarrow> Packet \<Rightarrow> (nat \<Rightarrow> bool) \<Rightarrow> (nat \<Rightarrow> DataBlock) \<Rightarrow> nat \<Rightarrow> nat \<Rightarrow> Answer" where
  "oblivious_answer bits pkt hs ds n l =
     \<lparr>an_pkt = pkt\<lparr>isL0Hit := hs 0, isL1Hit := 1 \<le> l \<and> hs 1, isMemHit := 2 \<le> l \<and> hs 2, fromLevel := (if l = 2 then 3 else int l),
        isFinalPacket := (Suc l = n), copyData := (\<exists>j<l. hs j) \<or> Suc l = n \<and> hs l, carryData := first_hit hs l\<rparr>,
      an_data = (if first_hit hs l
        then Some (take (getSize (pk_req pkt)) (drop (unat (take_bit bits (pkt_addr pkt))) (ds l))) else None),
      an_sc = None\<rparr>"

definition progress :: "Packet \<Rightarrow> (nat \<Rightarrow> bool) \<Rightarrow> nat \<Rightarrow> Packet" where
  "progress pkt hs j = pkt\<lparr>isL0Hit := 0 < j \<and> hs 0, isL1Hit := 1 < j \<and> hs 1, isMemHit := 2 < j \<and> hs 2, copyData := (\<exists>i<j. hs i)\<rparr>"

definition untouched :: "Packet \<Rightarrow> bool" where
  "untouched pkt \<longleftrightarrow> \<not> isL0Hit pkt \<and> \<not> isL1Hit pkt \<and> \<not> isMemHit pkt \<and> \<not> copyData pkt \<and> \<not> carryData pkt"

lemma progress_0: "untouched pkt \<Longrightarrow> progress pkt hs 0 = pkt"
  by (cases pkt) (simp add: untouched_def progress_def)

lemma below_level:
  "(\<exists>i<(0::nat). P i) \<longleftrightarrow> False" "(\<exists>i<(1::nat). P i) \<longleftrightarrow> P 0" "(\<exists>i<(2::nat). P i) \<longleftrightarrow> P 0 \<or> P 1" "(\<exists>i<(3::nat). P i) \<longleftrightarrow> P 0 \<or> P 1 \<or> P 2"
  "(\<forall>i<(0::nat). P i) \<longleftrightarrow> True" "(\<forall>i<(1::nat). P i) \<longleftrightarrow> P 0" "(\<forall>i<(2::nat). P i) \<longleftrightarrow> P 0 \<and> P 1"
  by (auto simp: less_Suc_eq numeral_2_eq_2 numeral_3_eq_3)

lemma level_cases [consumes 1, case_names L0 L1 Mem]: "j \<le> (2::nat) \<Longrightarrow> (j = 0 \<Longrightarrow> R) \<Longrightarrow> (j = 1 \<Longrightarrow> R) \<Longrightarrow> (j = 2 \<Longrightarrow> R) \<Longrightarrow> R"
  by arith

lemma Suc_levels: "Suc 0 = 1" "Suc 1 = 2" "Suc 2 = 3"
  by simp_all

lemma progress_Suc:
  assumes "j \<le> 2"
  shows "kept_packet j (hs j) (progress pkt hs j) = progress pkt hs (Suc j)"
  using assms
proof (cases rule: level_cases)
  case L0
  then show ?thesis by (cases "hs j") (simp_all add: kept_packet_def progress_def mark_level_def below_level Suc_levels(2, 3) flip: numeral_2_eq_2)
next
  case L1
  then show ?thesis by (cases "hs j") (simp_all add: kept_packet_def progress_def mark_level_def below_level Suc_levels(2, 3) flip: numeral_2_eq_2)
next
  case Mem
  then show ?thesis by (cases "hs j") (simp_all add: kept_packet_def progress_def mark_level_def below_level Suc_levels(2, 3) flip: numeral_2_eq_2)
qed

lemma progress_carry: "untouched pkt \<Longrightarrow> carryData (progress pkt hs j) = False"
  by (simp add: progress_def untouched_def)

lemma progress_sent:
  assumes "j \<le> 2" "untouched pkt"
  shows "sent_packet j (hs j) f (progress pkt hs j) =
    pkt\<lparr>isL0Hit := hs 0, isL1Hit := 1 \<le> j \<and> hs 1, isMemHit := 2 \<le> j \<and> hs 2, fromLevel := (if j = 2 then 3 else int j),
        isFinalPacket := f, copyData := (\<exists>i<j. hs i) \<or> f \<and> hs j, carryData := first_hit hs j\<rparr>"
  using assms(1)
proof (cases rule: level_cases)
  case L0
  then show ?thesis
    using assms(2) by (cases "hs 0") (simp_all add: sent_packet_def progress_def mark_level_def first_hit_def visibleSDOLevel_def untouched_def)
next
  case L1
  then show ?thesis
    using assms(2) by (cases "hs 1") (simp_all add: sent_packet_def progress_def mark_level_def first_hit_def visibleSDOLevel_def untouched_def below_level)
next
  case Mem
  then show ?thesis
    using assms(2) by (cases "hs 2") (simp_all add: sent_packet_def progress_def mark_level_def first_hit_def visibleSDOLevel_def untouched_def below_level)
qed

lemma progress_answer:
  assumes "j \<le> 2" "untouched pkt" "blockSizeBits s = bits"
  shows "\<lparr>an_pkt = sent_packet j (hs j) (Suc j = n) (progress pkt hs j), an_data = sent_bytes s (hs j) (progress pkt hs j) (ds j), an_sc = None\<rparr>
    = oblivious_answer bits pkt hs ds n j"
  unfolding progress_sent [OF assms(1, 2)] oblivious_answer_def
  using assms(3) by (auto simp: sent_bytes_def first_hit_def progress_def getOffset_def)

lemma last_answer_count:
  assumes "oblivious_type ty" "j < answer_count ty hs"
  shows "j \<le> 2" "last_answer ty (hs j) j = Some (Suc j = answer_count ty hs)"
  using assms
  by (auto simp: oblivious_type_def answer_count_def last_answer_def less_Suc_eq numeral_3_eq_3 numeral_2_eq_2 split: if_splits)

section \<open>Events that are not of the load\<close>

definition event_at :: "SpecldKeyType \<Rightarrow> seq_event \<Rightarrow> bool" where
  "event_at k ev \<longleftrightarrow> (case ev of Obliv_done l a i hit data \<Rightarrow> (a, i) = k | _ \<Rightarrow> False)"

lemma obliv_at_Cons:
  "obliv_at k (ev # es) = (case ev of Obliv_done l a i hit data \<Rightarrow> if (a, i) = k then [(l, hit, data)] else [] | _ \<Rightarrow> []) @ obliv_at k es"
  by (cases ev) auto

lemma answers_of_answer:
  assumes "blockSizeBits s' = blockSizeBits s" "answered s' = answered s @ xs"
  shows "answers_of k s' = answers_of k s @
    filter (\<lambda>a. isSpec (pk_cmd (an_pkt a)) \<and> (pkt_line s (an_pkt a), ld_idx (an_pkt a)) = k) xs"
  using assms by (simp add: answers_of_def makeLineAddress_def)

lemma insert_keeps:
  "insertRequest pkt ty s = Some (st, s') \<Longrightarrow> answered s' = answered s \<and> m_specldRequestTable s' = m_specldRequestTable s"
  "insertSpecldRequest pkt ty s = Some (st, s') \<Longrightarrow> answered s' = answered s \<and>
     (map_of (m_specldRequestTable s) k = Some r \<longrightarrow> map_of (m_specldRequestTable s') k = Some r)"
  by (auto simp: insertRequest_def insertRead_def insertSpecldRequest_def Let_def assertion_def map_of_snoc
      split: if_splits option.splits)

lemma makeRequest_cases:
  assumes "makeRequest pkt s = Some (st, s')"
  obtains "s' = s"
  | ty st1 s1 q where "insertRequest pkt ty s = Some (st1, s1)" "s' = s1\<lparr>m_mandatory_q := q\<rparr>"
  | ty st1 s1 q where "insertSpecldRequest pkt ty s = Some (st1, s1)" "s' = s1\<lparr>m_mandatory_q := q\<rparr>"
proof (cases "m_outstanding_count s \<ge> m_max_outstanding_requests s")
  case True
  then show thesis using assms that(1) by (simp add: makeRequest_def)
next
  case False
  then obtain ty ty' st1 s1 where
    i: "(if isSpec (pk_cmd pkt) then insertSpecldRequest pkt ty s else insertRequest pkt ty s) = Some (st1, s1)"
    and r: "(if st1 = RS_Merged then Some (RS_Issued, s1) else if st1 \<noteq> RS_Ready then Some (st1, s1)
      else Some (RS_Issued, s1\<lparr>m_mandatory_q := m_mandatory_q s1 @ [(pkt, ty')]\<rparr>)) = Some (st, s')"
    using assms by (auto simp: makeRequest_def bind_eq_Some_conv simp del: split_paired_Ex)
  define q where "q = (if st1 = RS_Ready then m_mandatory_q s1 @ [(pkt, ty')] else m_mandatory_q s1)"
  have "s' = s1\<lparr>m_mandatory_q := q\<rparr>" using r by (cases st1) (auto simp: q_def)
  then show thesis using that(2, 3) i by (auto split: if_splits)
qed

lemma makeRequest_keeps:
  assumes "makeRequest pkt s = Some (st, s')"
  shows "answered s' = answered s" "map_of (m_specldRequestTable s) k = Some r \<Longrightarrow> map_of (m_specldRequestTable s') k = Some r"
  using assms by (cases rule: makeRequest_cases; auto dest: insert_keeps(1) insert_keeps(2) [where k = k and r = r])+

lemma other_event:
  assumes inv: "seq_inv buf s" and legal: "seq_legal buf ev s" and ex: "seq_exec buf cached ev s = Some (st, s')"
    and no: "\<not> event_at k ev"
  shows "answers_of k s' = answers_of k s" "map_of (m_specldRequestTable s) k = Some r \<Longrightarrow> map_of (m_specldRequestTable s') k = Some r"
proof -
  note params = seq_exec_params [OF ex]
  then have bits: "blockSizeBits s' = blockSizeBits s" by (simp add: same_params_def)
  have "\<exists>xs. answered s' = answered s @ xs \<and>
      (\<forall>x \<in> set xs. isSpec (pk_cmd (an_pkt x)) \<longrightarrow> (pkt_line s (an_pkt x), ld_idx (an_pkt x)) \<noteq> k) \<and>
      (map_of (m_specldRequestTable s) k = Some r \<longrightarrow> map_of (m_specldRequestTable s') k = Some r)"
  proof (cases ev)
    case (Make pkt)
    then have "makeRequest pkt s = Some (the st, s')" using ex by auto
    from makeRequest_keeps [OF this] show ?thesis by simp
  next
    case (Read_done a data h0 h1 hm)
    then obtain q where "map_of (m_readRequestTable s) a = Some q" "length data = 2 ^ blockSizeBits s"
      using legal by (auto simp: seq_legal_def)
    from readCallback_ok [OF inv this, of h0 h1 hm] obtain d' xs s1 where
      "readCallback buf a data h0 h1 hm s = Some (d', s1\<lparr>answered := answered s @ xs\<rparr>)"
      "m_specldRequestTable s1 = m_specldRequestTable s" "\<forall>x \<in> set xs. \<not> isSpec (pk_cmd (an_pkt x))" by blast
    then show ?thesis using ex Read_done by auto
  next
    case (Write_done a data)
    then obtain q where q: "map_of (m_writeRequestTable s) a = Some q" "length data = 2 ^ blockSizeBits s"
      using legal by (auto simp: seq_legal_def)
    from writeCallback_ok [OF inv this, of cached] obtain d' s1 b sc where
      "writeCallback buf cached a data s = Some (d', answer (sr_pkt q) b sc s1)"
      "m_specldRequestTable s1 = m_specldRequestTable s" "answered s1 = answered s" by blast
    moreover have "\<not> isSpec (pk_cmd (sr_pkt q))"
      using seq_invD(8) [OF inv map_of_SomeD [OF q(1)]] by (simp add: write_entry_def)
    ultimately show ?thesis using ex Write_done by (auto simp: answer_def)
  next
    case (Obliv_done l a i hit data)
    then obtain q lst where q: "map_of (m_specldRequestTable s) (a, i) = Some q" "l \<le> 2" "last_answer (sr_type q) hit l = Some lst"
      "length data = 2 ^ blockSizeBits s"
      using legal by (auto simp: seq_legal_def split: option.splits)
    have ne: "(a, i) \<noteq> k" using no Obliv_done by (simp add: event_at_def)
    have key: "(a, i) = (pkt_line s (sr_pkt q), ld_idx (sr_pkt q))"
      using seq_invD(9) [OF inv map_of_SomeD [OF q(1)]] by (simp add: specld_entry_def)
    obtain s1 where s1: "obliv_done l a i hit data s = Some (answer (sent_packet l hit lst (sr_pkt q)) (sent_bytes s hit (sr_pkt q) data) None s1)"
      "answered s1 = answered s"
      "m_specldRequestTable s1 = (if lst then erase (a, i) (m_specldRequestTable s)
        else assign (a, i) (q\<lparr>sr_pkt := kept_packet l hit (sr_pkt q)\<rparr>) (m_specldRequestTable s))"
      using obliv_step [OF inv q] by metis
    have "s' = answer (sent_packet l hit lst (sr_pkt q)) (sent_bytes s hit (sr_pkt q) data) None s1"
      using ex Obliv_done s1(1) by simp
    then show ?thesis
      using s1(2, 3) ne key by (auto simp: answer_def map_of_erase map_of_assign ld_idx_def)
  qed
  then obtain xs where xs: "answered s' = answered s @ xs"
    "\<forall>x \<in> set xs. isSpec (pk_cmd (an_pkt x)) \<longrightarrow> (pkt_line s (an_pkt x), ld_idx (an_pkt x)) \<noteq> k"
    "map_of (m_specldRequestTable s) k = Some r \<longrightarrow> map_of (m_specldRequestTable s') k = Some r" by blast
  show "answers_of k s' = answers_of k s"
    using answers_of_answer [OF bits xs(1), of k] xs(2) by (simp add: filter_empty_conv)
  show "map_of (m_specldRequestTable s) k = Some r \<Longrightarrow> map_of (m_specldRequestTable s') k = Some r" using xs(3) by blast
qed

section \<open>The answers\<close>

lemma run_answers:
  assumes "seq_inv buf s" "blockSizeBits s = bits" "untouched pkt" "oblivious_type ty"
    and "n = answer_count ty hs"
    and "j < n \<longrightarrow> map_of (m_specldRequestTable s) k = Some \<lparr>sr_pkt = progress pkt hs j, sr_type = ty, dependentRequests = ds'\<rparr>"
    and "obliv_at k es = map (\<lambda>l. (l, hs l, ds l)) [j..<n]" and "j \<le> n" and "seq_run buf cached es s = Some (sts, s')"
  shows "answers_of k s' = answers_of k s @ map (oblivious_answer bits pkt hs ds n) [j..<n]"
  using assms
proof (induction es arbitrary: s j sts)
  case Nil
  then show ?case by simp
next
  case (Cons ev es)
  obtain st s1 sts' where legal: "seq_legal buf ev s" and ex: "seq_exec buf cached ev s = Some (st, s1)" and run: "seq_run buf cached es s1 = Some (sts', s')"
    using Cons.prems(9) by (auto simp: bind_eq_Some_conv)
  have inv1: "seq_inv buf s1" using seq_exec_ok [OF Cons.prems(1) legal, of cached] ex by auto
  have bits1: "blockSizeBits s1 = bits" using seq_exec_params [OF ex] Cons.prems(2) by (simp add: same_params_def)
  show ?case
  proof (cases "event_at k ev")
    case False
    then have at: "obliv_at k es = map (\<lambda>l. (l, hs l, ds l)) [j..<n]"
      using Cons.prems(7) by (simp add: obliv_at_Cons event_at_def split: seq_event.splits)
    note o = other_event [OF Cons.prems(1) legal ex False]
    show ?thesis
      using Cons.IH [OF inv1 bits1 Cons.prems(3-5) _ at Cons.prems(8) run] o(2) Cons.prems(6) o(1) by simp
  next
    case True
    then obtain l a i hit data where ev: "ev = Obliv_done l a i hit data" "k = (a, i)"
      by (auto simp: event_at_def split: seq_event.splits)
    then have jn: "j < n" and at: "l = j" "hit = hs j" "data = ds j" "obliv_at k es = map (\<lambda>l. (l, hs l, ds l)) [Suc j..<n]"
      using Cons.prems(7, 8) by (cases "j < n"; simp add: upt_conv_Cons)+
    define r where "r = \<lparr>sr_pkt = progress pkt hs j, sr_type = ty, dependentRequests = ds'\<rparr>"
    have r: "map_of (m_specldRequestTable s) (a, i) = Some r" using Cons.prems(6) jn ev(2) by (simp add: r_def)
    have j2: "j \<le> 2" and lst: "last_answer (sr_type r) (hs j) j = Some (Suc j = n)"
      using last_answer_count [OF Cons.prems(4), of j hs] jn Cons.prems(5) by (auto simp: r_def)
    have d: "length (ds j) = 2 ^ blockSizeBits s" using legal ev(1) at(3) by (simp add: seq_legal_def)
    obtain s2 where s2: "obliv_done j a i (hs j) (ds j) s =
        Some (answer (sent_packet j (hs j) (Suc j = n) (sr_pkt r)) (sent_bytes s (hs j) (sr_pkt r) (ds j)) None s2)"
      "answered s2 = answered s"
      "m_specldRequestTable s2 = (if Suc j = n then erase (a, i) (m_specldRequestTable s)
        else assign (a, i) (r\<lparr>sr_pkt := kept_packet j (hs j) (sr_pkt r)\<rparr>) (m_specldRequestTable s))"
      using obliv_step [OF Cons.prems(1) r j2 lst d] by metis
    have s1: "s1 = answer (sent_packet j (hs j) (Suc j = n) (sr_pkt r)) (sent_bytes s (hs j) (sr_pkt r) (ds j)) None s2"
      using ex ev(1) at(1-3) s2(1) by simp
    have key: "k = (pkt_line s (sr_pkt r), ld_idx (sr_pkt r))" "isSpec (pk_cmd (sr_pkt r))"
      using seq_invD(9) [OF Cons.prems(1) map_of_SomeD [OF r]] ev(2) by (simp_all add: specld_entry_def)
    have "answered s1 = answered s @ [oblivious_answer bits pkt hs ds n j]"
      using s2(2) progress_answer [OF j2 Cons.prems(3, 2)] by (simp add: s1 answer_def r_def)
    moreover have "blockSizeBits s1 = blockSizeBits s" using bits1 Cons.prems(2) by simp
    ultimately have ans: "answers_of k s1 = answers_of k s @ [oblivious_answer bits pkt hs ds n j]"
      using answers_of_answer [of s1 s] key by (simp add: r_def oblivious_answer_def progress_def ld_idx_def)
    have "Suc j < n \<longrightarrow> map_of (m_specldRequestTable s1) k = Some \<lparr>sr_pkt = progress pkt hs (Suc j), sr_type = ty, dependentRequests = ds'\<rparr>"
      using s2(3) r ev(2) progress_Suc [OF j2] by (auto simp: s1 answer_def map_of_assign r_def)
    from Cons.IH [OF inv1 bits1 Cons.prems(3-5) this at(4) _ run] show ?thesis
      using jn ans by (simp add: upt_conv_Cons)
  qed
qed

text \<open>
  (C6) An oblivious load in the table gets, from the callbacks of its levels in order and
  whatever requests and callbacks of others come in between, exactly one answer per level it
  visits: \<open>answer_count\<close> answers, of which only the last is final, each with the levels that
  have hit so far. The first hit, and only it, carries the data of the line.
\<close>

theorem oblivious_load_answers:
  assumes "seq_reachable buf cached max_req bits s" "0 \<le> max_req"
    and "map_of (m_specldRequestTable s) k = Some r" "untouched (sr_pkt r)"
    and "obliv_at k es = map (\<lambda>l. (l, hs l, ds l)) [0..<answer_count (sr_type r) hs]"
    and "seq_run buf cached es s = Some (sts, s')"
  shows "answers_of k s' = answers_of k s @
    map (oblivious_answer bits (sr_pkt r) hs ds (answer_count (sr_type r) hs)) [0..<answer_count (sr_type r) hs]"
proof -
  have inv: "seq_inv buf s" "blockSizeBits s = bits" using reachable_seq_inv [OF assms(1, 2)] by auto
  have e: "specld_entry s k r" using seq_invD(9) [OF inv(1) map_of_SomeD [OF assms(3)]] .
  then have "oblivious_type (sr_type r)"
    using request_type_cases(1) [of "sr_pkt r" "sr_type r" "sr_type r"] by (simp add: specld_entry_def)
  then show ?thesis
    using run_answers [OF inv assms(4) _ refl _ assms(5) _ assms(6), of "dependentRequests r"] assms(3)
    by (simp add: progress_0 [OF assms(4)])
qed

end
