(* ===== verification/Sequencer_Security.thy ===== *)
theory Sequencer_Security
  imports Sequencer_Props
begin

text \<open>
  Oblivious loads reveal nothing to the sequencer's clients: a non-interference theorem. The
  secret is where an oblivious load hits and what it reads; the view of an observer keeps
  the tables, the requests sent on and every answer with its level and finality, and hides
  the hit flags and the data of oblivious loads.
\<close>

definition hide :: "Packet \<Rightarrow> Packet" where
  "hide pkt = (if isSpec (pk_cmd pkt)
     then pkt\<lparr>isL0Hit := False, isL1Hit := False, isMemHit := False, copyData := False, carryData := False\<rparr> else pkt)"

definition hide_request :: "SequencerRequest \<Rightarrow> SequencerRequest" where
  "hide_request r = r\<lparr>sr_pkt := hide (sr_pkt r)\<rparr>"

definition hide_answer :: "Answer \<Rightarrow> Answer" where
  "hide_answer a = (if isSpec (pk_cmd (an_pkt a)) then a\<lparr>an_pkt := hide (an_pkt a), an_data := None\<rparr> else a)"

definition view :: "Sequencer \<Rightarrow> Sequencer" where
  "view s = s\<lparr>m_specldRequestTable := map (\<lambda>e. (fst e, hide_request (snd e))) (m_specldRequestTable s),
     m_mandatory_q := map (\<lambda>e. (hide (fst e), snd e)) (m_mandatory_q s), answered := map hide_answer (answered s)\<rparr>"

fun view_event :: "seq_event \<Rightarrow> seq_event" where
  "view_event (Make pkt) = Make (hide pkt)"
| "view_event (Obliv_done l a i hit data) = Obliv_done l a i False []"
| "view_event ev = ev"

text \<open>The predictions of a real predictor; a perfect one is an oracle whose packets stop at the level that hits.\<close>

definition real_type :: "RubyRequestType \<Rightarrow> bool" where
  "real_type ty \<longleftrightarrow> ty \<in> {RT_SPEC_LD_L0, RT_SPEC_LD_L1, RT_SPEC_LD_Mem}"

definition real_state :: "Sequencer \<Rightarrow> bool" where
  "real_state s \<longleftrightarrow> (\<forall>(k, r) \<in> set (m_specldRequestTable s). real_type (sr_type r))"

definition real_event :: "seq_event \<Rightarrow> bool" where
  "real_event ev = (case ev of Make pkt \<Rightarrow> pk_cmd pkt \<notin> {ReadSpecPerfectReq, ReadSpecPerfectUnsafeReq} | _ \<Rightarrow> True)"

lemma hide_same [simp]:
  "pk_req (hide pkt) = pk_req pkt" "pk_cmd (hide pkt) = pk_cmd pkt" "pk_reqIdx (hide pkt) = pk_reqIdx pkt" "pk_first (hide pkt) = pk_first pkt"
  "pk_isSplit (hide pkt) = pk_isSplit pkt" "ld_idx (hide pkt) = ld_idx pkt" "request_type (hide pkt) = request_type pkt"
proof -
  show s: "pk_req (hide pkt) = pk_req pkt" "pk_cmd (hide pkt) = pk_cmd pkt" "pk_reqIdx (hide pkt) = pk_reqIdx pkt"
    "pk_first (hide pkt) = pk_first pkt" "pk_isSplit (hide pkt) = pk_isSplit pkt"
    by (simp_all add: hide_def)
  then show "ld_idx (hide pkt) = ld_idx pkt" by (simp add: ld_idx_def)
  show "request_type (hide pkt) = request_type pkt" unfolding request_type_def s ..
qed

lemma hide_idle: "\<not> isSpec (pk_cmd pkt) \<Longrightarrow> hide pkt = pkt"
  by (simp add: hide_def)

lemma view_sel [simp]:
  "m_readRequestTable (view s) = m_readRequestTable s" "m_writeRequestTable (view s) = m_writeRequestTable s"
  "m_outstanding_count (view s) = m_outstanding_count s" "m_max_outstanding_requests (view s) = m_max_outstanding_requests s"
  "blockSizeBits (view s) = blockSizeBits s" "m_block_map (view s) = m_block_map s" "m_locked (view s) = m_locked s"
  "m_specldRequestTable (view s) = map (\<lambda>e. (fst e, hide_request (snd e))) (m_specldRequestTable s)"
  "m_mandatory_q (view s) = map (\<lambda>e. (hide (fst e), snd e)) (m_mandatory_q s)" "answered (view s) = map hide_answer (answered s)"
  by (simp_all add: view_def)

lemma view_funs [simp]: "makeLineAddress (view s) = makeLineAddress s" "getOffset (view s) = getOffset s" "count_ok (view s) = count_ok s"
  "isBlocked (view s) = isBlocked s" "read_bytes (view s) = read_bytes s"
  by (simp_all add: makeLineAddress_def getOffset_def count_ok_def isBlocked_def read_bytes_def fun_eq_iff)

lemma map_of_view: "map_of (m_specldRequestTable (view s)) k = map_option hide_request (map_of (m_specldRequestTable s) k)"
proof -
  have "map_of (map (\<lambda>e. (fst e, hide_request (snd e))) t) k = map_option hide_request (map_of t k)" for t :: "(SpecldKeyType \<times> SequencerRequest) list"
    by (induction t) auto
  then show ?thesis by simp
qed

lemma bind_commute: "(\<And>y. x = Some y \<Longrightarrow> h (g y) = map_option g' (h' y)) \<Longrightarrow> map_option g x \<bind> h = map_option g' (x \<bind> h')"
  by (cases x) auto

lemma assertion_commute: "(b \<Longrightarrow> x = map_option g y) \<Longrightarrow> assertion b \<bind> (\<lambda>_. x) = map_option g (assertion b \<bind> (\<lambda>_. y))"
  by (cases b) (auto simp: assertion_def)

section \<open>Every operation commutes with the view\<close>

lemma view_answer: "view (answer pkt b sc s) = answer (hide pkt) (if isSpec (pk_cmd pkt) then None else b) sc (view s)"
  by (simp add: view_def answer_def hide_answer_def hide_def)

lemma view_markRemoved: "markRemoved (view s) = map_option view (markRemoved s)"
  by (auto simp: markRemoved_def Let_def assertion_def count_ok_def)

lemma view_insertRequest:
  assumes "\<not> isSpec (pk_cmd pkt)"
  shows "insertRequest pkt ty (view s) = map_option (\<lambda>(st, s). (st, view s)) (insertRequest pkt ty s)"
proof -
  have r: "insertRead pkt ty (view s) = (fst (insertRead pkt ty s), view (snd (insertRead pkt ty s)))"
    by (auto simp: insertRead_def Let_def split: option.splits)
  have w: "count_ok ((view s)\<lparr>m_writeRequestTable := t, m_outstanding_count := n\<rparr>) = count_ok (s\<lparr>m_writeRequestTable := t, m_outstanding_count := n\<rparr>)"
    "(view s)\<lparr>m_writeRequestTable := t, m_outstanding_count := n\<rparr> = view (s\<lparr>m_writeRequestTable := t, m_outstanding_count := n\<rparr>)" for t n
    by (simp_all add: count_ok_def view_def)
  obtain st s1 where i: "insertRead pkt ty s = (st, s1)" by fastforce
  show ?thesis
    unfolding insertRequest_def Let_def r i by (simp add: w assertion_def)
qed

lemma view_insertSpecld:
  "insertSpecldRequest (hide pkt) ty (view s) = map_option (\<lambda>(st, s). (st, view s)) (insertSpecldRequest pkt ty s)"
proof -
  have w: "(view s)\<lparr>m_specldRequestTable := m_specldRequestTable (view s) @ [(k, mk_SequencerRequest (hide pkt) ty)], m_outstanding_count := n\<rparr>
    = view (s\<lparr>m_specldRequestTable := m_specldRequestTable s @ [(k, mk_SequencerRequest pkt ty)], m_outstanding_count := n\<rparr>)" for k n
    by (simp add: view_def hide_request_def mk_SequencerRequest_def)
  show ?thesis
    unfolding insertSpecldRequest_def Let_def map_of_view w hide_same view_funs view_sel(3) by (simp add: assertion_def)
qed

lemma view_makeRequest: "makeRequest (hide pkt) (view s) = map_option (\<lambda>(st, s). (st, view s)) (makeRequest pkt s)"
proof -
  have q: "(view s)\<lparr>m_mandatory_q := m_mandatory_q (view s) @ [(hide pkt, ty)]\<rparr> = view (s\<lparr>m_mandatory_q := m_mandatory_q s @ [(pkt, ty)]\<rparr>)" for s ty
    by (simp add: view_def)
  have i: "(if isSpec (pk_cmd pkt) then insertSpecldRequest (hide pkt) ty (view s) else insertRequest (hide pkt) ty (view s)) =
     map_option (\<lambda>(st, s). (st, view s)) (if isSpec (pk_cmd pkt) then insertSpecldRequest pkt ty s else insertRequest pkt ty s)" for ty
    using view_insertSpecld [of pkt ty s] view_insertRequest [of pkt ty s] hide_idle [of pkt] by auto
  show ?thesis
  proof (cases "m_outstanding_count s \<ge> m_max_outstanding_requests s")
    case True
    then show ?thesis by (simp add: makeRequest_def)
  next
    case False
    then show ?thesis
      unfolding makeRequest_def hide_same i view_sel(3, 4)
      by (cases "request_type pkt"; cases "if isSpec (pk_cmd pkt) then insertSpecldRequest pkt (fst (the (request_type pkt))) s
            else insertRequest pkt (fst (the (request_type pkt))) s")
         (auto simp: q simp del: view_sel(9))
  qed
qed

lemma view_hitCallback:
  assumes "\<not> isSpec (pk_cmd (sr_pkt r))"
  shows "hitCallback buf r data ok sc (view s) = map_option (\<lambda>(d, s). (d, view s)) (hitCallback buf r data ok sc s)"
proof -
  have a: "answer (sr_pkt r) b sc (view s) = view (answer (sr_pkt r) b sc s)" for b
    using assms by (simp add: view_answer hide_idle)
  show ?thesis
    unfolding hitCallback_def Let_def view_funs a by (auto simp: map_option_bind comp_def simp del: insert_iff intro!: Option.bind_cong)
qed

lemma view_upd:
  "(view s)\<lparr>m_writeRequestTable := t\<rparr> = view (s\<lparr>m_writeRequestTable := t\<rparr>)" "(view s)\<lparr>m_readRequestTable := t\<rparr> = view (s\<lparr>m_readRequestTable := t\<rparr>)"
  "(view s)\<lparr>m_block_map := b\<rparr> = view (s\<lparr>m_block_map := b\<rparr>)" "(view s)\<lparr>m_locked := l\<rparr> = view (s\<lparr>m_locked := l\<rparr>)"
  by (simp_all add: view_def)

lemma view_handleLlsc: "handleLlsc cached a r (view s) = (case handleLlsc cached a r s of (ok, sc, s) \<Rightarrow> (ok, sc, view s))"
  by (simp add: handleLlsc_def Let_def view_upd)

lemma view_writeCallback:
  assumes inv: "seq_inv buf s"
  shows "writeCallback buf cached a data (view s) = map_option (\<lambda>(d, s). (d, view s)) (writeCallback buf cached a data s)"
proof (cases "map_of (m_writeRequestTable s) a")
  case None
  then show ?thesis by (simp add: writeCallback_def)
next
  case (Some r)
  then have r: "\<not> isSpec (pk_cmd (sr_pkt r))" using seq_invD(8) [OF inv map_of_SomeD [OF Some]] by (simp add: write_entry_def)
  define f :: "Sequencer \<Rightarrow> Sequencer" where "f = (\<lambda>s. if sr_type r = RT_Locked_RMW_Read then s\<lparr>m_block_map := a # removeAll a (m_block_map s)\<rparr>
      else if sr_type r = RT_Locked_RMW_Write then s\<lparr>m_block_map := removeAll a (m_block_map s)\<rparr> else s)"
  have f: "f (view s) = view (f s)" for s by (simp add: f_def view_upd)
  have eq: "writeCallback buf cached a data s = do {
     assertion (a = makeLineAddress s a);
     s \<leftarrow> markRemoved (s\<lparr>m_writeRequestTable := erase a (m_writeRequestTable s)\<rparr>);
     assertion (store_type (sr_type r) \<or> sr_type r = RT_ATOMIC);
     case handleLlsc cached a r s of (success, sc, s) \<Rightarrow> hitCallback buf r data success sc (f s) }"
    if "map_of (m_writeRequestTable s) a = Some r" for s
    using that by (simp add: writeCallback_def f_def Let_def)
  show ?thesis
    unfolding eq [OF Some] eq [of "view s", unfolded view_sel(2), OF Some] view_funs view_upd view_markRemoved
    by (intro assertion_commute bind_commute) (simp add: view_handleLlsc f view_hitCallback [OF r] split: prod.split)
qed

lemma view_answer_dependent:
  "answer_dependent data (view s) pkt = map_option view (answer_dependent data s pkt)"
proof -
  have "answer pkt b None (view s) = view (answer pkt b None s)" if "\<not> isSpec (pk_cmd pkt)" for b
    using that by (simp add: view_answer hide_idle)
  then show ?thesis
    by (auto simp: answer_dependent_def assertion_def isSpec_def split: bind_splits)
qed

lemma view_dependents: "foldM (answer_dependent data) (view s) ds = map_option view (foldM (answer_dependent data) s ds)"
proof (induction ds arbitrary: s)
  case (Cons p ds)
  show ?case
  proof (cases "answer_dependent data s p")
    case (Some s1)
    then show ?thesis using Cons.IH [of s1] by (simp add: view_answer_dependent)
  qed (simp add: view_answer_dependent)
qed simp

lemma view_readCallback:
  assumes inv: "seq_inv buf s"
  shows "readCallback buf a data h0 h1 hm (view s) = map_option (\<lambda>(d, s). (d, view s)) (readCallback buf a data h0 h1 hm s)"
proof (cases "map_of (m_readRequestTable s) a")
  case None
  then show ?thesis by (simp add: readCallback_def)
next
  case (Some r)
  define r' where "r' = r\<lparr>sr_pkt := hit_at h0 h1 hm (sr_pkt r)\<rparr>"
  have r: "\<not> isSpec (pk_cmd (sr_pkt r'))"
    using seq_invD(7) [OF inv map_of_SomeD [OF Some]] by (simp add: read_entry_def r'_def hit_at_def)
  have d: "(if sr_type r = RT_LD then foldM (answer_dependent data) (view s) (dependentRequests r) else Some (view s)) =
    map_option view (if sr_type r = RT_LD then foldM (answer_dependent data) s (dependentRequests r) else Some s)" for s
    by (simp add: view_dependents)
  show ?thesis
    unfolding readCallback_def view_sel(1) view_funs view_upd view_markRemoved Some bind.simps d
    by (intro assertion_commute bind_commute) (unfold d, intro bind_commute, rule view_hitCallback [OF r, unfolded r'_def])
qed

lemma last_answer_real: "real_type ty \<Longrightarrow> last_answer ty hit l = last_answer ty False l"
  by (auto simp: real_type_def last_answer_def)

lemma hide_sent:
  assumes "isSpec (pk_cmd pkt)"
  shows "hide (sent_packet l hit f pkt) = sent_packet l False f (hide pkt)" "hide (kept_packet l hit pkt) = hide pkt"
  using assms by (cases pkt; simp add: sent_packet_def kept_packet_def hide_def mark_level_def)+

lemma hitCallbackObliv_miss:
  assumes "last_answer (sr_type r) False l = Some lst" "isSpec (pk_cmd (sr_pkt r))"
  shows "hitCallbackObliv k r False data l s = Some (answer (sent_packet l False lst (sr_pkt r)) None None
      (if lst then s else s\<lparr>m_specldRequestTable := assign k r (m_specldRequestTable s)\<rparr>))"
  using assms by (cases lst) (simp_all add: hitCallbackObliv_def Let_def sent_packet_def packet_upd)

lemma view_specld:
  "(view s)\<lparr>m_specldRequestTable := erase k (m_specldRequestTable (view s))\<rparr> = view (s\<lparr>m_specldRequestTable := erase k (m_specldRequestTable s)\<rparr>)"
  "hide_request r' = hide_request r \<Longrightarrow> (view s)\<lparr>m_specldRequestTable := assign k (hide_request r) (m_specldRequestTable (view s))\<rparr> =
    view (s\<lparr>m_specldRequestTable := assign k r' (m_specldRequestTable s)\<rparr>)"
  by (simp_all add: view_def erase_def assign_def filter_map comp_def)

lemma view_obliv_done:
  assumes inv: "seq_inv buf s" and real: "real_state s" and legal: "seq_legal buf (Obliv_done l a i hit data) s"
  shows "obliv_done l a i False [] (view s) = map_option view (obliv_done l a i hit data s)"
proof -
  obtain r lst where r: "map_of (m_specldRequestTable s) (a, i) = Some r" "l \<le> 2" "last_answer (sr_type r) hit l = Some lst"
    and d: "length data = 2 ^ blockSizeBits s"
    using legal by (auto simp: seq_legal_def split: option.splits)
  have e: "specld_entry s (a, i) r" using seq_invD(9) [OF inv map_of_SomeD [OF r(1)]] .
  then have sp: "isSpec (pk_cmd (sr_pkt r))" "in_line (blockSizeBits s) (sr_pkt r)" "makeLineAddress s a = a"
    by (auto simp: specld_entry_def makeLineAddress_def)
  have ty: "real_type (sr_type r)" using real map_of_SomeD [OF r(1)] by (auto simp: real_state_def)
  define h where "h = hide_request r"
  have h: "map_of (m_specldRequestTable (view s)) (a, i) = Some h" "last_answer (sr_type h) False l = Some lst" "isSpec (pk_cmd (sr_pkt h))"
    using r sp(1) last_answer_real [OF ty, of hit l] unfolding map_of_view by (simp_all add: h_def hide_request_def)
  have low: "obliv_done l a i False [] (view s) =
    (if lst then markRemoved ((view s)\<lparr>m_specldRequestTable := erase (a, i) (m_specldRequestTable (view s))\<rparr>) else Some (view s)) \<bind>
    hitCallbackObliv (a, i) h False [] l"
    using obliv_done_eq [OF r(2) h(1, 2) _ h(3)] sp(3) by simp
  have high: "obliv_done l a i hit data s =
    (if lst then markRemoved (s\<lparr>m_specldRequestTable := erase (a, i) (m_specldRequestTable s)\<rparr>) else Some s) \<bind>
    hitCallbackObliv (a, i) (if hit then r\<lparr>sr_pkt := mark_level l (sr_pkt r)\<rparr> else r) hit data l"
    using obliv_done_eq [OF r(2, 1, 3) sp(3, 1)] .
  have step: "hitCallbackObliv (a, i) h False [] l (view s1) =
      map_option view (hitCallbackObliv (a, i) (if hit then r\<lparr>sr_pkt := mark_level l (sr_pkt r)\<rparr> else r) hit data l s1)"
    if b: "blockSizeBits s1 = blockSizeBits s" for s1
  proof -
    have "in_line (blockSizeBits s1) (sr_pkt r)" "length data = 2 ^ blockSizeBits s1" using sp(2) d b by auto
    note eq = hitCallbackObliv_eq [OF r(3) sp(1) this]
    have k: "hide_request (r\<lparr>sr_pkt := kept_packet l hit (sr_pkt r)\<rparr>) = hide_request r"
      using hide_sent(2) [OF sp(1)] by (simp add: hide_request_def)
    show ?thesis
      unfolding eq hitCallbackObliv_miss [OF h(2, 3)]
      using hide_sent(1) [OF sp(1)] sp(1) view_specld(2) [OF k, where s = s1 and k = "(a, i)"]
      by (cases lst) (simp_all add: view_answer h_def hide_request_def del: view_sel(8))
  qed
  show ?thesis
  proof (cases lst)
    case True
    have "blockSizeBits s1 = blockSizeBits s" if "markRemoved (s\<lparr>m_specldRequestTable := erase (a, i) (m_specldRequestTable s)\<rparr>) = Some s1" for s1
      using markRemoved_params [OF that] by (simp add: same_params_def)
    then show ?thesis
      unfolding low high if_P [OF True] view_specld(1) view_markRemoved using step by (intro bind_commute) blast
  next
    case False
    then show ?thesis unfolding low high using step [of s] by simp
  qed
qed

lemma view_exec:
  assumes inv: "seq_inv buf s" and real: "real_state s" and legal: "seq_legal buf ev s" and ex: "seq_exec buf cached ev s = Some (st, s')"
  shows "seq_exec buf cached (view_event ev) (view s) = Some (st, view s')"
proof (cases ev)
  case (Make pkt)
  then show ?thesis using ex by (auto simp: view_makeRequest)
next
  case (Read_done a data h0 h1 hm)
  then show ?thesis using ex by (auto simp: view_readCallback [OF inv])
next
  case (Write_done a data)
  then show ?thesis using ex by (auto simp: view_writeCallback [OF inv])
next
  case (Obliv_done l a i hit data)
  then show ?thesis using ex legal view_obliv_done [OF inv real] by auto
qed

section \<open>Non-interference\<close>

lemma real_packet:
  assumes "request_type pkt = Some (ty, ty')" "isSpec (pk_cmd pkt)" "pk_cmd pkt \<notin> {ReadSpecPerfectReq, ReadSpecPerfectUnsafeReq}"
  shows "real_type ty"
  using assms by (auto simp: request_type_def isSpec_def real_type_def)

lemma real_exec:
  assumes ex: "seq_exec buf cached ev s = Some (st, s')" and inv: "seq_inv buf s" and legal: "seq_legal buf ev s"
    and real: "real_state s" "real_event ev"
  shows "real_state s'"
proof -
  have inv': "seq_inv buf s'" using seq_exec_ok [OF inv legal, of cached] ex by auto
  have old: "real_type (sr_type q)" if "(k, q) \<in> set (m_specldRequestTable s)" for k q
    using real(1) that by (auto simp: real_state_def)
  have "real_type (sr_type q)" if q: "(k, q) \<in> set (m_specldRequestTable s')" for k q
  proof (cases ev)
    case (Make pkt)
    then have "makeRequest pkt s = Some (the st, s')" using ex by auto
    then have "(k, q) \<in> set (m_specldRequestTable s) \<or> sr_pkt q = pkt"
      by (cases rule: makeRequest_cases)
        (use q in \<open>auto simp: insertSpecldRequest_def Let_def assertion_def mk_SequencerRequest_def split: if_splits dest: insert_keeps(1)\<close>)
    then show ?thesis
    proof
      assume "sr_pkt q = pkt"
      moreover have "specld_entry s' k q" using seq_invD(9) [OF inv' q] .
      ultimately show ?thesis using real(2) Make by (auto simp: specld_entry_def real_event_def intro: real_packet)
    qed (rule old)
  next
    case (Read_done a data h0 h1 hm)
    then obtain r where "map_of (m_readRequestTable s) a = Some r" "length data = 2 ^ blockSizeBits s"
      using legal by (auto simp: seq_legal_def)
    from readCallback_ok [OF inv this, of h0 h1 hm] have "m_specldRequestTable s' = m_specldRequestTable s"
      using ex Read_done by auto
    then show ?thesis using q old by simp
  next
    case (Write_done a data)
    then obtain r where "map_of (m_writeRequestTable s) a = Some r" "length data = 2 ^ blockSizeBits s"
      using legal by (auto simp: seq_legal_def)
    from writeCallback_ok [OF inv this, of cached] have "m_specldRequestTable s' = m_specldRequestTable s"
      using ex Write_done by (auto simp: answer_def)
    then show ?thesis using q old by simp
  next
    case (Obliv_done l a i hit data)
    then obtain r lst where r: "map_of (m_specldRequestTable s) (a, i) = Some r" "l \<le> 2" "last_answer (sr_type r) hit l = Some lst"
      "length data = 2 ^ blockSizeBits s"
      using legal by (auto simp: seq_legal_def split: option.splits)
    obtain s1 where "obliv_done l a i hit data s = Some (answer (sent_packet l hit lst (sr_pkt r)) (sent_bytes s hit (sr_pkt r) data) None s1)"
      "m_specldRequestTable s1 = (if lst then erase (a, i) (m_specldRequestTable s)
        else assign (a, i) (r\<lparr>sr_pkt := kept_packet l hit (sr_pkt r)\<rparr>) (m_specldRequestTable s))"
      using obliv_step [OF inv r] by metis
    then have "(k, q) \<in> set (m_specldRequestTable s) \<or> q = r\<lparr>sr_pkt := kept_packet l hit (sr_pkt r)\<rparr>"
      using q ex Obliv_done by (auto simp: answer_def split: if_splits dest: set_assignD)
    then show ?thesis using old [of k q] old [OF map_of_SomeD [OF r(1)]] by auto
  qed
  then show ?thesis by (auto simp: real_state_def)
qed

lemma view_run:
  assumes "seq_inv buf s" "real_state s" "list_all real_event es" "seq_run buf cached es s = Some (sts, s')"
  shows "foldM (\<lambda>(sts, s) ev. map_option (\<lambda>(st, s). (sts @ [st], s)) (seq_exec buf cached ev s)) (pre, view s) (map view_event es)
    = Some (pre @ sts, view s')"
  using assms
proof (induction es arbitrary: s sts pre)
  case (Cons ev es)
  obtain st s1 sts1 where legal: "seq_legal buf ev s" and ex: "seq_exec buf cached ev s = Some (st, s1)"
    and run: "seq_run buf cached es s1 = Some (sts1, s')" and sts: "sts = st # sts1"
    using Cons.prems(4) by (auto simp: bind_eq_Some_conv)
  have inv1: "seq_inv buf s1" using seq_exec_ok [OF Cons.prems(1) legal, of cached] ex by auto
  have real1: "real_state s1" using real_exec [OF ex Cons.prems(1) legal Cons.prems(2)] Cons.prems(3) by simp
  show ?case
    using Cons.IH [OF inv1 real1 _ run, of "pre @ [st]"] Cons.prems(3) view_exec [OF Cons.prems(1, 2) legal ex] by (simp add: sts)
qed simp

text \<open>
  (C3) Oblivious loads are oblivious: two runs of the sequencer that differ only in where
  the oblivious loads hit and what they read give every request the same status, send the
  same requests to the controllers, answer the same packets at the same levels and with the
  same last answers, and leave the same tables.
\<close>

theorem oblivious_loads_do_not_interfere:
  assumes "seq_reachable buf cached n bits s1" "seq_reachable buf cached n bits s2" "0 \<le> n"
    and "view s1 = view s2" "real_state s1" "real_state s2"
    and "map view_event es1 = map view_event es2" "list_all real_event es1" "list_all real_event es2"
    and "seq_run buf cached es1 s1 = Some (sts1, s1')" "seq_run buf cached es2 s2 = Some (sts2, s2')"
  shows "sts1 = sts2 \<and> view s1' = view s2'"
proof -
  have inv: "seq_inv buf s1" "seq_inv buf s2" using reachable_seq_inv [OF _ assms(3)] assms(1, 2) by auto
  note r1 = view_run [OF inv(1) assms(5, 8, 10), of "[]"] and r2 = view_run [OF inv(2) assms(6, 9, 11), of "[]"]
  show ?thesis using r1 r2 assms(4, 7) by simp
qed

end
