(* ===== verification/Sequencer_Example.thy ===== *)
theory Sequencer_Example
  imports Sequencer_Security
begin

text \<open>
  A sequencer with lines of four bytes and room for four requests, an oblivious load that
  asks all levels and an ordinary read of another line.
\<close>

definition sx_req :: "Addr \<Rightarrow> Request" where
  "sx_req a = \<lparr>getVaddr = a, getPaddr = a, getSize = 2, isLLSC = False, isStrictlyOrdered = False, isMmappedIpr = False,
     isCacheMaintenance = False, is_STORE_NO_DATA = False, is_CACHE_BLOCK_ZERO = False, isLockedRMW = False, isInstFetch = False,
     isStoreCheck = False, isSwap = False\<rparr>"

definition sx_load :: Packet where
  "sx_load = (mk_Packet (sx_req 9) ReadSpecMemReq)\<lparr>pk_reqIdx := 3, pk_first := True\<rparr>"

definition sx_read :: Packet where
  "sx_read = (mk_Packet (sx_req 4) ReadReq)\<lparr>pk_reqIdx := 5, pk_first := True\<rparr>"

definition sx_buf :: "Packet \<Rightarrow> 8 word list" where
  "sx_buf pkt = [0, 0]"

definition sx_start :: Sequencer where
  "sx_start = mk_Sequencer 4 2"

definition sx_sent :: Sequencer where
  "sx_sent = snd (the (seq_exec sx_buf (\<lambda>_. True) (Make sx_load) sx_start))"

definition sx_events :: "(nat \<Rightarrow> bool) \<Rightarrow> (nat \<Rightarrow> DataBlock) \<Rightarrow> seq_event list" where
  "sx_events hs ds = [Obliv_done 0 8 6 (hs 0) (ds 0), Make sx_read, Obliv_done 1 8 6 (hs 1) (ds 1),
     Read_done 4 [1, 2, 3, 4] False True False, Obliv_done 2 8 6 (hs 2) (ds 2)]"

lemma sx_legal_start: "seq_legal sx_buf (Make sx_load) sx_start"
  by code_simp

lemma sx_exec: "seq_exec sx_buf (\<lambda>_. True) (Make sx_load) sx_start = Some (Some RS_Issued, sx_sent)"
  by code_simp

lemma sx_reach: "seq_reachable sx_buf (\<lambda>_. True) 4 2 sx_sent"
  using seq_reachable.step [OF seq_reachable.start sx_legal_start [unfolded sx_start_def] sx_exec [unfolded sx_start_def]] .


theorem outstanding_bounded_witness:
  "seq_legal sx_buf (Make sx_read) sx_sent \<and> m_outstanding_count sx_sent = 1 \<and>
   \<not> (\<exists>s'. makeRequest sx_read sx_sent = Some (RS_BufferFull, s'))"
proof -
  have l: "seq_legal sx_buf (Make sx_read) sx_sent" and c: "m_outstanding_count sx_sent = 1" by code_simp+
  show ?thesis using outstanding_bounded [OF sx_reach _ l] l c by simp
qed

definition sx_hits :: "nat \<Rightarrow> bool" where
  "sx_hits l = (l \<noteq> 0)"

definition sx_lines :: "nat \<Rightarrow> DataBlock" where
  "sx_lines l = [10, 11, 12, 13]"

definition sx_run :: "(nat \<Rightarrow> bool) \<Rightarrow> (nat \<Rightarrow> DataBlock) \<Rightarrow> RequestStatus option list \<times> Sequencer" where
  "sx_run hs ds = the (seq_run sx_buf (\<lambda>_. True) (sx_events hs ds) sx_sent)"

lemma sx_runs:
  "seq_run sx_buf (\<lambda>_. True) (sx_events sx_hits sx_lines) sx_sent = Some (sx_run sx_hits sx_lines)"
  "seq_run sx_buf (\<lambda>_. True) (sx_events (\<lambda>_. False) (\<lambda>_. [0, 0, 0, 0])) sx_sent = Some (sx_run (\<lambda>_. False) (\<lambda>_. [0, 0, 0, 0]))"
  by code_simp+

lemma sx_entry: "map_of (m_specldRequestTable sx_sent) (8, 6) = Some (mk_SequencerRequest sx_load RT_SPEC_LD_Mem)"
  by code_simp

text \<open>The second level is the first that hits; its answer, and only it, carries the two bytes at address 9.\<close>

theorem oblivious_load_answers_witness:
  "map an_data (answers_of (8, 6) (snd (sx_run sx_hits sx_lines))) = [None, Some [11, 12], None] \<and>
   map (\<lambda>a. (fromLevel (an_pkt a), isFinalPacket (an_pkt a), isL0Hit (an_pkt a), isL1Hit (an_pkt a), isMemHit (an_pkt a)))
     (answers_of (8, 6) (snd (sx_run sx_hits sx_lines))) =
   [(0, False, False, False, False), (1, False, False, True, False), (3, True, False, True, True)]"
proof -
  have u: "untouched (sr_pkt (mk_SequencerRequest sx_load RT_SPEC_LD_Mem))" by code_simp
  have at: "obliv_at (8, 6) (sx_events sx_hits sx_lines) =
      map (\<lambda>l. (l, sx_hits l, sx_lines l)) [0..<answer_count (sr_type (mk_SequencerRequest sx_load RT_SPEC_LD_Mem)) sx_hits]"
    by code_simp
  have e: "answers_of (8, 6) sx_sent = []" by code_simp
  obtain sts s' where run: "sx_run sx_hits sx_lines = (sts, s')" by fastforce
  have "answers_of (8, 6) s' = map (oblivious_answer 2 sx_load sx_hits sx_lines 3) [0..<3]"
    using oblivious_load_answers [OF sx_reach _ sx_entry u at sx_runs(1) [unfolded run]] e
    by (simp add: mk_SequencerRequest_def answer_count_def)
  moreover have "[0..<3] = [0, 1, 2 :: nat]" by code_simp
  moreover have "first_hit sx_hits 0 = False" "first_hit sx_hits 1 = True" "first_hit sx_hits 2 = False"
    by (simp_all add: first_hit_def sx_hits_def below_level)
  ultimately show ?thesis
    by (simp add: run oblivious_answer_def sx_hits_def sx_lines_def sx_load_def mk_Packet_def sx_req_def)
qed

theorem oblivious_loads_do_not_interfere_witness:
  "fst (sx_run sx_hits sx_lines) = fst (sx_run (\<lambda>_. False) (\<lambda>_. [0, 0, 0, 0])) \<and>
   view (snd (sx_run sx_hits sx_lines)) = view (snd (sx_run (\<lambda>_. False) (\<lambda>_. [0, 0, 0, 0])))"
proof -
  obtain sts1 s1 sts2 s2 where run: "sx_run sx_hits sx_lines = (sts1, s1)" "sx_run (\<lambda>_. False) (\<lambda>_. [0, 0, 0, 0]) = (sts2, s2)"
    by fastforce
  have real: "real_state sx_sent" "list_all real_event (sx_events sx_hits sx_lines)"
    "list_all real_event (sx_events (\<lambda>_. False) (\<lambda>_. [0, 0, 0, 0]))" by code_simp+
  have ev: "map view_event (sx_events sx_hits sx_lines) = map view_event (sx_events (\<lambda>_. False) (\<lambda>_. [0, 0, 0, 0]))"
    by (simp add: sx_events_def)
  show ?thesis
    using oblivious_loads_do_not_interfere [OF sx_reach sx_reach _ refl real(1) real(1) ev real(2, 3) sx_runs(1) [unfolded run] sx_runs(2) [unfolded run]]
    by (simp add: run)
qed

end
