(* ===== verification/Spec2Isabelle.thy ===== *)
theory Spec2Isabelle
  imports LocPred_Protocol ROB_Example Rename_Example LSQ_Example SDO_Issue SDO_Expose Sequencer_Example
begin

text \<open>
  Speculative data-oblivious execution in the gem5 out-of-order CPU.
\<close>

end
